(* ===== verification/Prelude.thy ===== *)
theory Prelude
  imports Main "HOL-Library.Sublist" "HOL-Library.Char_ord" "HOL-Library.List_Lexorder"
begin

text \<open>
  What every component of the development shares: Python exceptions as values, programs that
  thread a state and may raise, and the string operations of Python that the code uses.

  A Python \<open>str\<close> is represented by the bytes of its UTF-8 encoding (a lone surrogate by the
  three bytes that the encoding scheme gives it), as a HOL \<open>string\<close>.  Equality, prefix, suffix,
  substring, concatenation, order by code point and splitting at an ASCII character mean the
  same on the encoded text as on the code points; operations that count code points are defined
  through \<open>cps\<close> in theory Unicode.
\<close>

section \<open>Lemma collections\<close>

named_theorems py_simps \<open>unfolding rules of the Python string operations\<close>
named_theorems frame_simps \<open>what an operation leaves unchanged\<close>

section \<open>Exceptions and state\<close>

text \<open>A raised exception: the name of its class and \<open>str(exc)\<close>.\<close>

record exn =
  exn_class :: string
  exn_msg :: string

definition exc :: "string \<Rightarrow> string \<Rightarrow> exn" where
  "exc c m = \<lparr>exn_class = c, exn_msg = m\<rparr>"

type_synonym 'a res = "exn + 'a"

text \<open>
  An effectful call: it takes the state and returns a value or an exception together with the
  state it leaves behind.  An exception keeps the state changes made before it was raised.
\<close>

type_synonym ('s, 'a) eff = "'s \<Rightarrow> 'a res \<times> 's"

definition ret :: "'a \<Rightarrow> ('s, 'a) eff" where
  "ret x s = (Inr x, s)"

definition raise :: "exn \<Rightarrow> ('s, 'a) eff" where
  "raise e s = (Inl e, s)"

definition andThen :: "('s, 'a) eff \<Rightarrow> ('a \<Rightarrow> ('s, 'b) eff) \<Rightarrow> ('s, 'b) eff" where
  "andThen m k s = (case m s of (Inl e, s') \<Rightarrow> (Inl e, s') | (Inr x, s') \<Rightarrow> k x s')"

text \<open>\<open>try: m except Exception as e: h(e)\<close>\<close>

definition catch :: "('s, 'a) eff \<Rightarrow> (exn \<Rightarrow> ('s, 'a) eff) \<Rightarrow> ('s, 'a) eff" where
  "catch m h s = (case m s of (Inl e, s') \<Rightarrow> h e s' | (Inr x, s') \<Rightarrow> (Inr x, s'))"

definition lift_res :: "'a res \<Rightarrow> ('s, 'a) eff" where
  "lift_res r s = (r, s)"

lemma ret_apply [simp]: "ret x s = (Inr x, s)"
  by (simp add: ret_def)

lemma raise_apply [simp]: "raise e s = (Inl e, s)"
  by (simp add: raise_def)

lemma lift_res_apply [simp]: "lift_res r s = (r, s)"
  by (simp add: lift_res_def)

lemma andThen_ret [simp]: "andThen (ret x) k = k x"
  by (simp add: andThen_def fun_eq_iff)

lemma andThen_raise [simp]: "andThen (raise e) k = raise e"
  by (simp add: andThen_def fun_eq_iff)

lemma andThen_assoc: "andThen (andThen m k) l = andThen m (\<lambda>x. andThen (k x) l)"
  by (simp add: andThen_def fun_eq_iff split: prod.splits sum.splits)

lemma andThen_InrE:
  assumes "andThen m k s = (Inr y, s2)"
  obtains x s1 where "m s = (Inr x, s1)" and "k x s1 = (Inr y, s2)"
  using assms by (auto simp: andThen_def split: prod.splits sum.splits)

definition res_bind :: "'a res \<Rightarrow> ('a \<Rightarrow> 'b res) \<Rightarrow> 'b res" where
  "res_bind r k = (case r of Inl e \<Rightarrow> Inl e | Inr x \<Rightarrow> k x)"

lemma res_bind_simps [simp]:
  "res_bind (Inl e) k = Inl e" "res_bind (Inr x) k = k x"
  by (simp_all add: res_bind_def)

lemma res_bind_InrE:
  assumes "res_bind r k = Inr y"
  obtains x where "r = Inr x" and "k x = Inr y"
  using assms by (cases r) auto

section \<open>Python strings\<close>

abbreviation NL :: char where "NL \<equiv> CHR 0x0A"
abbreviation DQ :: char where "DQ \<equiv> CHR 0x22"
abbreviation SQ :: char where "SQ \<equiv> CHR 0x27"
abbreviation BSL :: char where "BSL \<equiv> CHR 0x5C"

definition startswith :: "string \<Rightarrow> string \<Rightarrow> bool" where
  "startswith s p \<longleftrightarrow> take (length p) s = p"

definition endswith :: "string \<Rightarrow> string \<Rightarrow> bool" where
  "endswith s p \<longleftrightarrow> length p \<le> length s \<and> drop (length s - length p) s = p"

text \<open>\<open>p in s\<close>\<close>

fun str_in :: "string \<Rightarrow> string \<Rightarrow> bool" where
  "str_in p [] = (p = [])"
| "str_in p (c # s) = (startswith (c # s) p \<or> str_in p s)"

text \<open>\<open>s.split(c)\<close> for a single character\<close>

fun split_on :: "char \<Rightarrow> string \<Rightarrow> string list" where
  "split_on c [] = [[]]"
| "split_on c (x # s) =
     (if x = c then [] # split_on c s
      else (case split_on c s of [] \<Rightarrow> [[x]] | w # ws \<Rightarrow> (x # w) # ws))"

text \<open>\<open>sep.join(xs)\<close>\<close>

fun join :: "string \<Rightarrow> string list \<Rightarrow> string" where
  "join sep [] = []"
| "join sep [x] = x"
| "join sep (x # y # xs) = x @ sep @ join sep (y # xs)"

text \<open>\<open>s.partition(c)\<close> as the parts before and after the first \<open>c\<close>\<close>

definition before :: "char \<Rightarrow> string \<Rightarrow> string" where
  "before c s = takeWhile (\<lambda>x. x \<noteq> c) s"

definition after :: "char \<Rightarrow> string \<Rightarrow> string" where
  "after c s = tl (dropWhile (\<lambda>x. x \<noteq> c) s)"

definition rstrip_chars :: "string \<Rightarrow> string \<Rightarrow> string" where
  "rstrip_chars cs s = rev (dropWhile (\<lambda>x. x \<in> set cs) (rev s))"

definition lstrip_chars :: "string \<Rightarrow> string \<Rightarrow> string" where
  "lstrip_chars cs s = dropWhile (\<lambda>x. x \<in> set cs) s"

definition strip_chars :: "string \<Rightarrow> string \<Rightarrow> string" where
  "strip_chars cs s = rstrip_chars cs (lstrip_chars cs s)"

text \<open>
  The one-byte white space of \<open>str.strip()\<close> and of \<open>\s\<close>: tab to carriage return, the four
  information separators and the space.  (The white space beyond ASCII is not in the model.)
\<close>

definition py_space :: string where
  "py_space = [CHR 0x09, CHR 0x0A, CHR 0x0B, CHR 0x0C, CHR 0x0D, CHR 0x1C, CHR 0x1D, CHR 0x1E,
     CHR 0x1F, CHR '' '']"

definition strip :: "string \<Rightarrow> string" where
  "strip s = strip_chars py_space s"

text \<open>Line ends of \<open>str.splitlines\<close> (again the one-byte ones; CR LF counts once).\<close>

definition line_ends :: string where
  "line_ends = [CHR 0x0A, CHR 0x0B, CHR 0x0C, CHR 0x0D, CHR 0x1C, CHR 0x1D, CHR 0x1E]"

fun splitlines_from :: "string \<Rightarrow> string \<Rightarrow> string list" where
  "splitlines_from acc [] = (if acc = [] then [] else [acc])"
| "splitlines_from acc (c # s) =
     (if c \<in> set line_ends
      then acc # (case s of
             [] \<Rightarrow> []
           | d # s' \<Rightarrow> if c = CHR 0x0D \<and> d = CHR 0x0A then splitlines_from [] s' else splitlines_from [] s)
      else splitlines_from (acc @ [c]) s)"

definition splitlines :: "string \<Rightarrow> string list" where
  "splitlines s = splitlines_from [] s"

text \<open>\<open>str(n)\<close> for an integer\<close>

fun digits :: "nat \<Rightarrow> string" where
  "digits n = (if n < 10 then [char_of (48 + n)] else digits (n div 10) @ [char_of (48 + n mod 10)])"

declare digits.simps [simp del]

definition str_of_int :: "int \<Rightarrow> string" where
  "str_of_int i = (if i < 0 then CHR ''-'' # digits (nat (- i)) else digits (nat i))"

definition is_digit :: "char \<Rightarrow> bool" where
  "is_digit c \<longleftrightarrow> CHR ''0'' \<le> c \<and> c \<le> CHR ''9''"

text \<open>\<open>repr(s)\<close> of a string of printable characters and the usual control characters\<close>

fun repr_char :: "char \<Rightarrow> char \<Rightarrow> string" where
  "repr_char q c =
     (if c = q \<or> c = BSL then [BSL, c]
      else if c = NL then [BSL, CHR ''n'']
      else if c = CHR 0x0D then [BSL, CHR ''r'']
      else if c = CHR 0x09 then [BSL, CHR ''t'']
      else [c])"

definition py_repr :: "string \<Rightarrow> string" where
  "py_repr s = (let q = (if SQ \<in> set s \<and> DQ \<notin> set s then DQ else SQ)
     in q # concat (map (repr_char q) s) @ [q])"

section \<open>Facts about them\<close>

lemma startswith_iff_prefix: "startswith s p \<longleftrightarrow> prefix p s"
  unfolding startswith_def by (metis append_take_drop_id append_eq_conv_conj prefix_def)

lemma startswith_append [simp]: "startswith (p @ s) p"
  by (simp add: startswith_def)

lemma startswith_Nil [simp]: "startswith s []"
  by (simp add: startswith_def)

lemma str_in_iff_sublist: "str_in p s \<longleftrightarrow> sublist p s"
  by (induction s) (auto simp: startswith_iff_prefix sublist_Cons_right)

lemma split_on_ne [simp]: "split_on c s \<noteq> []"
  by (induction s) (auto split: list.splits)

lemma split_on_Cons_sep [simp]: "split_on c (c # s) = [] # split_on c s"
  by simp

lemma join_split_on [simp]: "join [c] (split_on c s) = s"
proof (induction s)
  case (Cons x s)
  have "split_on c s \<noteq> []" by simp
  with Cons show ?case by (cases "split_on c s"; cases "tl (split_on c s)") auto
qed simp

lemma split_on_no_sep: "c \<notin> set s \<Longrightarrow> split_on c s = [s]"
  by (induction s) auto

lemma split_on_append_sep: "split_on c (s @ c # t) = split_on c s @ split_on c t"
proof (induction s)
  case (Cons x s)
  then show ?case by (cases "split_on c s") auto
qed simp

lemma split_on_elem_no_sep: "w \<in> set (split_on c s) \<Longrightarrow> c \<notin> set w"
proof (induction s arbitrary: w)
  case (Cons x s)
  then show ?case by (cases "split_on c s") (auto split: if_splits)
qed simp

lemma set_rstrip_chars: "set (rstrip_chars cs s) \<subseteq> set s"
  unfolding rstrip_chars_def using set_dropWhileD by fastforce

lemma digits_ne [simp]: "digits n \<noteq> []"
  by (subst digits.simps) simp

end
