(* ===== verification/Unicode.thy ===== *)
theory Unicode
  imports Prelude
begin

text \<open>
  Code points of an encoded string.  \<open>cps\<close> decodes the UTF-8 bytes that represent a
  \<open>str\<close>; \<open>utf8\<close> encodes one code point.  They are inverse to each other on code points,
  so \<open>len\<close>, slicing and JSON escapes can be stated on code points.
\<close>

fun utf8 :: "nat \<Rightarrow> string" where
  "utf8 c =
     (if c < 128 then [char_of c]
      else if c < 2048 then [char_of (192 + c div 64), char_of (128 + c mod 64)]
      else if c < 65536
      then [char_of (224 + c div 4096), char_of (128 + c div 64 mod 64), char_of (128 + c mod 64)]
      else [char_of (240 + c div 262144), char_of (128 + c div 4096 mod 64),
            char_of (128 + c div 64 mod 64), char_of (128 + c mod 64)])"

fun cps :: "string \<Rightarrow> nat list" where
  "cps [] = []"
| "cps (a # s) =
     (let x = of_char a in
      if x < 192 then x # cps s
      else if x < 224
      then (case s of b # s' \<Rightarrow> ((x - 192) * 64 + (of_char b - 128)) # cps s' | _ \<Rightarrow> [x])
      else if x < 240
      then (case s of
              b # c # s' \<Rightarrow> ((x - 224) * 4096 + (of_char b - 128) * 64 + (of_char c - 128)) # cps s'
            | _ \<Rightarrow> [x])
      else (case s of
              b # c # d # s' \<Rightarrow>
                ((x - 240) * 262144 + (of_char b - 128) * 4096 + (of_char c - 128) * 64
                 + (of_char d - 128)) # cps s'
            | _ \<Rightarrow> [x]))"

declare utf8.simps [simp del]

abbreviation utf8s :: "nat list \<Rightarrow> string" where
  "utf8s cs \<equiv> concat (map utf8 cs)"

text \<open>\<open>len(s)\<close>, \<open>s[:n]\<close> and \<open>s[-n:]\<close> count code points.\<close>

definition ulen :: "string \<Rightarrow> nat" where
  "ulen s = length (cps s)"

definition utake :: "nat \<Rightarrow> string \<Rightarrow> string" where
  "utake n s = utf8s (take n (cps s))"

definition ulast :: "nat \<Rightarrow> string \<Rightarrow> string" where
  "ulast n s = utf8s (drop (length (cps s) - n) (cps s))"

definition is_surrogate :: "nat \<Rightarrow> bool" where
  "is_surrogate c \<longleftrightarrow> 55296 \<le> c \<and> c < 57344"

definition is_high :: "nat \<Rightarrow> bool" where
  "is_high c \<longleftrightarrow> 55296 \<le> c \<and> c < 56320"

definition is_low :: "nat \<Rightarrow> bool" where
  "is_low c \<longleftrightarrow> 56320 \<le> c \<and> c < 57344"

text \<open>Strings that are the encoding of a sequence of code points.\<close>

definition wf_str :: "string \<Rightarrow> bool" where
  "wf_str s \<longleftrightarrow> utf8s (cps s) = s \<and> list_all (\<lambda>c. c < 1114112) (cps s)"

text \<open>Evaluation looks at the small code points first.\<close>

lemma code_point_code [code]:
  "is_surrogate c = (if c < 128 then False else 55296 \<le> c \<and> c < 57344)"
  "is_high c = (if c < 128 then False else 55296 \<le> c \<and> c < 56320)"
  "is_low c = (if c < 128 then False else 56320 \<le> c \<and> c < 57344)"
  "wf_str s = (utf8s (cps s) = s \<and> list_all (\<lambda>c. if c < 128 then True else c < 1114112) (cps s))"
  by (auto simp: is_surrogate_def is_high_def is_low_def wf_str_def list_all_iff)

definition ascii :: "string \<Rightarrow> bool" where
  "ascii s \<longleftrightarrow> list_all (\<lambda>c. (of_char c :: nat) < 128) s"

lemma split64_3: "c div 4096 * 4096 + c div 64 mod 64 * 64 + c mod 64 = (c::nat)"
proof -
  have "c div 64 = 64 * (c div 64 div 64) + c div 64 mod 64" by simp
  moreover have "c div 64 div 64 = c div 4096" by (simp flip: div_mult2_eq)
  ultimately have "c div 64 = 64 * (c div 4096) + c div 64 mod 64" by argo
  then show ?thesis using mult_div_mod_eq [of 64 c] by linarith
qed

lemma split64_4:
  "c div 262144 * 262144 + c div 4096 mod 64 * 4096 + c div 64 mod 64 * 64 + c mod 64 = (c::nat)"
proof -
  have "c div 4096 = 64 * (c div 4096 div 64) + c div 4096 mod 64" by simp
  moreover have "c div 4096 div 64 = c div 262144" by (simp flip: div_mult2_eq)
  ultimately have "c div 4096 = 64 * (c div 262144) + c div 4096 mod 64" by argo
  then show ?thesis using split64_3 [of c] by linarith
qed

lemma cps_utf8 [simp]: "c < 1114112 \<Longrightarrow> cps (utf8 c @ s) = c # cps s"
  by (auto simp: utf8.simps Let_def split64_3 split64_4)

lemma utf8_ne [simp]: "utf8 c \<noteq> []"
  by (simp add: utf8.simps)

lemma cps_utf8s [simp]: "\<forall>c \<in> set cs. c < 1114112 \<Longrightarrow> cps (utf8s cs @ s) = cs @ cps s"
  by (induction cs) auto

lemma wf_str_utf8s: "\<forall>c \<in> set cs. c < 1114112 \<Longrightarrow> wf_str (utf8s cs)"
  using cps_utf8s [of cs "[]"] by (auto simp: wf_str_def list_all_iff)

lemma wf_strE:
  assumes "wf_str s"
  obtains cs where "s = utf8s cs" and "\<forall>c \<in> set cs. c < 1114112" and "cps s = cs"
  using assms unfolding wf_str_def list_all_iff by metis

lemma wf_str_append:
  assumes "wf_str s" and "wf_str t"
  shows "wf_str (s @ t)" and "cps (s @ t) = cps s @ cps t"
proof -
  from assms(1) obtain cs where cs: "s = utf8s cs" "\<forall>c \<in> set cs. c < 1114112" "cps s = cs"
    by (rule wf_strE)
  from assms(2) obtain ds where ds: "t = utf8s ds" "\<forall>c \<in> set ds. c < 1114112" "cps t = ds"
    by (rule wf_strE)
  have "wf_str (utf8s (cs @ ds))" by (rule wf_str_utf8s) (use cs ds in auto)
  then show "wf_str (s @ t)" using cs(1) ds(1) by simp
  show "cps (s @ t) = cps s @ cps t" using cs ds by simp
qed

lemma ascii_Nil [simp]: "ascii []"
  by (simp add: ascii_def)

lemma ascii_Cons [simp]: "ascii (c # s) \<longleftrightarrow> (of_char c :: nat) < 128 \<and> ascii s"
  by (simp add: ascii_def)

lemma ascii_append [simp]: "ascii (s @ t) \<longleftrightarrow> ascii s \<and> ascii t"
  by (simp add: ascii_def)

lemma cps_ascii: "ascii s \<Longrightarrow> cps s = map of_char s"
  by (induction s) (auto simp: Let_def)

lemma utf8s_ascii: "ascii s \<Longrightarrow> concat (map (\<lambda>c. utf8 (of_char c)) s) = s"
  by (induction s) (auto simp: utf8.simps)

lemma wf_str_ascii: "ascii s \<Longrightarrow> wf_str s"
  by (auto simp: wf_str_def cps_ascii comp_def utf8s_ascii list_all_iff) (auto simp: ascii_def list_all_iff)

lemma ulen_ascii: "ascii s \<Longrightarrow> ulen s = length s"
  by (simp add: ulen_def cps_ascii)

lemma ascii_take [simp]: "ascii s \<Longrightarrow> ascii (take n s)"
  by (metis append_take_drop_id ascii_append)

lemma ascii_drop [simp]: "ascii s \<Longrightarrow> ascii (drop n s)"
  by (metis append_take_drop_id ascii_append)

lemma utake_ascii: "ascii s \<Longrightarrow> utake n s = take n s"
  by (simp add: utake_def cps_ascii take_map comp_def utf8s_ascii)

lemma ulast_ascii: "ascii s \<Longrightarrow> ulast n s = drop (length s - n) s"
  by (simp add: ulast_def cps_ascii drop_map comp_def utf8s_ascii)

lemma cps_eq_iff:
  assumes "wf_str s" and "wf_str t"
  shows "cps s = cps t \<longleftrightarrow> s = t"
  using assms by (metis wf_str_def)

end
