(* ===== verification/Posix_Path.thy ===== *)
theory Posix_Path
  imports Unicode
begin

text \<open>
  The file system and the part of \<open>os.path\<close> and \<open>fnmatch\<close> the code uses.

  A file system is a finite list of entries: the absolute path of an entry, as its list of
  names, and what is there (a file with its bytes, a directory, a symbolic link with its target).
  The root directory is always there.  Permissions, devices and hard links are not modelled.
  \<open>resolve\<close> is the path walk of the kernel that \<open>open\<close>, \<open>stat\<close> and \<open>listdir\<close> perform;
  \<open>realpath\<close> is the library function, which never fails.  \<open>resolve_realpath\<close> relates the two.
  Relative names start at the working directory \<open>cwd\<close>, a canonical absolute path.
\<close>

type_synonym path = "string list"

datatype node = File string | Dir | Link string

type_synonym fs = "(path \<times> node) list"

section \<open>Lexical operations\<close>

abbreviation SL :: char where "SL \<equiv> CHR ''/''"

definition isabs :: "string \<Rightarrow> bool" where
  "isabs p \<longleftrightarrow> startswith p ''/''"

definition path_join :: "string \<Rightarrow> string \<Rightarrow> string" where
  "path_join a b =
     (if startswith b ''/'' then b
      else if a = [] \<or> endswith a ''/'' then a @ b
      else a @ ''/'' @ b)"

text \<open>The parts of \<open>p\<close> up to and after its last slash.\<close>

definition split_head :: "string \<Rightarrow> string" where
  "split_head p = rev (dropWhile (\<lambda>c. c \<noteq> SL) (rev p))"

definition basename :: "string \<Rightarrow> string" where
  "basename p = rev (takeWhile (\<lambda>c. c \<noteq> SL) (rev p))"

definition dirname :: "string \<Rightarrow> string" where
  "dirname p = (let h = split_head p in
     if h \<noteq> [] \<and> \<not> list_all (\<lambda>c. c = SL) h then rstrip_chars ''/'' h else h)"

definition segs :: "string \<Rightarrow> string list" where
  "segs p = split_on SL p"

fun lcp :: "'a list \<Rightarrow> 'a list \<Rightarrow> 'a list" where
  "lcp (x # xs) (y # ys) = (if x = y then x # lcp xs ys else [])"
| "lcp _ _ = []"

text \<open>\<open>os.path.commonpath([a, b])\<close>; mixing absolute and relative paths raises.\<close>

definition plain_segs :: "string \<Rightarrow> string list" where
  "plain_segs p = filter (\<lambda>s. s \<noteq> [] \<and> s \<noteq> ''.'') (segs p)"

definition commonpath2 :: "string \<Rightarrow> string \<Rightarrow> string res" where
  "commonpath2 a b =
     (if isabs a \<noteq> isabs b
      then Inl (exc ''ValueError'' ''Can't mix absolute and relative paths'')
      else Inr ((if isabs a then ''/'' else []) @ join ''/'' (lcp (plain_segs a) (plain_segs b))))"

text \<open>The string of an absolute list of names.\<close>

definition abs_str :: "path \<Rightarrow> string" where
  "abs_str p = ''/'' @ join ''/'' p"

section \<open>File-name patterns\<close>

datatype pat =
    Star
  | AnyCh
  | Lit nat
  | Class bool "nat list list"   \<comment> \<open>negated?, the chunks between range hyphens\<close>
  | Never

text \<open>The chunks of a bracket expression that holds a hyphen, as \<open>fnmatch.translate\<close> cuts it.\<close>

function chunks :: "nat list \<Rightarrow> nat \<Rightarrow> nat list list" where
  "chunks s k =
     (case find (\<lambda>i. k \<le> i \<and> s ! i = 45) [0..<length s] of
        None \<Rightarrow> [s]
      | Some i \<Rightarrow> take i s # chunks (drop (Suc i) s) 2)"
  by pat_completeness auto
termination by (relation "measure (\<lambda>(s, k). length s)") (auto simp: find_Some_iff)

definition fix_tail :: "nat list list \<Rightarrow> nat list list" where
  "fix_tail cs = (if last cs = [] then butlast (butlast cs) @ [last (butlast cs) @ [45]] else cs)"

text \<open>Ranges whose ends are in the wrong order are removed, from the right.\<close>

fun drop_empty_ranges :: "nat list list \<Rightarrow> nat list list" where
  "drop_empty_ranges (c # cs) =
     (case drop_empty_ranges cs of
        d # ds \<Rightarrow> if last c > hd d then (butlast c @ tl d) # ds else c # d # ds
      | [] \<Rightarrow> [c])"
| "drop_empty_ranges [] = []"

definition bracket :: "nat list \<Rightarrow> pat" where
  "bracket stuff =
     (let neg = (stuff \<noteq> [] \<and> hd stuff = 33);
          cs = (if 45 \<notin> set stuff then [stuff]
                else drop_empty_ranges (fix_tail (chunks stuff (if neg then 2 else 1))))
      in if cs = [[]] then Never
         else if cs = [[33]] then AnyCh
         else if hd cs \<noteq> [] \<and> hd (hd cs) = 33 then Class True (tl (hd cs) # tl cs)
         else Class False cs)"

text \<open>The end of a bracket expression: the index of its closing bracket, if any.\<close>

definition bracket_end :: "nat list \<Rightarrow> nat option" where
  "bracket_end s =
     (let j0 = (if s \<noteq> [] \<and> hd s = 33 then 1 else 0);
          j1 = (if j0 < length s \<and> s ! j0 = 93 then Suc j0 else j0)
      in find (\<lambda>j. j1 \<le> j \<and> s ! j = 93) [0..<length s])"

function parse_pat :: "nat list \<Rightarrow> pat list" where
  "parse_pat [] = []"
| "parse_pat (c # s) =
     (if c = 42 then Star # parse_pat s
      else if c = 63 then AnyCh # parse_pat s
      else if c = 91
      then (case bracket_end s of
              None \<Rightarrow> Lit 91 # parse_pat s
            | Some j \<Rightarrow> bracket (take j s) # parse_pat (drop (Suc j) s))
      else Lit c # parse_pat s)"
  by pat_completeness auto
termination by (relation "measure length") auto

fun in_chunks :: "nat \<Rightarrow> nat list list \<Rightarrow> bool" where
  "in_chunks c (x # y # cs) =
     (c \<in> set x \<or>
      (if x = [] \<or> y = [] then c = 45 else last x \<le> c \<and> c \<le> hd y) \<or> in_chunks c (y # cs))"
| "in_chunks c [x] = (c \<in> set x)"
| "in_chunks c [] = False"

fun match1 :: "pat \<Rightarrow> nat \<Rightarrow> bool" where
  "match1 AnyCh c = True"
| "match1 (Lit d) c = (c = d)"
| "match1 (Class neg cs) c = (in_chunks c cs \<noteq> neg)"
| "match1 _ c = False"

fun match_pat :: "pat list \<Rightarrow> nat list \<Rightarrow> bool" where
  "match_pat [] s = (s = [])"
| "match_pat (Star # ps) [] = match_pat ps []"
| "match_pat (Star # ps) (c # s) = (match_pat ps (c # s) \<or> match_pat (Star # ps) s)"
| "match_pat (p # ps) [] = False"
| "match_pat (p # ps) (c # s) = (match1 p c \<and> match_pat ps s)"

definition fnmatch :: "string \<Rightarrow> string \<Rightarrow> bool" where
  "fnmatch name pat = match_pat (parse_pat (cps pat)) (cps name)"

section \<open>Looking up the file system\<close>

definition lstat :: "fs \<Rightarrow> path \<Rightarrow> node option" where
  "lstat fs p = (if p = [] then Some Dir else map_of fs p)"

definition link_base :: "path \<Rightarrow> string \<Rightarrow> path" where
  "link_base p t = (if isabs t then [] else p)"

text \<open>
  The walk of the kernel from the directory \<open>p\<close>, following every link (the last one too), with
  at most \<open>n\<close> links; it returns the canonical path and the number of links left.  With
  \<open>create\<close> the last name may be missing (\<open>O_CREAT\<close>).
\<close>

function walk :: "fs \<Rightarrow> bool \<Rightarrow> nat \<Rightarrow> path \<Rightarrow> string list \<Rightarrow> (path \<times> nat) option" where
  "walk fs create n p [] = Some (p, n)"
| "walk fs create n p (s # r) =
     (if lstat fs p \<noteq> Some Dir then None
      else if s = [] \<or> s = ''.'' then walk fs create n p r
      else if s = ''..'' then walk fs create n (butlast p) r
      else (case lstat fs (p @ [s]) of
              None \<Rightarrow> if create \<and> r = [] then Some (p @ [s], n) else None
            | Some (Link t) \<Rightarrow>
                (case n of
                   0 \<Rightarrow> None
                 | Suc m \<Rightarrow> walk fs create m (link_base p t) (segs t @ r))
            | Some _ \<Rightarrow> walk fs create n (p @ [s]) r))"
  by pat_completeness auto
termination
  by (relation "measures [\<lambda>(fs, create, n, p, r). n, \<lambda>(fs, create, n, p, r). length r]") auto

definition MAX_LINKS :: nat where "MAX_LINKS = 40"

definition start :: "path \<Rightarrow> string \<Rightarrow> path" where
  "start cwd name = (if isabs name then [] else cwd)"

definition resolve :: "fs \<Rightarrow> path \<Rightarrow> string \<Rightarrow> path option" where
  "resolve fs cwd name =
     (if name = [] then None else map_option fst (walk fs False MAX_LINKS (start cwd name) (segs name)))"

definition resolve_create :: "fs \<Rightarrow> path \<Rightarrow> string \<Rightarrow> path option" where
  "resolve_create fs cwd name =
     (if name = [] then None else map_option fst (walk fs True MAX_LINKS (start cwd name) (segs name)))"

definition path_exists :: "fs \<Rightarrow> path \<Rightarrow> string \<Rightarrow> bool" where
  "path_exists fs cwd name \<longleftrightarrow> resolve fs cwd name \<noteq> None"

text \<open>\<open>os.path.islink\<close>: the parent is resolved, the last name is not.\<close>

definition islink :: "fs \<Rightarrow> path \<Rightarrow> string \<Rightarrow> bool" where
  "islink fs cwd name =
     (let ss = segs name in
      name \<noteq> [] \<and> last ss \<notin> {[], ''.'', ''..''} \<and>
      (case walk fs False MAX_LINKS (start cwd name) (butlast ss) of
         None \<Rightarrow> False
       | Some (p, _) \<Rightarrow> (case lstat fs (p @ [last ss]) of Some (Link _) \<Rightarrow> True | _ \<Rightarrow> False)))"

section \<open>realpath\<close>

text \<open>
  \<open>os.path.realpath\<close> keeps a path that is resolved so far and the names still to come.  The
  recursion into the target of a link is the marker \<open>Done\<close>, after which the link is known to
  resolve to the current path.  A link met again while it is being resolved ends the resolution:
  the remaining names are appended as they are and the result is normalised lexically.
\<close>

datatype ritem = Seg string | Done path

definition is_seg :: "ritem \<Rightarrow> bool" where
  "is_seg x = (case x of Seg _ \<Rightarrow> True | Done _ \<Rightarrow> False)"

fun tail_norm :: "path \<Rightarrow> bool \<Rightarrow> ritem list \<Rightarrow> path" where
  "tail_norm p fresh [] = p"
| "tail_norm p fresh (Done q # r) = tail_norm p True r"
| "tail_norm p fresh (Seg s # r) =
     (if s = []
      then tail_norm (if fresh \<and> r \<noteq> [] \<and> is_seg (hd r) then [] else p) False r
      else if s = ''.'' then tail_norm p False r
      else if s = ''..'' then tail_norm (butlast p) False r
      else tail_norm (p @ [s]) False r)"

definition fs_links :: "fs \<Rightarrow> path set" where
  "fs_links fs = {q. \<exists>t. lstat fs q = Some (Link t)}"

lemma finite_fs_links [simp]: "finite (fs_links fs)"
proof (rule finite_subset)
  show "fs_links fs \<subseteq> fst ` set fs"
    by (auto simp: fs_links_def lstat_def split: if_splits dest!: map_of_SomeD intro: rev_image_eqI)
qed simp

lemma unseen_links_mono:
  "card (fs_links fs - insert q S) < card (fs_links fs - S) \<or>
   card (fs_links fs - insert q S) = card (fs_links fs - S)"
proof -
  have "card (fs_links fs - insert q S) \<le> card (fs_links fs - S)"
    by (rule card_mono) auto
  then show ?thesis by linarith
qed

lemma unseen_links_less:
  assumes "lstat fs q = Some (Link t)" and "map_of seen q = None"
  shows "card (fs_links fs - insert q (fst ` set seen)) < card (fs_links fs - fst ` set seen)"
proof -
  have "q \<in> fs_links fs - fst ` set seen"
    using assms by (auto simp: fs_links_def map_of_eq_None_iff)
  then show ?thesis by (intro psubset_card_mono) auto
qed

function rp :: "fs \<Rightarrow> (path \<times> path option) list \<Rightarrow> path \<Rightarrow> ritem list \<Rightarrow> path" where
  "rp fs seen p [] = p"
| "rp fs seen p (Done q # r) = rp fs ((q, Some p) # seen) p r"
| "rp fs seen p (Seg s # r) =
     (if s = [] \<or> s = ''.'' then rp fs seen p r
      else if s = ''..'' then rp fs seen (butlast p) r
      else (case lstat fs (p @ [s]) of
              Some (Link t) \<Rightarrow>
                (case map_of seen (p @ [s]) of
                   Some (Some q) \<Rightarrow> rp fs seen q r
                 | Some None \<Rightarrow> tail_norm (p @ [s]) True r
                 | None \<Rightarrow> rp fs ((p @ [s], None) # seen) (link_base p t)
                             (map Seg (segs t) @ Done (p @ [s]) # r))
            | _ \<Rightarrow> rp fs seen (p @ [s]) r))"
  by pat_completeness auto
termination
  by (relation "measures [\<lambda>(fs, seen, p, r). card (fs_links fs - fst ` set seen),
      \<lambda>(fs, seen, p, r). length r]")
    (use unseen_links_mono in \<open>auto intro: unseen_links_less\<close>)

definition realpath_segs :: "fs \<Rightarrow> path \<Rightarrow> string \<Rightarrow> path" where
  "realpath_segs fs cwd name = rp fs [] (start cwd name) (map Seg (segs name))"

definition realpath :: "fs \<Rightarrow> path \<Rightarrow> string \<Rightarrow> string" where
  "realpath fs cwd name = abs_str (realpath_segs fs cwd name)"


section \<open>realpath agrees with the kernel wherever the kernel succeeds\<close>

lemma walk_shift: "walk fs cr n p r = Some (q, m) \<Longrightarrow> walk fs cr (n + k) p r = Some (q, m + k)"
  by (induction fs cr n p r rule: walk.induct)
    (auto split: if_splits option.splits node.splits nat.splits)

lemma walk_exact: "walk fs cr n p r = Some (q, m) \<Longrightarrow> m \<le> n \<and> walk fs cr (n - m) p r = Some (q, 0)"
  by (induction fs cr n p r rule: walk.induct)
    ((auto split: if_splits option.splits node.splits nat.splits simp: Suc_diff_le)[1],
     (fastforce split: if_splits option.splits node.splits nat.splits simp: Suc_diff_le))

lemma walk_mono: "walk fs cr n p r = Some (q, m) \<Longrightarrow> n \<le> n' \<Longrightarrow> walk fs cr n' p r = Some (q, m + (n' - n))"
  using walk_shift [of fs cr n p r q m "n' - n"] by simp

lemma walk_det:
  assumes "walk fs cr n p r = Some (q, 0)" and "walk fs cr n' p r = Some (q', m)"
  shows "q' = q \<and> n' = n + m"
proof -
  have m: "m \<le> n'" and w: "walk fs cr (n' - m) p r = Some (q', 0)"
    using walk_exact [OF assms(2)] by auto
  have "n = n' - m \<and> q' = q"
  proof (cases "n \<le> n' - m")
    case True
    have "Some (q, 0 + (n' - m - n)) = Some (q', 0 :: nat)"
      using walk_mono [OF assms(1) True] w by argo
    with True m show ?thesis by auto
  next
    case False
    then have "n' - m \<le> n" by simp
    have "Some (q', 0 + (n - (n' - m))) = Some (q, 0 :: nat)"
      using walk_mono [OF w \<open>n' - m \<le> n\<close>] assms(1) by argo
    with \<open>n' - m \<le> n\<close> m show ?thesis by auto
  qed
  with m show ?thesis by simp
qed

lemma walk_append:
  "walk fs False n p (a @ b) =
     (case walk fs False n p a of None \<Rightarrow> None | Some (q, m) \<Rightarrow> walk fs False m q b)"
  by (induction fs "False" n p a rule: walk.induct)
    (auto split: option.splits node.splits nat.splits)

declare walk.simps(2) [simp del]

lemma walk_dir: "walk fs cr n p (s # r) = Some x \<Longrightarrow> lstat fs p = Some Dir"
  by (simp add: walk.simps(2) split: if_splits)

lemma walk_plain_step:
  assumes "walk fs False n p (s # r) = Some x"
    and "s \<in> {[], ''.'', ''..''} \<or> (\<nexists>t. lstat fs (p @ [s]) = Some (Link t))"
  obtains p' where "walk fs False n p' r = Some x"
    and "\<And>seen R. rp fs seen p (Seg s # R) = rp fs seen p' R"
  using assms by (auto simp: walk.simps(2) split: if_splits option.splits node.splits)

definition seen_correct :: "fs \<Rightarrow> (path \<times> path option) list \<Rightarrow> bool" where
  "seen_correct fs seen \<longleftrightarrow>
     (\<forall>k v. map_of seen k = Some (Some v) \<longrightarrow> (\<exists>n. walk fs False n (butlast k) [last k] = Some (v, 0)))"

definition busy :: "(path \<times> path option) list \<Rightarrow> path set" where
  "busy seen = {k. map_of seen k = Some None}"

definition busy_ok :: "fs \<Rightarrow> nat \<Rightarrow> (path \<times> path option) list \<Rightarrow> bool" where
  "busy_ok fs c seen \<longleftrightarrow> (\<forall>k \<in> busy seen. walk fs False c (butlast k) [last k] = None)"

lemma busy_ok_le:
  assumes "busy_ok fs c seen" and "k \<in> busy seen" and "n \<le> c"
  shows "walk fs False n (butlast k) [last k] = None"
  using assms walk_mono [of fs False n "butlast k" "[last k]" _ _ c]
  by (cases "walk fs False n (butlast k) [last k]") (auto simp: busy_ok_def)

text \<open>One link: the walk of its target, then the rest.\<close>

lemma walk_link_split:
  assumes "walk fs False (Suc m) p (s # r) = Some (q, 0)" and "lstat fs p = Some Dir"
    and "s \<notin> {[], ''.'', ''..''}" and "lstat fs (p @ [s]) = Some (Link t)"
  obtains v c1 c2 where "m = c1 + c2" and "walk fs False c1 (link_base p t) (segs t) = Some (v, 0)"
    and "walk fs False c2 v r = Some (q, 0)" and "walk fs False (Suc c1) p [s] = Some (v, 0)"
proof -
  have "walk fs False m (link_base p t) (segs t @ r) = Some (q, 0)"
    using assms by (simp add: walk.simps(2))
  then obtain v c2 where v: "walk fs False m (link_base p t) (segs t) = Some (v, c2)"
    and r: "walk fs False c2 v r = Some (q, 0)"
    by (auto simp: walk_append split: option.splits)
  from walk_exact [OF v] have c1: "c2 \<le> m" "walk fs False (m - c2) (link_base p t) (segs t) = Some (v, 0)"
    by auto
  have "walk fs False (Suc (m - c2)) p [s] = Some (v, 0)"
    using assms c1(2) by (simp add: walk.simps(2))
  with c1 v r that [of "m - c2" c2 v] show thesis by simp
qed

lemma seen_correct_add:
  "seen_correct fs seen \<Longrightarrow> walk fs False n p [s] = Some (v, 0) \<Longrightarrow> seen_correct fs ((p @ [s], Some v) # seen)"
  "seen_correct fs seen \<Longrightarrow> seen_correct fs ((k, None) # seen)"
  by (auto simp: seen_correct_def)

lemma rp_walk:
  assumes "walk fs False c p r = Some (q, 0)" and "seen_correct fs seen"
    and "busy_ok fs c seen"
  shows "\<exists>seen'. rp fs seen p (map Seg r @ R) = rp fs seen' q R \<and> seen_correct fs seen' \<and> busy seen' \<subseteq> busy seen"
  using assms
proof (induction c arbitrary: p r q seen R rule: less_induct)
  case outer: (less c)
  from outer.prems show ?case
  proof (induction r arbitrary: p seen)
    case Nil
    then show ?case by auto
  next
    case (Cons s r)
    note ih = outer.IH
    have dir: "lstat fs p = Some Dir" using Cons.prems(1) by (rule walk_dir)
    show ?case
    proof (cases "s \<in> {[], ''.'', ''..''} \<or> (\<nexists>t. lstat fs (p @ [s]) = Some (Link t))")
      case True
      then obtain p' where "walk fs False c p' r = Some (q, 0)"
        and "\<And>seen R. rp fs seen p (Seg s # R) = rp fs seen p' R"
        using walk_plain_step [OF Cons.prems(1)] by blast
      with Cons.IH [of p' seen] Cons.prems show ?thesis by simp
    next
      case False
      then obtain t where s: "s \<notin> {[], ''.'', ''..''}" and t: "lstat fs (p @ [s]) = Some (Link t)"
        by blast
      with Cons.prems(1) dir obtain m where c: "c = Suc m" by (auto simp: walk.simps(2) split: nat.splits)
      obtain v c1 c2 where m: "m = c1 + c2" and w1: "walk fs False c1 (link_base p t) (segs t) = Some (v, 0)"
        and w2: "walk fs False c2 v r = Some (q, 0)" and wl: "walk fs False (Suc c1) p [s] = Some (v, 0)"
        using walk_link_split [OF Cons.prems(1) [unfolded c] dir s t] by blast
      note busy_le = busy_ok_le [OF Cons.prems(3)]
      have not_busy: "p @ [s] \<notin> busy seen"
        using busy_le [of "p @ [s]" "Suc c1"] wl c m by (auto)
      have rest: "\<exists>seen'. rp fs sn v (map Seg r @ R) = rp fs seen' q R \<and> seen_correct fs seen' \<and> busy seen' \<subseteq> busy seen"
        if "seen_correct fs sn" "busy sn \<subseteq> busy seen" for sn
      proof -
        have "busy_ok fs c2 sn"
          using that busy_le c m by (auto simp: busy_ok_def)
        then show ?thesis using ih [of c2, OF _ w2 that(1), of R] that(2) c m by fastforce
      qed
      show ?thesis
      proof (cases "map_of seen (p @ [s])")
        case (Some x)
        with not_busy obtain v' where x: "x = Some v'" by (cases x) (auto simp: busy_def)
        then obtain n where "walk fs False n p [s] = Some (v', 0)"
          using Some Cons.prems(2) by (force simp: seen_correct_def)
        then have "v' = v" using walk_det wl by blast
        with rest [OF Cons.prems(2)] Some x s t show ?thesis by auto
      next
        case None
        let ?sn = "(p @ [s], None) # seen"
        have "walk fs False c1 p [s] = None"
          using walk_det [OF wl, of c1] by (cases "walk fs False c1 p [s]") auto
        then have b: "busy_ok fs c1 ?sn"
          using busy_le c m by (auto simp: busy_ok_def busy_def split: if_splits)
        from ih [of c1, OF _ w1 seen_correct_add(2) [OF Cons.prems(2)] b, of "Done (p @ [s]) # map Seg r @ R"] c m
        obtain sn where sn: "rp fs ?sn (link_base p t) (map Seg (segs t) @ Done (p @ [s]) # map Seg r @ R)
            = rp fs ((p @ [s], Some v) # sn) v (map Seg r @ R)" "seen_correct fs sn" "busy sn \<subseteq> busy ?sn"
          by auto
        have "busy ((p @ [s], Some v) # sn) \<subseteq> busy seen"
          using sn(3) by (auto simp: busy_def split: if_splits)
        from rest [OF seen_correct_add(1) [OF sn(2) wl] this] sn(1) None s t show ?thesis by auto
      qed
    qed
  qed
qed

theorem resolve_realpath:
  assumes "resolve fs cwd name = Some q"
  shows "realpath_segs fs cwd name = q"
proof -
  obtain m where "walk fs False MAX_LINKS (start cwd name) (segs name) = Some (q, m)"
    using assms by (auto simp: resolve_def split: if_splits)
  then have "walk fs False (MAX_LINKS - m) (start cwd name) (segs name) = Some (q, 0)"
    using walk_exact by blast
  then show ?thesis
    using rp_walk [where R = "[]" and seen = "[]"] by (fastforce simp: realpath_segs_def seen_correct_def busy_def busy_ok_def)
qed

section \<open>Well-formed file systems\<close>

definition name_ok :: "string \<Rightarrow> bool" where
  "name_ok s \<longleftrightarrow> s \<notin> {[], ''.'', ''..''} \<and> SL \<notin> set s"

text \<open>Every entry lies in a directory, under a proper name, once.\<close>

definition wf_fs :: "fs \<Rightarrow> bool" where
  "wf_fs fs \<longleftrightarrow> distinct (map fst fs) \<and>
     (\<forall>(p, nd) \<in> set fs. p \<noteq> [] \<and> name_ok (last p) \<and> lstat fs (butlast p) = Some Dir)"

definition no_link :: "node \<Rightarrow> bool" where
  "no_link nd \<longleftrightarrow> (case nd of Link _ \<Rightarrow> False | _ \<Rightarrow> True)"

lemma no_link_simps [simp]: "no_link Dir" "no_link (File b)" "\<not> no_link (Link t)"
  by (simp_all add: no_link_def)

lemma no_link_iff: "no_link nd \<longleftrightarrow> (\<forall>t. nd \<noteq> Link t)"
  by (cases nd) auto

lemma lstat_Nil [simp]: "lstat fs [] = Some Dir"
  by (simp add: lstat_def)

lemma wf_parent: "wf_fs fs \<Longrightarrow> lstat fs p = Some nd \<Longrightarrow> lstat fs (butlast p) = Some Dir"
  by (auto simp: lstat_def [of fs p] wf_fs_def split: if_splits dest!: map_of_SomeD)

lemma wf_name: "wf_fs fs \<Longrightarrow> lstat fs (p @ [s]) = Some nd \<Longrightarrow> name_ok s"
  by (fastforce simp: lstat_def [of fs "p @ [s]"] wf_fs_def dest!: map_of_SomeD)

lemma wf_prefix_dir: "wf_fs fs \<Longrightarrow> lstat fs (p @ s # r) = Some nd \<Longrightarrow> lstat fs p = Some Dir"
proof (induction r arbitrary: nd rule: rev_induct)
  case Nil
  then show ?case using wf_parent [of fs "p @ [s]"] by simp
next
  case (snoc x r)
  then show ?case using wf_parent [of fs "p @ s # r @ [x]"] by (simp add: butlast_append)
qed

lemma wf_names: "wf_fs fs \<Longrightarrow> lstat fs p = Some nd \<Longrightarrow> s \<in> set p \<Longrightarrow> name_ok s"
proof (induction p arbitrary: nd rule: rev_induct)
  case (snoc x p)
  then show ?case using wf_parent [of fs "p @ [x]"] wf_name [of fs p x] by auto
qed simp

lemma walk_result:
  assumes "wf_fs fs" and "walk fs False n p r = Some (q, m)" and "lstat fs p = Some nd" and "no_link nd"
  shows "\<exists>nd. lstat fs q = Some nd \<and> no_link nd"
  using assms
proof (induction fs "False" n p r arbitrary: nd rule: walk.induct)
  case (2 fs n p s r)
  have dir: "lstat fs p = Some Dir" using "2.prems"(2) by (rule walk_dir)
  with 2 wf_parent [OF "2.prems"(1) dir] show ?case
    by (auto simp: walk.simps(2) link_base_def split: if_splits option.splits node.splits nat.splits)
qed auto

lemma resolve_result:
  assumes "wf_fs fs" and "lstat fs cwd = Some Dir" and "resolve fs cwd name = Some q"
  obtains nd where "lstat fs q = Some nd" and "no_link nd"
  using assms walk_result [of fs MAX_LINKS "start cwd name" "segs name" q]
  by (fastforce simp: resolve_def start_def split: if_splits)

lemma walk_canonical:
  assumes "wf_fs fs" and "lstat fs (p @ r) = Some nd" and "no_link nd"
  shows "walk fs cr n p r = Some (p @ r, n)"
  using assms
proof (induction r arbitrary: p)
  case (Cons s r)
  have p: "lstat fs p = Some Dir" using wf_prefix_dir Cons.prems by blast
  have s: "name_ok s" using wf_names [OF Cons.prems(1,2), of s] by simp
  have "walk fs cr n (p @ [s]) r = Some (p @ s # r, n)" using Cons by simp
  moreover obtain nd' where "lstat fs (p @ [s]) = Some nd'" "no_link nd'"
    using Cons.prems wf_prefix_dir [of fs "p @ [s]"] by (cases r) auto
  ultimately show ?case using p s by (auto simp: walk.simps(2) name_ok_def split: node.splits)
qed simp

lemma segs_join:
  assumes "\<forall>s \<in> set p. SL \<notin> set s" and "p \<noteq> []"
  shows "segs (join ''/'' p) = p"
  using assms
proof (induction p rule: induct_list012)
  case (3 x y zs)
  then show ?case by (simp add: segs_def split_on_append_sep split_on_no_sep)
qed (auto simp: segs_def split_on_no_sep)

lemma segs_abs_str:
  assumes "\<forall>s \<in> set p. name_ok s"
  shows "segs (abs_str p) = [] # (if p = [] then [[]] else p)"
  using assms segs_join [of p] by (auto simp: abs_str_def segs_def name_ok_def)

lemma isabs_abs_str [simp]: "isabs (abs_str p)"
  by (simp add: isabs_def abs_str_def startswith_def)

lemma plain_segs_abs_str:
  assumes "\<forall>s \<in> set p. name_ok s"
  shows "plain_segs (abs_str p) = p"
  using assms by (auto simp: plain_segs_def segs_abs_str name_ok_def intro!: filter_True)

lemma walk_abs_str:
  assumes "wf_fs fs" and "lstat fs p = Some nd" and "no_link nd"
  shows "walk fs cr n [] (segs (abs_str p)) = Some (p, n)"
proof -
  have "\<forall>s \<in> set p. name_ok s" using wf_names assms by blast
  with walk_canonical [of fs "[]" p nd cr n] assms show ?thesis
    by (simp add: segs_abs_str walk.simps(2))
qed

text \<open>Containment by \<open>commonpath\<close> is containment of name lists, not of strings.\<close>

lemma lcp_eq_iff: "lcp xs ys = ys \<longleftrightarrow> prefix ys xs"
  by (induction xs ys rule: lcp.induct) (auto)

lemma lcp_prefix: "prefix (lcp xs ys) xs \<and> prefix (lcp xs ys) ys"
  by (induction xs ys rule: lcp.induct) auto

lemma abs_str_inj:
  assumes "\<forall>s \<in> set p. name_ok s" and "\<forall>s \<in> set q. name_ok s"
  shows "abs_str p = abs_str q \<longleftrightarrow> p = q"
  using plain_segs_abs_str [OF assms(1)] plain_segs_abs_str [OF assms(2)] by metis

lemma commonpath2_abs:
  assumes "\<forall>s \<in> set p. name_ok s" and "\<forall>s \<in> set q. name_ok s"
  shows "commonpath2 (abs_str p) (abs_str q) = Inr (abs_str (lcp p q))"
  using assms by (simp add: commonpath2_def plain_segs_abs_str) (simp add: abs_str_def [of "lcp p q"])

lemma commonpath2_root_iff:
  assumes "\<forall>s \<in> set p. name_ok s" and "\<forall>s \<in> set q. name_ok s"
  shows "commonpath2 (abs_str p) (abs_str q) = Inr (abs_str q) \<longleftrightarrow> prefix q p"
proof -
  have "\<forall>s \<in> set (lcp p q). name_ok s"
    using lcp_prefix [of p q] assms set_mono_prefix by fastforce
  with assms show ?thesis by (simp add: commonpath2_abs abs_str_inj lcp_eq_iff)
qed

text \<open>Every path that realpath returns is a list of proper names.\<close>

definition names_ok :: "path \<Rightarrow> bool" where
  "names_ok p \<longleftrightarrow> (\<forall>s \<in> set p. name_ok s)"

definition items_ok :: "ritem list \<Rightarrow> bool" where
  "items_ok r \<longleftrightarrow> (\<forall>s. Seg s \<in> set r \<longrightarrow> SL \<notin> set s) \<and> (\<forall>q. Done q \<in> set r \<longrightarrow> names_ok q)"

lemma names_ok_simps [simp]:
  "names_ok []" "names_ok (s # p) \<longleftrightarrow> name_ok s \<and> names_ok p" "names_ok (p @ q) \<longleftrightarrow> names_ok p \<and> names_ok q"
  by (auto simp: names_ok_def)

lemma items_ok_simps [simp]:
  "items_ok []" "items_ok (Done q # r) \<longleftrightarrow> names_ok q \<and> items_ok r"
  "items_ok (Seg s # r) \<longleftrightarrow> SL \<notin> set s \<and> items_ok r" "items_ok (r @ r') \<longleftrightarrow> items_ok r \<and> items_ok r'"
  by (auto simp: items_ok_def)

lemma items_ok_segs [simp]: "items_ok (map Seg (segs t))"
  by (auto simp: items_ok_def segs_def dest: split_on_elem_no_sep)

lemma names_ok_butlast [simp]: "names_ok p \<Longrightarrow> names_ok (butlast p)"
  by (auto simp: names_ok_def dest: in_set_butlastD)

lemma tail_norm_names: "names_ok p \<Longrightarrow> items_ok r \<Longrightarrow> names_ok (tail_norm p fr r)"
  by (induction p fr r rule: tail_norm.induct) (auto simp: name_ok_def)

lemma rp_names:
  assumes "names_ok p" and "items_ok r" and "\<forall>k v. map_of seen k = Some (Some v) \<longrightarrow> names_ok v"
  shows "names_ok (rp fs seen p r)"
  using assms
proof (induction fs seen p r rule: rp.induct)
  case (3 fs seen p s r)
  then show ?case
    by (cases "s \<in> {[], ''.'', ''..''}")
      (auto simp: name_ok_def link_base_def tail_norm_names split: option.splits node.splits)
qed auto

lemma realpath_names: "names_ok cwd \<Longrightarrow> names_ok (realpath_segs fs cwd name)"
  by (auto simp: realpath_segs_def start_def intro!: rp_names)

section \<open>Creating a file\<close>

text \<open>
  A walk that may create its last name is the plain walk after the file has been put there, and
  realpath, which looks at links only, returns the same path before and after.
\<close>

lemma lstat_Cons: "lstat ((q, nd) # fs) p = (if p = [] then Some Dir else if p = q then Some nd else lstat fs p)"
  by (auto simp: lstat_def)

lemma walk_create:
  assumes "walk fs True n p r = Some (q, m)"
  shows "if lstat fs q = None then walk ((q, File b) # fs) False n p r = Some (q, m)
     else walk fs False n p r = Some (q, m)"
  using assms
proof (induction fs "True" n p r rule: walk.induct)
  case (2 fs n p s r)
  have dir: "lstat fs p = Some Dir" using "2.prems" by (rule walk_dir)
  then have dir': "lstat fs q = None \<Longrightarrow> lstat ((q, File b) # fs) p = Some Dir" by (auto simp: lstat_Cons)
  consider "s = [] \<or> s = ''.''" | "s = ''..''" | (name) "s \<notin> {[], ''.'', ''..''}" by blast
  then show ?case
  proof cases
    case name
    show ?thesis
    proof (cases "lstat fs (p @ [s])")
      case None
      with name dir "2.prems" have r: "r = []" "q = p @ [s]" "m = n"
        by (auto simp: walk.simps(2) split: if_splits)
      with None name dir dir' show ?thesis by (simp add: walk.simps(2) lstat_Cons)
    next
      case (Some nd)
      then have "lstat fs q = None \<Longrightarrow> lstat ((q, File b) # fs) (p @ [s]) = Some nd" by (auto simp: lstat_Cons)
      with Some name dir dir' 2 show ?thesis
        by (cases nd; cases n) (auto simp: walk.simps(2) split: if_splits)
    qed
  qed (use 2 dir dir' in \<open>auto simp: walk.simps(2) split: if_splits\<close>)
qed (auto)

definition same_links :: "fs \<Rightarrow> fs \<Rightarrow> bool" where
  "same_links fs fs' \<longleftrightarrow> (\<forall>p t. lstat fs p = Some (Link t) \<longleftrightarrow> lstat fs' p = Some (Link t))"

lemma same_linksD: "same_links fs fs' \<Longrightarrow> lstat fs p = Some (Link t) \<longleftrightarrow> lstat fs' p = Some (Link t)"
  by (simp add: same_links_def)

lemma rp_links: "same_links fs fs' \<Longrightarrow> rp fs seen p r = rp fs' seen p r"
proof (induction fs seen p r rule: rp.induct)
  case (3 fs seen p s r)
  show ?case
  proof (cases "s \<in> {[], ''.'', ''..''}")
    case False
    note link = same_linksD [OF "3.prems", of "p @ [s]"]
    show ?thesis
    proof (cases "\<exists>t. lstat fs (p @ [s]) = Some (Link t)")
      case True
      then obtain t where t: "lstat fs (p @ [s]) = Some (Link t)" "lstat fs' (p @ [s]) = Some (Link t)"
        using link by auto
      with 3 False show ?thesis by (auto split: option.splits)
    next
      case no: False
      with link have no': "\<And>t. lstat fs' (p @ [s]) \<noteq> Some (Link t)" by blast
      have "rp fs seen p (Seg s # r) = rp fs seen (p @ [s]) r"
        using no False by (auto split: option.splits node.splits)
      also have "\<dots> = rp fs' seen (p @ [s]) r"
        using no False "3.prems" "3.IH" by (cases "lstat fs (p @ [s])"; cases "the (lstat fs (p @ [s]))") auto
      also have "\<dots> = rp fs' seen p (Seg s # r)"
        using no' False by (auto split: option.splits node.splits)
      finally show ?thesis .
    qed
  qed (use 3 in auto)
qed auto

lemma same_links_create: "lstat fs q = None \<Longrightarrow> same_links fs ((q, File b) # fs)"
  by (auto simp: same_links_def lstat_Cons)

theorem resolve_create_realpath:
  assumes "resolve_create fs cwd name = Some q"
  shows "realpath_segs fs cwd name = q"
proof -
  obtain m where w: "name \<noteq> []" "walk fs True MAX_LINKS (start cwd name) (segs name) = Some (q, m)"
    using assms by (auto simp: resolve_create_def split: if_splits)
  let ?fs = "if lstat fs q = None then (q, File []) # fs else fs"
  have "resolve ?fs cwd name = Some q"
    using walk_create [OF w(2), of "[]"] w(1) by (auto simp: resolve_def)
  then have "realpath_segs ?fs cwd name = q" by (rule resolve_realpath)
  moreover have "realpath_segs ?fs cwd name = realpath_segs fs cwd name"
    using rp_links [OF same_links_create] by (auto simp: realpath_segs_def)
  ultimately show ?thesis by simp
qed

text \<open>An existing canonical path is its own realpath, and so is a new name in a directory.\<close>

lemma abs_str_ne [simp]: "abs_str p \<noteq> []"
  by (simp add: abs_str_def)

lemma start_abs_str [simp]: "start cwd (abs_str p) = []"
  by (simp add: start_def)

lemma resolve_canonical:
  assumes "wf_fs fs" and "lstat fs p = Some nd" and "no_link nd"
  shows "resolve fs cwd (abs_str p) = Some p"
  using walk_abs_str [OF assms] by (simp add: resolve_def)

lemma realpath_canonical:
  assumes "wf_fs fs" and "lstat fs p = Some nd" and "no_link nd"
  shows "realpath_segs fs cwd (abs_str p) = p"
  using resolve_realpath [OF resolve_canonical [OF assms]] .

lemma wf_fs_create:
  assumes "wf_fs fs" and "lstat fs p = Some Dir" and "lstat fs (p @ [s]) = None" and "name_ok s"
  shows "wf_fs ((p @ [s], File b) # fs)"
proof -
  have "p @ [s] \<notin> fst ` set fs"
    using assms(3) by (simp add: lstat_def map_of_eq_None_iff)
  moreover have "lstat ((p @ [s], File b) # fs) r = Some Dir" if "lstat fs r = Some Dir" for r
    using that assms(3) by (auto simp: lstat_Cons)
  ultimately show ?thesis using assms by (auto simp: wf_fs_def)
qed

lemma realpath_new:
  assumes "wf_fs fs" and "lstat fs p = Some Dir" and "lstat fs (p @ [s]) = None" and "name_ok s"
  shows "realpath_segs fs cwd (abs_str (p @ [s])) = p @ [s]"
proof -
  let ?fs = "(p @ [s], File []) # fs"
  have "realpath_segs ?fs cwd (abs_str (p @ [s])) = p @ [s]"
    using realpath_canonical [OF wf_fs_create [OF assms, of "[]"], of "p @ [s]" "File []"] by (simp add: lstat_Cons)
  then show ?thesis
    using rp_links [OF same_links_create [OF assms(3)], of "[]"] by (simp add: realpath_segs_def)
qed

text \<open>The name and its directory, as the walk sees them.\<close>

lemma split_head_base: "split_head name @ basename name = name"
  by (metis basename_def rev_append rev_rev_ident split_head_def takeWhile_dropWhile_id)

lemma basename_no_slash: "SL \<notin> set (basename name)"
  proof -
  have "\<forall>c \<in> set (takeWhile (\<lambda>c. c \<noteq> SL) (rev name)). c \<noteq> SL" by (blast dest: set_takeWhileD)
  then show ?thesis unfolding basename_def by (metis set_rev)
qed

lemma split_head_ends:
  assumes "SL \<in> set name"
  shows "\<exists>h. split_head name = h @ [SL]"
proof (cases "dropWhile (\<lambda>c. c \<noteq> SL) (rev name)")
  case Nil
  then have "\<forall>c \<in> set (rev name). c \<noteq> SL" by (simp only: dropWhile_eq_Nil_conv)
  with assms show ?thesis by (metis set_rev)
next
  case (Cons c t)
  then have "c = SL" using dropWhile_eq_Cons_conv by (metis (mono_tags, lifting))
  with Cons show ?thesis by (simp add: split_head_def)
qed

lemma segs_append_sep: "segs (a @ SL # b) = segs a @ segs b"
  by (simp add: segs_def split_on_append_sep)

lemma segs_split:
  assumes "split_head name = h @ [SL]"
  shows "segs name = segs h @ [basename name]"
proof -
  have "name = h @ SL # basename name" using split_head_base [of name] assms by simp
  then have "segs name = segs h @ segs (basename name)" by (metis segs_append_sep)
  then show ?thesis using basename_no_slash by (simp add: segs_def split_on_no_sep)
qed

lemma segs_slashes: "segs (t @ replicate k SL) = segs t @ replicate k []"
proof (induction k)
  case (Suc k)
  have "segs (t @ replicate (Suc k) SL) = segs ((t @ replicate k SL) @ [SL])"
    by (simp add: replicate_append_same)
  also have "\<dots> = segs (t @ replicate k SL) @ [[]]"
    using segs_append_sep [of "t @ replicate k SL" "[]"] by (simp add: segs_def)
  finally show ?case using Suc by (simp add: replicate_append_same)
qed simp

lemma rstrip_slashes: "\<exists>k. h = rstrip_chars ''/'' h @ replicate k SL"
proof -
  have "takeWhile (\<lambda>x. x \<in> set ''/'') (rev h) = replicate (length (takeWhile (\<lambda>x. x \<in> set ''/'') (rev h))) SL"
    by (rule replicate_eqI) (auto dest: set_takeWhileD)
  then have "rev h = replicate (length (takeWhile (\<lambda>x. x \<in> set ''/'') (rev h))) SL @
      dropWhile (\<lambda>x. x \<in> set ''/'') (rev h)"
    by (metis takeWhile_dropWhile_id)
  then have "h = rev (dropWhile (\<lambda>x. x \<in> set ''/'') (rev h)) @
      replicate (length (takeWhile (\<lambda>x. x \<in> set ''/'') (rev h))) SL"
    by (metis rev_append rev_replicate rev_rev_ident)
  then show ?thesis by (auto simp: rstrip_chars_def)
qed

lemma walk_empty_names:
  "walk fs False n p (replicate k []) = Some x \<Longrightarrow> x = (p, n)"
  by (induction k) (auto simp: walk.simps(2) split: if_splits)

lemma walk_drop_empty:
  "walk fs False n p (a @ replicate k []) = Some x \<Longrightarrow> walk fs False n p a = Some x"
  by (auto simp: walk_append dest: walk_empty_names split: option.splits)

lemma walk_add_empty:
  "walk fs False n p a = Some (q, m) \<Longrightarrow> lstat fs q = Some Dir \<Longrightarrow> walk fs False n p (a @ replicate k []) = Some (q, m)"
  by (induction k arbitrary:) (auto simp: walk_append walk.simps(2) replicate_append_same)

lemma walk_dirname:
  assumes "split_head name = h @ [SL]" and "walk fs False n [] (segs h) = Some (p, m)" and "lstat fs p = Some Dir"
  shows "walk fs False n [] (segs (dirname name)) = Some (p, m)"
proof (cases "list_all (\<lambda>c. c = SL) (split_head name)")
  case True
  have "segs (split_head name) = segs h @ replicate 1 []"
    using segs_slashes [of h 1] assms(1) by simp
  moreover have "dirname name = split_head name" using True by (simp add: dirname_def Let_def)
  ultimately show ?thesis using walk_add_empty [OF assms(2,3), of 1] by simp
next
  case False
  obtain k where k: "h @ [SL] = rstrip_chars ''/'' (h @ [SL]) @ replicate k SL" using rstrip_slashes by blast
  have "dirname name = rstrip_chars ''/'' (h @ [SL])"
    using False assms(1) by (auto simp: dirname_def Let_def)
  then have "segs h @ replicate 1 [] = segs (dirname name) @ replicate k []"
    using segs_slashes [of h 1] segs_slashes [of "dirname name" k] k by simp
  then show ?thesis using walk_add_empty [OF assms(2,3), of 1] walk_drop_empty by metis
qed

lemma walk_create_init:
  assumes "walk fs True n p (a @ [s]) = Some (q, m)"
  shows "\<exists>p' n'. walk fs False n p a = Some (p', n') \<and> walk fs True n' p' [s] = Some (q, m)"
  using assms
proof (induction fs "True" n p a rule: walk.induct)
  case (2 fs n p x r)
  have dir: "lstat fs p = Some Dir" using "2.prems" by (simp add: walk_dir)
  consider "x = [] \<or> x = ''.''" | "x = ''..''" | (name) "x \<notin> {[], ''.'', ''..''}" by blast
  then show ?case
  proof cases
    case name
    with 2 dir show ?thesis
      by (cases "lstat fs (p @ [x])"; cases "the (lstat fs (p @ [x]))"; cases n)
        (auto simp: walk.simps(2) split: if_splits)
  qed (use 2 dir in \<open>auto simp: walk.simps(2) split: if_splits\<close>)
qed auto

lemma isabs_dirname:
  assumes "isabs name" and "split_head name = h @ [SL]"
  shows "isabs (dirname name)"
proof -
  have head: "hd (split_head name) = SL"
  proof -
    have "hd name = SL" using assms(1) by (cases name) (auto simp: isabs_def startswith_def)
    then show ?thesis using split_head_base [of name] assms(2) by (metis hd_append snoc_eq_iff_butlast)
  qed
  show ?thesis
  proof (cases "list_all (\<lambda>c. c = SL) (split_head name)")
    case True
    with head assms(2) show ?thesis
      by (cases h) (auto simp: dirname_def Let_def isabs_def startswith_def)
  next
    case False
    then have d: "dirname name = rstrip_chars ''/'' (split_head name)"
      using assms(2) by (auto simp: dirname_def Let_def)
    obtain k where k: "split_head name = dirname name @ replicate k SL" using rstrip_slashes d by metis
    with False have "dirname name \<noteq> []" by (auto simp: list_all_iff)
    with k head show ?thesis by (cases "dirname name") (auto simp: isabs_def startswith_def)
  qed
qed

text \<open>
  A file can be created under a name that does not exist and is not a link only as a new entry of
  the directory that the name's directory part resolves to.
\<close>

lemma create_new:
  assumes "wf_fs fs" and "isabs name" and "resolve fs cwd name = None" and "\<not> islink fs cwd name"
    and "resolve_create fs cwd name = Some q"
  obtains p where "q = p @ [basename name]" "name_ok (basename name)" "lstat fs p = Some Dir"
    "lstat fs q = None" "resolve fs cwd (dirname name) = Some p"
proof -
  have "SL \<in> set name" using assms(2) by (cases name) (auto simp: isabs_def startswith_def)
  then obtain h where h: "split_head name = h @ [SL]" using split_head_ends by blast
  note sg = segs_split [OF h]
  have name: "name \<noteq> []" "start cwd name = []" using assms(2,5) by (auto simp: start_def resolve_create_def)
  obtain m where w: "walk fs True MAX_LINKS [] (segs h @ [basename name]) = Some (q, m)"
    using assms(5) sg name by (auto simp: resolve_create_def)
  obtain p n where p: "walk fs False MAX_LINKS [] (segs h) = Some (p, n)" "walk fs True n p [basename name] = Some (q, m)"
    using walk_create_init [OF w] by blast
  have none: "walk fs False n p [basename name] = None"
    using assms(3) p(1) sg name by (simp add: resolve_def walk_append)
  have dir: "lstat fs p = Some Dir" using p(2) by (rule walk_dir)
  have proper: "basename name \<notin> {[], ''.'', ''..''}"
    using none dir by (auto simp: walk.simps(2))
  moreover have "lstat fs (p @ [basename name]) \<noteq> Some (Link t)" for t
    using assms(4) p(1) sg name proper by (auto simp: islink_def)
  ultimately have new: "lstat fs (p @ [basename name]) = None"
    using none dir by (cases "lstat fs (p @ [basename name])"; cases "the (lstat fs (p @ [basename name]))")
      (auto simp: walk.simps(2))
  then have q: "q = p @ [basename name]" using p(2) proper dir by (auto simp: walk.simps(2))
  have "isabs (dirname name)" using isabs_dirname [OF assms(2) h] .
  then have "resolve fs cwd (dirname name) = Some p"
    using walk_dirname [OF h p(1) dir] by (auto simp: resolve_def start_def isabs_def startswith_def)
  with that q new dir proper basename_no_slash show thesis by (auto simp: name_ok_def)
qed

section \<open>Opening for creation, relative to a directory\<close>

lemma segs_ne [simp]: "segs p \<noteq> []"
  by (simp add: segs_def)

lemma segs_no_slash: "s \<in> set (segs p) \<Longrightarrow> SL \<notin> set s"
  by (auto simp: segs_def dest: split_on_elem_no_sep)

lemma walk_create_append:
  assumes "walk fs False n p a = Some (p', n')" and "walk fs True n' p' b = Some x" and "b \<noteq> []"
  shows "walk fs True n p (a @ b) = Some x"
  using assms
proof (induction fs "False" n p a rule: walk.induct)
  case (2 fs n p s r)
  have dir: "lstat fs p = Some Dir" using "2.prems"(1) by (simp add: walk_dir)
  consider "s = [] \<or> s = ''.''" | "s = ''..''" | (name) "s \<notin> {[], ''.'', ''..''}" by blast
  then show ?case
  proof cases
    case name
    with 2 dir show ?thesis
      by (cases "lstat fs (p @ [s])"; cases "the (lstat fs (p @ [s]))"; cases n)
        (auto simp: walk.simps(2) split: if_splits)
  qed (use 2 dir in \<open>auto simp: walk.simps(2) split: if_splits\<close>)
qed auto

lemma walk_create_split:
  assumes "walk fs True n p (a @ b) = Some x" and "b \<noteq> []"
  shows "\<exists>p' n'. walk fs False n p a = Some (p', n') \<and> walk fs True n' p' b = Some x"
  using assms
proof (induction fs "True" n p a rule: walk.induct)
  case (2 fs n p s r)
  have dir: "lstat fs p = Some Dir" using "2.prems" by (simp add: walk_dir)
  consider "s = [] \<or> s = ''.''" | "s = ''..''" | (name) "s \<notin> {[], ''.'', ''..''}" by blast
  then show ?case
  proof cases
    case name
    with 2 dir show ?thesis
      by (cases "lstat fs (p @ [s])"; cases "the (lstat fs (p @ [s]))"; cases n)
        (auto simp: walk.simps(2) split: if_splits)
  qed (use 2 dir in \<open>auto simp: walk.simps(2) split: if_splits\<close>)
qed auto

lemma walk_create_new:
  assumes "walk fs True n p r = Some (q, m)" and "wf_fs fs" and "lstat fs q = None"
    and "\<forall>s \<in> set r. SL \<notin> set s" and "lstat fs p \<noteq> None"
  shows "\<exists>p' s. q = p' @ [s] \<and> lstat fs p' = Some Dir \<and> name_ok s"
  using assms
proof (induction fs "True" n p r rule: walk.induct)
  case (2 fs n p s r)
  note prems = "2.prems"
  have dir: "lstat fs p = Some Dir" using prems(1) by (rule walk_dir)
  have up: "lstat fs (butlast p) = Some Dir" using wf_parent [OF prems(2) dir] .
  consider (dot) "s = [] \<or> s = ''.''" | (up) "s = ''..''" | (name) "s \<notin> {[], ''.'', ''..''}" by blast
  then show ?case
  proof cases
    case dot
    then have "walk fs True n p r = Some (q, m)" using prems(1) dir by (auto simp: walk.simps(2))
    with "2.hyps"(1) dir dot prems(2-5) show ?thesis by simp
  next
    case up
    then have "walk fs True n (butlast p) r = Some (q, m)" using prems(1) dir by (auto simp: walk.simps(2))
    with "2.hyps"(2) dir up prems(2-5) \<open>lstat fs (butlast p) = Some Dir\<close> show ?thesis by simp
  next
    case name
    show ?thesis
    proof (cases "lstat fs (p @ [s])")
      case None
      with name dir prems have "q = p @ [s]" "SL \<notin> set s"
        by (simp_all add: walk.simps(2) split: if_splits)
      with name dir show ?thesis by (auto simp: name_ok_def)
    next
      case (Some nd)
      show ?thesis
      proof (cases "\<exists>t. nd = Link t")
        case True
        then obtain t k where t: "nd = Link t" "n = Suc k" "walk fs True k (link_base p t) (segs t @ r) = Some (q, m)"
          using name dir prems(1) Some by (cases n) (auto simp: walk.simps(2))
        have "lstat fs (link_base p t) \<noteq> None" using dir by (simp add: link_base_def)
        moreover have "\<forall>s \<in> set (segs t @ r). SL \<notin> set s" using segs_no_slash prems(4) by auto
        ultimately show ?thesis using "2.hyps"(5) t dir name Some prems(2,3) by simp
      next
        case False
        then have "walk fs True n (p @ [s]) r = Some (q, m)"
          using name dir prems(1) Some by (cases nd) (auto simp: walk.simps(2))
        with False "2.hyps"(3,4) dir name Some prems(2-5) show ?thesis by (cases nd) simp_all
      qed
    qed
  qed
qed simp

lemma walk_result_create:
  assumes "wf_fs fs" and "walk fs True n p r = Some (q, m)" and "lstat fs p = Some Dir" and "lstat fs q \<noteq> None"
  shows "\<exists>nd. lstat fs q = Some nd \<and> no_link nd"
  using walk_result [OF assms(1), of n p r q m Dir] walk_create [OF assms(2), of "[]"] assms(3,4) by auto

text \<open>The path that a successful create walk ends at is its own realpath.\<close>

lemma resolve_create_canonical:
  assumes "wf_fs fs" and "lstat fs cwd = Some Dir" and "resolve_create fs cwd name = Some q"
  shows "realpath_segs fs cwd (abs_str q) = q"
proof -
  obtain m where w: "walk fs True MAX_LINKS (start cwd name) (segs name) = Some (q, m)"
    using assms(3) by (auto simp: resolve_create_def split: if_splits)
  have dir: "lstat fs (start cwd name) = Some Dir" using assms(2) by (simp add: start_def)
  show ?thesis
  proof (cases "lstat fs q")
    case None
    with walk_create_new [OF w assms(1)] dir segs_no_slash obtain p s
      where "q = p @ [s]" "lstat fs p = Some Dir" "name_ok s" by auto
    with realpath_new assms(1) None show ?thesis by blast
  next
    case (Some nd)
    with walk_result_create [OF assms(1) w dir] realpath_canonical [OF assms(1)] show ?thesis by auto
  qed
qed

text \<open>Joining a name to a directory\<close>

lemma segs_path_join:
  assumes "\<not> isabs b" and "a \<noteq> []"
  shows "\<exists>A. segs (path_join a b) = A @ segs b \<and> (segs a = A \<or> segs a = A @ [[]])"
proof (cases "endswith a ''/''")
  case True
  then obtain a' where a: "a = a' @ [SL]"
    unfolding endswith_def by (metis append_take_drop_id)
  then have "path_join a b = a' @ SL # b" using True assms(1) by (simp add: path_join_def isabs_def)
  moreover have "segs a = segs a' @ [[]]" using segs_append_sep [of a' "[]"] a by (simp add: segs_def)
  ultimately show ?thesis using segs_append_sep by metis
next
  case False
  then have "path_join a b = a @ SL # b" using assms by (simp add: path_join_def isabs_def)
  then show ?thesis using segs_append_sep by metis
qed

lemma start_path_join: "\<not> isabs b \<Longrightarrow> a \<noteq> [] \<Longrightarrow> start cwd (path_join a b) = start cwd a"
  by (cases a) (auto simp: start_def path_join_def isabs_def startswith_def)

lemma join_snoc: "join sep (xs @ [x]) = (if xs = [] then x else join sep xs @ sep @ x)"
  by (induction xs rule: induct_list012) auto

lemma endswith_abs_str: "names_ok p \<Longrightarrow> endswith (abs_str p) ''/'' \<longleftrightarrow> p = []"
proof (cases p rule: rev_cases)
  case (snoc r s)
  assume ok: "names_ok p"
  then have s: "s \<noteq> []" "SL \<notin> set s" using snoc by (auto simp: name_ok_def)
  have "\<exists>t. abs_str p = t @ s"
    using snoc by (auto simp: abs_str_def join_snoc)
  then obtain t where "abs_str p = t @ s" by blast
  with s have "last (abs_str p) \<noteq> SL" by (metis last_appendR last_in_set)
  then have "\<not> endswith (abs_str p) ''/''"
    unfolding endswith_def by (metis append_take_drop_id last_appendR last.simps list.distinct(1))
  with snoc show ?thesis by simp
qed (simp add: abs_str_def endswith_def)

lemma path_join_base:
  assumes "names_ok p" and "name_ok s"
  shows "path_join (abs_str p) s = abs_str (p @ [s])"
proof -
  have "\<not> startswith s ''/''" using assms(2) by (cases s) (auto simp: name_ok_def startswith_def)
  then show ?thesis using endswith_abs_str [OF assms(1)]
    by (simp add: path_join_def) (auto simp: abs_str_def join_snoc)
qed

text \<open>
  Opening a relative name under the workspace string ends where opening it under the real
  workspace root ends.
\<close>

lemma resolve_create_rebase:
  assumes "wf_fs fs" and "lstat fs cwd = Some Dir" and "\<not> isabs name"
    and "resolve_create fs cwd (path_join ws_dir name) = Some q" and "name \<noteq> []"
  shows "resolve_create fs cwd (path_join (realpath fs cwd ws_dir) name) = Some q"
proof -
  obtain R n m where R: "realpath_segs fs cwd ws_dir = R" "lstat fs R = Some Dir" "n \<le> MAX_LINKS"
    and w: "walk fs True n R (segs name) = Some (q, m)"
  proof (cases "ws_dir = []")
    case True
    obtain m where w: "walk fs True MAX_LINKS cwd (segs name) = Some (q, m)"
      using assms(3,4) True by (auto simp: path_join_def start_def resolve_create_def isabs_def split: if_splits)
    moreover have "realpath_segs fs cwd ws_dir = cwd"
      using True by (simp add: realpath_segs_def start_def isabs_def startswith_def segs_def)
    ultimately show thesis using that assms(2) by blast
  next
    case False
    obtain A where A: "segs (path_join ws_dir name) = A @ segs name" "segs ws_dir = A \<or> segs ws_dir = A @ [[]]"
      using segs_path_join [OF assms(3) False] by blast
    obtain m where "walk fs True MAX_LINKS (start cwd ws_dir) (A @ segs name) = Some (q, m)"
      using assms(4) A(1) start_path_join [OF assms(3) False] by (auto simp: resolve_create_def split: if_splits)
    then obtain p n where p: "walk fs False MAX_LINKS (start cwd ws_dir) A = Some (p, n)"
      "walk fs True n p (segs name) = Some (q, m)"
      using walk_create_split by (metis segs_ne)
    have dir: "lstat fs p = Some Dir" using p(2) walk_dir by (cases "segs name") auto
    have "walk fs False MAX_LINKS (start cwd ws_dir) (segs ws_dir) = Some (p, n)"
      using A(2) p(1) walk_add_empty [OF p(1) dir, of 1] by auto
    then have "realpath_segs fs cwd ws_dir = p"
      using False by (auto simp: resolve_def intro!: resolve_realpath)
    then show thesis using that p dir walk_exact [OF p(1)] by blast
  qed
  have names: "\<forall>s \<in> set R. name_ok s" using wf_names assms(1) R(2) by blast
  have base: "walk fs False MAX_LINKS [] ([] # R) = Some (R, MAX_LINKS)"
    using walk_canonical [OF assms(1), of "[]" R Dir False MAX_LINKS] R(2) by (simp add: walk.simps(2))
  obtain k where w': "walk fs True MAX_LINKS R (segs name) = Some (q, k)"
    using walk_mono [OF w R(3)] by blast
  have "walk fs True MAX_LINKS [] (segs (path_join (abs_str R) name)) = Some (q, k)"
  proof (cases "R = []")
    case True
    then have "segs (path_join (abs_str R) name) = [] # segs name"
      using assms(3) segs_append_sep [of "[]" name]
      by (simp add: abs_str_def path_join_def endswith_def isabs_def) (simp add: segs_def)
    with w' True show ?thesis by (simp add: walk.simps(2))
  next
    case False
    then have "path_join (abs_str R) name = abs_str R @ SL # name"
      using assms(3) endswith_abs_str [of R] names by (auto simp: path_join_def isabs_def names_ok_def)
    then have "segs (path_join (abs_str R) name) = ([] # R) @ segs name"
      using segs_append_sep [of "abs_str R" name] segs_abs_str [OF names] False by simp
    then show ?thesis using walk_create_append [OF base w' segs_ne] by simp
  qed
  moreover have "start cwd (path_join (abs_str R) name) = []"
    using start_path_join [OF assms(3), of "abs_str R" cwd] by simp
  moreover have "path_join (abs_str R) name \<noteq> []" using assms(5) by (auto simp: path_join_def)
  ultimately show ?thesis using R(1) by (simp add: resolve_create_def realpath_def)
qed

lemma walk_False_True: "walk fs False n p r = Some x \<Longrightarrow> walk fs True n p r = Some x"
proof (induction fs "False" n p r rule: walk.induct)
  case (2 fs n p s r)
  have dir: "lstat fs p = Some Dir" using "2.prems"(1) by (simp add: walk_dir)
  consider "s = [] \<or> s = ''.''" | "s = ''..''" | (name) "s \<notin> {[], ''.'', ''..''}" by blast
  then show ?case
  proof cases
    case name
    with 2 dir show ?thesis
      by (cases "lstat fs (p @ [s])"; cases "the (lstat fs (p @ [s]))"; cases n)
        (auto simp: walk.simps(2) split: if_splits)
  qed (use 2 dir in \<open>auto simp: walk.simps(2) split: if_splits\<close>)
qed auto

lemma resolve_imp_create: "resolve fs cwd name = Some q \<Longrightarrow> resolve_create fs cwd name = Some q"
  by (auto simp: resolve_def resolve_create_def dest: walk_False_True split: if_splits)

end
