(* ===== verification/Json.thy ===== *)
theory Json
  imports Unicode "HOL-Library.AList"
begin

text \<open>
  JSON values, \<open>json.dumps\<close> and the decoder behind \<open>json.loads\<close> and \<open>raw_decode\<close>.
  An object is an association list in insertion order, as a Python dictionary is; a key occurs
  once, and storing an existing key keeps its place (\<open>AList.update\<close>).  A floating point number
  is kept as its literal.  The decoder is recursive descent with fuel; \<open>decode_no_fuel\<close> shows
  that the fuel it is called with is never used up, and \<open>loads_dumps\<close> is the round trip, which
  makes the encoder injective (\<open>dumps_sorted_inj\<close>).
\<close>

datatype json =
    JNull
  | JBool bool
  | JInt int
  | JFloat string
  | JStr string
  | JList "json list"
  | JObj "(string \<times> json) list"

section \<open>Dictionaries\<close>

abbreviation dget :: "(string \<times> 'a) list \<Rightarrow> string \<Rightarrow> 'a option" where
  "dget \<equiv> map_of"

abbreviation dset :: "string \<Rightarrow> 'a \<Rightarrow> (string \<times> 'a) list \<Rightarrow> (string \<times> 'a) list" where
  "dset \<equiv> AList.update"

section \<open>Encoder\<close>

definition hexd :: "nat \<Rightarrow> char" where
  "hexd n = (if n < 10 then char_of (48 + n) else char_of (87 + n))"

definition hex4 :: "nat \<Rightarrow> string" where
  "hex4 n = [hexd (n div 4096), hexd (n div 256 mod 16), hexd (n div 16 mod 16), hexd (n mod 16)]"

definition u_escape :: "nat \<Rightarrow> string" where
  "u_escape n = [BSL, CHR ''u''] @ hex4 n"

definition esc_cp :: "nat \<Rightarrow> string" where
  "esc_cp c =
     (if c = 34 then [BSL, DQ]
      else if c = 92 then [BSL, BSL]
      else if c = 10 then [BSL, CHR ''n'']
      else if c = 13 then [BSL, CHR ''r'']
      else if c = 9 then [BSL, CHR ''t'']
      else if c = 12 then [BSL, CHR ''f'']
      else if c = 8 then [BSL, CHR ''b'']
      else if 32 \<le> c \<and> c < 127 then [char_of c]
      else if c < 65536 then u_escape c
      else u_escape (55296 + (c - 65536) div 1024) @ u_escape (56320 + (c - 65536) mod 1024))"

definition jstr :: "string \<Rightarrow> string" where
  "jstr s = DQ # concat (map esc_cp (cps s)) @ [DQ]"

text \<open>\<open>json.dumps(v, sort_keys=so)\<close>\<close>

fun dumps :: "bool \<Rightarrow> json \<Rightarrow> string" where
  "dumps so JNull = ''null''"
| "dumps so (JBool b) = (if b then ''true'' else ''false'')"
| "dumps so (JInt i) = str_of_int i"
| "dumps so (JFloat f) = f"
| "dumps so (JStr s) = jstr s"
| "dumps so (JList vs) = ''['' @ join '', '' (map (dumps so) vs) @ '']''"
| "dumps so (JObj kvs) =
     (let ms = map (\<lambda>(k, v). (k, dumps so v)) kvs
      in ''{'' @ join '', '' (map (\<lambda>(k, t). jstr k @ '': '' @ t) (if so then sort_key fst ms else ms))
         @ ''}'')"

section \<open>Decoder\<close>

datatype jerr = DecodeError | IntLimit | OutOfFuel

definition ws :: "string \<Rightarrow> string" where
  "ws s = dropWhile (\<lambda>c. c \<in> {CHR '' '', CHR 0x09, NL, CHR 0x0D}) s"

definition hexval :: "char \<Rightarrow> nat option" where
  "hexval c = (let n = of_char c in
     if 48 \<le> n \<and> n < 58 then Some (n - 48)
     else if 97 \<le> n \<and> n < 103 then Some (n - 87)
     else if 65 \<le> n \<and> n < 71 then Some (n - 55)
     else None)"

definition unhex4 :: "string \<Rightarrow> nat option" where
  "unhex4 s =
     (case map hexval (take 4 s) of
        [Some a, Some b, Some c, Some d] \<Rightarrow> Some (a * 4096 + b * 256 + c * 16 + d)
      | _ \<Rightarrow> None)"

definition simple_escape :: "char \<Rightarrow> char option" where
  "simple_escape c = map_of
     [(DQ, DQ), (BSL, BSL), (CHR ''/'', CHR ''/''), (CHR ''b'', CHR 0x08), (CHR ''f'', CHR 0x0C),
      (CHR ''n'', NL), (CHR ''r'', CHR 0x0D), (CHR ''t'', CHR 0x09)] c"

text \<open>The second half of a surrogate pair, if the text goes on with one.\<close>

definition low_follows :: "string \<Rightarrow> nat option" where
  "low_follows s =
     (if startswith s [BSL, CHR ''u'']
      then (case unhex4 (drop 2 s) of Some l \<Rightarrow> if is_low l then Some l else None | None \<Rightarrow> None)
      else None)"

definition cons_str :: "string \<Rightarrow> (string \<times> string) option \<Rightarrow> (string \<times> string) option" where
  "cons_str t r = map_option (\<lambda>(u, s). (t @ u, s)) r"

text \<open>A string after its opening quote: its value and the text after the closing quote.\<close>

function scan_str :: "string \<Rightarrow> (string \<times> string) option" where
  "scan_str [] = None"
| "scan_str (c # s) =
     (if c = DQ then Some ([], s)
      else if c = BSL
      then (case s of
              [] \<Rightarrow> None
            | e # s' \<Rightarrow>
                if e = CHR ''u''
                then (case unhex4 s' of
                        None \<Rightarrow> None
                      | Some u \<Rightarrow>
                          (case (if is_high u then low_follows (drop 4 s') else None) of
                             Some l \<Rightarrow> cons_str (utf8 (65536 + (u - 55296) * 1024 + (l - 56320)))
                                         (scan_str (drop 10 s'))
                           | None \<Rightarrow> cons_str (utf8 u) (scan_str (drop 4 s'))))
                else (case simple_escape e of
                        None \<Rightarrow> None
                      | Some b \<Rightarrow> cons_str [b] (scan_str s')))
      else if (of_char c :: nat) < 32 then None
      else cons_str [c] (scan_str s))"
  by pat_completeness auto
termination by (relation "measure length") auto

text \<open>The number pattern: an integer part, then an optional fraction and an optional exponent.\<close>

definition scan_int :: "string \<Rightarrow> (string \<times> string) option" where
  "scan_int s =
     (let sg = (if startswith s ''-'' then ''-'' else []); r = drop (length sg) s
      in case r of
           [] \<Rightarrow> None
         | c # r' \<Rightarrow> if c = CHR ''0'' then Some (sg @ ''0'', r')
                     else if is_digit c then Some (sg @ takeWhile is_digit r, dropWhile is_digit r)
                     else None)"

definition scan_frac :: "string \<Rightarrow> string \<times> string" where
  "scan_frac r =
     (if startswith r ''.'' \<and> takeWhile is_digit (tl r) \<noteq> []
      then (''.'' @ takeWhile is_digit (tl r), dropWhile is_digit (tl r)) else ([], r))"

definition scan_exp :: "string \<Rightarrow> string \<times> string" where
  "scan_exp r =
     (if startswith r ''e'' \<or> startswith r ''E''
      then (let sg = (if startswith (tl r) ''-'' \<or> startswith (tl r) ''+'' then [hd (tl r)] else []);
                t = drop (length sg) (tl r)
            in if takeWhile is_digit t \<noteq> []
               then (hd r # sg @ takeWhile is_digit t, dropWhile is_digit t) else ([], r))
      else ([], r))"

definition dec_val :: "string \<Rightarrow> int" where
  "dec_val ds = foldl (\<lambda>n c. 10 * n + (int (of_char c) - 48)) 0 ds"

definition int_val :: "string \<Rightarrow> int" where
  "int_val s = (if startswith s ''-'' then - dec_val (tl s) else dec_val s)"

text \<open>\<open>int()\<close> refuses more than 4300 digits with a plain \<open>ValueError\<close>.\<close>

definition scan_number :: "string \<Rightarrow> jerr + (json \<times> string)" where
  "scan_number s =
     (case scan_int s of
        None \<Rightarrow> Inl DecodeError
      | Some (i, r) \<Rightarrow>
          (let (f, r1) = scan_frac r; (e, r2) = scan_exp r1
           in if f = [] \<and> e = []
              then (if length (if startswith i ''-'' then tl i else i) > 4300 then Inl IntLimit
                    else Inr (JInt (int_val i), r2))
              else Inr (JFloat (i @ f @ e), r2)))"

definition literals :: "(string \<times> json) list" where
  "literals = [(''null'', JNull), (''true'', JBool True), (''false'', JBool False),
     (''NaN'', JFloat ''NaN''), (''Infinity'', JFloat ''Infinity''),
     (''-Infinity'', JFloat ''-Infinity'')]"

definition scan_atom :: "string \<Rightarrow> jerr + (json \<times> string)" where
  "scan_atom s =
     (case find (\<lambda>(t, _). startswith s t) literals of
        Some (t, v) \<Rightarrow> Inr (v, drop (length t) s)
      | None \<Rightarrow> scan_number s)"

text \<open>Values, the members of an object after its brace, the elements of a list after its bracket.\<close>

fun pval :: "nat \<Rightarrow> string \<Rightarrow> jerr + (json \<times> string)"
  and pmem :: "nat \<Rightarrow> (string \<times> json) list \<Rightarrow> string \<Rightarrow> jerr + (json \<times> string)"
  and pelem :: "nat \<Rightarrow> json list \<Rightarrow> string \<Rightarrow> jerr + (json \<times> string)" where
  "pval 0 s = Inl OutOfFuel"
| "pval (Suc n) s =
     (case s of
        [] \<Rightarrow> Inl DecodeError
      | c # r \<Rightarrow>
          if c = DQ
          then (case scan_str r of None \<Rightarrow> Inl DecodeError | Some (t, r') \<Rightarrow> Inr (JStr t, r'))
          else if c = CHR ''{''
          then (if startswith (ws r) ''}'' then Inr (JObj [], tl (ws r)) else pmem n [] (ws r))
          else if c = CHR ''[''
          then (if startswith (ws r) '']'' then Inr (JList [], tl (ws r)) else pelem n [] (ws r))
          else scan_atom s)"
| "pmem 0 acc s = Inl OutOfFuel"
| "pmem (Suc n) acc s =
     (if \<not> startswith s [DQ] then Inl DecodeError
      else (case scan_str (tl s) of
              None \<Rightarrow> Inl DecodeError
            | Some (k, r) \<Rightarrow>
                if \<not> startswith (ws r) '':'' then Inl DecodeError
                else (case pval n (ws (tl (ws r))) of
                        Inl e \<Rightarrow> Inl e
                      | Inr (v, r') \<Rightarrow>
                          if startswith (ws r') ''}''
                          then Inr (JObj (dset k v acc), tl (ws r'))
                          else if startswith (ws r') '',''
                          then pmem n (dset k v acc) (ws (tl (ws r')))
                          else Inl DecodeError)))"
| "pelem 0 acc s = Inl OutOfFuel"
| "pelem (Suc n) acc s =
     (case pval n s of
        Inl e \<Rightarrow> Inl e
      | Inr (v, r) \<Rightarrow>
          if startswith (ws r) '']'' then Inr (JList (acc @ [v]), tl (ws r))
          else if startswith (ws r) '','' then pelem n (acc @ [v]) (ws (tl (ws r)))
          else Inl DecodeError)"

text \<open>\<open>raw_decode(text, idx)\<close> on the text from \<open>idx\<close> on, and \<open>json.loads(text)\<close>.\<close>

definition raw_decode :: "string \<Rightarrow> jerr + (json \<times> string)" where
  "raw_decode s = pval (2 * length s + 2) s"

definition loads :: "string \<Rightarrow> jerr + json" where
  "loads s =
     (case raw_decode (ws s) of
        Inl e \<Rightarrow> Inl e
      | Inr (v, r) \<Rightarrow> if ws r = [] then Inr v else Inl DecodeError)"


section \<open>The decoder consumes text and never runs out of fuel\<close>

lemma startswith_len: "startswith s p \<Longrightarrow> length p \<le> length s"
  by (simp add: startswith_iff_prefix prefix_length_le)

lemma ws_len [simp]: "length (ws s) \<le> length s"
  by (simp add: ws_def length_dropWhile_le)

lemma cons_str_Some: "cons_str t r = Some (u, s) \<longleftrightarrow> (\<exists>v. r = Some (v, s) \<and> u = t @ v)"
  by (auto simp: cons_str_def)

lemma scan_str_len: "scan_str s = Some (t, r) \<Longrightarrow> length r < length s"
proof (induction s arbitrary: t r rule: measure_induct_rule [of length])
  case (less s)
  show ?case
  proof (cases s)
    case (Cons c s')
    have IH: "length r < Suc m"
      if "scan_str y = Some (u, r)" "length y \<le> m" "m \<le> length s'" for y u m
      using less.IH [of y u r] that Cons by simp
    from less.prems Cons show ?thesis
      by (auto simp: cons_str_Some split: if_splits list.splits option.splits intro: IH)
  qed (use less.prems in simp)
qed

lemma dropWhile_len': "length (dropWhile P (drop k s)) \<le> length s" "length (dropWhile P (tl s)) \<le> length s"
  using length_dropWhile_le [of P "drop k s"] length_dropWhile_le [of P "tl s"] by auto

lemma scan_int_len:
  assumes "scan_int s = Some (i, r)"
  shows "length r < length s"
proof -
  define k where "k = length (if startswith s ''-'' then ''-'' else [])"
  obtain c x where cx: "drop k s = c # x" and r: "r = x \<or> r = dropWhile is_digit x"
    using assms unfolding scan_int_def Let_def k_def by (auto split: list.splits if_splits)
  have "Suc (length x) \<le> length s"
    using cx by (metis length_drop length_Cons diff_le_self)
  with r length_dropWhile_le [of is_digit x] show ?thesis by auto
qed

lemma scan_frac_len: "scan_frac s = (f, r) \<Longrightarrow> length r \<le> length s"
  by (auto simp: scan_frac_def dropWhile_len' split: if_splits)

lemma scan_exp_len: "scan_exp s = (f, r) \<Longrightarrow> length r \<le> length s"
proof -
  have *: "length (dropWhile is_digit (drop k (tl s))) \<le> length s" for k
    using dropWhile_len'(1) [of is_digit k "tl s"] by simp
  have "length (dropWhile is_digit (tl (tl s))) \<le> length s"
    using * [of 1] by (simp add: drop_Suc)
  with * [of 0] show "scan_exp s = (f, r) \<Longrightarrow> length r \<le> length s"
    by (auto simp: scan_exp_def Let_def drop_Suc split: if_splits)
qed

lemma scan_number_len: "scan_number s = Inr (v, r) \<Longrightarrow> length r < length s"
  by (auto simp: scan_number_def Let_def split: option.splits prod.splits if_splits
      dest!: scan_int_len scan_frac_len scan_exp_len)

lemma scan_atom_len: "scan_atom s = Inr (v, r) \<Longrightarrow> length r < length s"
  by (auto simp: scan_atom_def literals_def split: option.splits if_splits
      dest: scan_number_len startswith_len)

lemma parse_len:
  shows "pval n s = Inr (v, r) \<Longrightarrow> length r < length s"
    and "pmem n acc s = Inr (v, r) \<Longrightarrow> length r < length s"
    and "pelem n vs s = Inr (v, r) \<Longrightarrow> length r < length s"
proof (induction n s and n acc s and n vs s arbitrary: v r and v r and v r rule: pval_pmem_pelem.induct)
  case (2 n s)
  have tl: "length (tl (ws x)) \<le> length x" for x by (metis diff_le_self length_tl order_trans ws_len)
  from 2 show ?case
    by (auto split: list.splits if_splits option.splits dest!: scan_str_len scan_atom_len 
       intro: le_imp_less_Suc less_SucI tl less_le_trans [OF _ ws_len])
next
  case (4 n acc s)
  have tl: "length (tl (ws x)) \<le> length x" for x by (metis diff_le_self length_tl order_trans ws_len)
  have ws: "length (ws (tl (ws x))) \<le> length x" for x by (metis tl order_trans ws_len)
  from "4.prems" obtain k r1 where k: "scan_str (tl s) = Some (k, r1)"
    by (auto split: if_splits option.splits)
  then have r1: "length r1 < length s" by (auto dest!: scan_str_len)
  from "4.prems" k obtain w r2 where w: "pval n (ws (tl (ws r1))) = Inr (w, r2)"
    by (auto split: if_splits option.splits sum.splits)
  have r2: "length r2 < length s"
    using "4.IH"(1) [OF _ k refl _ w] "4.prems" k ws [of r1] r1 by (auto split: if_splits)
  from "4.prems" k w r2 show ?case
    using tl [of r2] ws [of r2] "4.IH"(2) [OF _ k refl _ w refl] by (auto split: if_splits)
next
  case (6 n acc s)
  have tl: "length (tl (ws x)) \<le> length x" for x by (metis diff_le_self length_tl order_trans ws_len)
  have ws: "length (ws (tl (ws x))) \<le> length x" for x by (metis tl order_trans ws_len)
  from "6.prems" obtain w r2 where w: "pval n s = Inr (w, r2)"
    by (auto split: if_splits option.splits sum.splits)
  from "6.prems" w "6.IH"(1) [OF w] show ?case
    using tl [of r2] ws [of r2] "6.IH"(2) [OF w refl] by (auto split: if_splits)
qed simp_all

lemma scan_atom_no_fuel: "scan_atom s \<noteq> Inl OutOfFuel"
  by (auto simp: scan_atom_def scan_number_def Let_def split: option.splits prod.splits)

lemma tl_ws_len: "length (tl (ws s)) \<le> length s" "length (ws (tl (ws s))) \<le> length s"
  by (metis diff_le_self length_tl order_trans ws_len)+

lemma ws_tl_ws_less: "startswith (ws s) [c] \<Longrightarrow> length (ws (tl (ws s))) < length s"
  using startswith_len [of "ws s" "[c]"] ws_len [of s] ws_len [of "tl (ws s)"]
  unfolding length_tl list.size by linarith

lemma decode_no_fuel:
  shows "2 * length s < n \<Longrightarrow> pval n s \<noteq> Inl OutOfFuel"
    and "2 * length s < n \<Longrightarrow> pmem n acc s \<noteq> Inl OutOfFuel"
    and "2 * length s + 1 < n \<Longrightarrow> pelem n vs s \<noteq> Inl OutOfFuel"
proof (induction n s and n acc s and n vs s rule: pval_pmem_pelem.induct)
  case (2 n s)
  have "2 * length (ws r) + 1 < n" if "s = c # r" for c r
  proof -
    have "2 * length r + 2 < Suc n" using "2.prems" that by simp
    then show ?thesis using ws_len [of r] by linarith
  qed
  then have "2 * length (ws r) < n" "2 * length (ws r) + 1 < n" if "s = c # r" for c r
    using that by fastforce+
  with 2 show ?case
    by (auto simp: scan_atom_no_fuel split: list.splits option.splits)
next
  case (4 n acc s)
  show ?case
  proof (cases "scan_str (tl s)")
    case (Some kr)
    obtain k r where kr: "kr = (k, r)" by (cases kr)
    have less: "2 * length (ws (tl (ws r))) < n"
      using scan_str_len [OF Some [unfolded kr]] tl_ws_len(2) [of r] "4.prems" by auto
    show ?thesis
    proof (cases "pval n (ws (tl (ws r)))")
      case (Inr vr)
      obtain v r' where vr: "vr = (v, r')" by (cases vr)
      have "2 * length (ws (tl (ws r'))) < n"
        using parse_len(1) [OF Inr [unfolded vr]] tl_ws_len(2) [of r'] less by auto
      with Some kr Inr vr "4.IH"(2) [OF _ Some kr [symmetric] _ Inr vr [symmetric]] show ?thesis
        by auto
    qed (use Some kr less "4.IH"(1) [OF _ Some kr [symmetric]] in auto)
  qed auto
next
  case (6 n acc s)
  show ?case
  proof (cases "pval n s")
    case (Inr vr)
    obtain v r where vr: "vr = (v, r)" by (cases vr)
    have "2 * length (ws (tl (ws r))) + 1 < n" if "startswith (ws r) '',''"
      using parse_len(1) [OF Inr [unfolded vr]] ws_tl_ws_less [OF that] "6.prems" by auto
    with Inr vr "6.IH"(2) [OF Inr vr [symmetric]] show ?thesis by auto
  qed (use "6.IH"(1) "6.prems" in auto)
qed simp_all

lemma raw_decode_no_fuel: "raw_decode s \<noteq> Inl OutOfFuel"
  by (simp add: raw_decode_def decode_no_fuel(1) del: pval.simps)

lemma raw_decode_len: "raw_decode s = Inr (v, r) \<Longrightarrow> length r < length s"
  unfolding raw_decode_def by (rule parse_len(1))

section \<open>Round trip\<close>

fun no_pair :: "nat list \<Rightarrow> bool" where
  "no_pair (c # d # cs) = (\<not> (is_high c \<and> is_low d) \<and> no_pair (d # cs))"
| "no_pair _ = True"

definition str_ok :: "string \<Rightarrow> bool" where
  "str_ok s \<longleftrightarrow> wf_str s \<and> no_pair (cps s)"

lemma no_pair_small: "list_all (\<lambda>c. c < 128) cs \<Longrightarrow> no_pair cs"
  by (induction cs rule: no_pair.induct) (auto simp: is_high_def)

lemma str_ok_ascii: "ascii s \<Longrightarrow> str_ok s"
  by (simp add: str_ok_def wf_str_ascii cps_ascii no_pair_small ascii_def list_all_iff)

lemma hexval_hexd: "n < 16 \<Longrightarrow> hexval (hexd n) = Some n"
  by (auto simp: hexval_def hexd_def)

lemma hex_sum: "(n div 4096) * 4096 + n div 256 mod 16 * 256 + n div 16 mod 16 * 16 + n mod 16 = (n::nat)"
proof -
  have 1: "n div 16 = 16 * (n div 256) + n div 16 mod 16"
    using mult_div_mod_eq [of 16 "n div 16"] by (simp flip: div_mult2_eq)
  have 2: "n div 256 = 16 * (n div 4096) + n div 256 mod 16"
    using mult_div_mod_eq [of 16 "n div 256"] by (simp flip: div_mult2_eq)
  show ?thesis using 1 2 mult_div_mod_eq [of 16 n] by linarith
qed

lemma unhex4_hex4: "n < 65536 \<Longrightarrow> unhex4 (hex4 n @ s) = Some n"
  using hex_sum [of n] by (simp add: unhex4_def hex4_def hexval_hexd)

lemma hex4_len [simp]: "length (hex4 n) = 4"
  by (simp add: hex4_def)

lemma low_follows_u: "n < 65536 \<Longrightarrow> low_follows (u_escape n @ s) = (if is_low n then Some n else None)"
  by (simp add: low_follows_def u_escape_def startswith_def unhex4_hex4)

lemma low_follows_other: "\<not> startswith s [BSL, CHR ''u''] \<Longrightarrow> low_follows s = None"
  by (simp add: low_follows_def)

lemma u_escape_scan:
  assumes "c < 65536" and "is_high c \<Longrightarrow> low_follows s = None"
  shows "scan_str (u_escape c @ s) = cons_str (utf8 c) (scan_str s)"
  using assms by (auto simp: u_escape_def unhex4_hex4)

lemma u_escape_pair_scan:
  assumes "is_high h" and "is_low l"
  shows "scan_str (u_escape h @ u_escape l @ s) =
    cons_str (utf8 (65536 + (h - 55296) * 1024 + (l - 56320))) (scan_str s)"
proof -
  have "low_follows (u_escape l @ s) = Some l"
    using assms(2) by (simp add: low_follows_u is_low_def)
  moreover have "h < 65536" using assms(1) by (simp add: is_high_def)
  ultimately show ?thesis
    using assms(1) by (simp add: u_escape_def unhex4_hex4)
qed

lemma char_of_eq:
  "c < 256 \<Longrightarrow> char_of c = x \<longleftrightarrow> c = (of_char x :: nat)"
  "c < 256 \<Longrightarrow> x = char_of c \<longleftrightarrow> c = (of_char x :: nat)"
  by (metis char_of_char of_char_of mod_less)+

abbreviation short_esc :: "nat set" where
  "short_esc \<equiv> {34, 92, 10, 13, 9, 12, 8}"

lemma esc_cp_short: "c \<in> short_esc \<Longrightarrow> \<exists>e. esc_cp c = [BSL, e] \<and> e \<noteq> CHR ''u'' \<and> simple_escape e = Some (char_of c) \<and> utf8 c = [char_of c]"
  by (auto simp: esc_cp_def simple_escape_def char_of_eq utf8.simps)

lemma esc_cp_plain:
  assumes "32 \<le> c" "c < 127" "c \<notin> short_esc"
  shows "esc_cp c = [char_of c]" "utf8 c = [char_of c]"
  using assms by (auto simp: esc_cp_def utf8.simps)

lemma esc_cp_u: "c \<notin> short_esc \<Longrightarrow> \<not> (32 \<le> c \<and> c < 127) \<Longrightarrow> c < 65536 \<Longrightarrow> esc_cp c = u_escape c"
  by (auto simp: esc_cp_def)

lemma esc_cp_pair: "\<not> c < 65536 \<Longrightarrow>
    esc_cp c = u_escape (55296 + (c - 65536) div 1024) @ u_escape (56320 + (c - 65536) mod 1024)"
  by (auto simp: esc_cp_def)

lemma esc_cp_not_low:
  assumes "c < 1114112" and "\<not> is_low c"
  shows "low_follows (esc_cp c @ s) = None"
proof -
  consider "c \<in> short_esc" | "c \<notin> short_esc" "32 \<le> c" "c < 127"
    | "c \<notin> short_esc" "\<not> (32 \<le> c \<and> c < 127)" "c < 65536" | "\<not> c < 65536" by blast
  then show ?thesis
  proof cases
    case 1
    then obtain e where "esc_cp c = [BSL, e]" "e \<noteq> CHR ''u''" using esc_cp_short by blast
    then show ?thesis by (simp add: low_follows_other startswith_def)
  next
    case 2
    then have "char_of c \<noteq> BSL" by (simp add: char_of_eq)
    with 2 show ?thesis by (simp add: esc_cp_plain low_follows_other startswith_def)
  next
    case 3
    with assms(2) show ?thesis unfolding esc_cp_u [OF 3] by (subst low_follows_u) simp_all
  next
    case 4
    have "55296 + (c - 65536) div 1024 < 65536" "\<not> is_low (55296 + (c - 65536) div 1024)"
      using assms(1) by (auto simp: is_low_def)
    then show ?thesis unfolding esc_cp_pair [OF 4] append_assoc by (subst low_follows_u) simp_all
  qed
qed

lemma scan_esc_cp:
  assumes c: "c < 1114112" and s: "is_high c \<Longrightarrow> low_follows s = None"
  shows "scan_str (esc_cp c @ s) = cons_str (utf8 c) (scan_str s)"
proof -
  consider "c \<in> short_esc" | "c \<notin> short_esc" "32 \<le> c" "c < 127"
    | "c \<notin> short_esc" "\<not> (32 \<le> c \<and> c < 127)" "c < 65536" | "\<not> c < 65536" by blast
  then show ?thesis
  proof cases
    case 1
    then obtain e where "esc_cp c = [BSL, e]" "e \<noteq> CHR ''u''" "simple_escape e = Some (char_of c)"
      "utf8 c = [char_of c]" using esc_cp_short by blast
    then show ?thesis by simp
  next
    case 2
    then have "char_of c \<noteq> BSL" "char_of c \<noteq> DQ" "\<not> (of_char (char_of c :: char) :: nat) < 32"
      by (simp_all add: char_of_eq)
    with 2 show ?thesis by (simp add: esc_cp_plain)
  next
    case 3
    from 3(3) s show ?thesis unfolding esc_cp_u [OF 3] by (rule u_escape_scan)
  next
    case 4
    let ?d = "c - 65536"
    have hl: "is_high (55296 + ?d div 1024)" "is_low (56320 + ?d mod 1024)"
      using c 4 less_mult_imp_div_less [of ?d 1024 1024] by (simp_all add: is_high_def is_low_def)
    have "65536 + ?d div 1024 * 1024 + ?d mod 1024 = c"
      using 4 div_mult_mod_eq [of ?d 1024] by linarith
    with u_escape_pair_scan [OF hl, of s] show ?thesis
      unfolding esc_cp_pair [OF 4] append_assoc by (simp del: scan_str.simps)
  qed
qed

lemmas no_pair_induct = no_pair.induct [case_names two none one]

lemma scan_str_esc:
  assumes "\<forall>c \<in> set cs. c < 1114112" and "no_pair cs"
  shows "scan_str (concat (map esc_cp cs) @ DQ # r) = Some (utf8s cs, r)"
  using assms
proof (induction cs rule: no_pair_induct)
  case (two c d cs)
  have "is_high c \<Longrightarrow> low_follows (concat (map esc_cp (d # cs)) @ DQ # r) = None"
    using two.prems esc_cp_not_low [of d] by auto
  with two scan_esc_cp [of c "concat (map esc_cp (d # cs)) @ DQ # r"] show ?case
    by (simp add: cons_str_def del: scan_str.simps)
next
  case (one c)
  have "low_follows (DQ # r) = None" by (simp add: low_follows_def startswith_def)
  with one scan_esc_cp [of c "DQ # r"] show ?case by (simp add: cons_str_def)
qed simp

lemma scan_jstr: "str_ok s \<Longrightarrow> scan_str (tl (jstr s) @ r) = Some (s, r)"
  using scan_str_esc [of "cps s" r] by (auto simp: str_ok_def jstr_def wf_str_def list_all_iff)

lemma is_digit_iff: "is_digit c \<longleftrightarrow> 48 \<le> (of_char c :: nat) \<and> (of_char c :: nat) < 58"
  by (auto simp: is_digit_def less_eq_char_def)

lemma digits_props:
  "list_all is_digit (digits n)" "dec_val (digits n) = int n"
  "n \<noteq> 0 \<Longrightarrow> hd (digits n) \<noteq> CHR ''0''"
proof (induction n rule: digits.induct)
  case (1 n)
  { case 1 show ?case using "1.IH" by (subst digits.simps) (auto simp: is_digit_iff list_all_iff) }
  { case 2
    have "dec_val (digits n) = int (n div 10) * 10 + int (n mod 10)" if "\<not> n < 10"
      using "1.IH"(2) that by (subst digits.simps) (simp add: dec_val_def)
    moreover have "int (n div 10) * 10 + int (n mod 10) = int n"
      by presburger
    ultimately show ?case by (cases "n < 10") (simp_all add: digits.simps [of n] dec_val_def) }
  { case 3
    then show ?case using "1.IH"(3) by (subst digits.simps) (auto simp: char_of_eq) }
qed

definition delim :: "string \<Rightarrow> bool" where
  "delim r \<longleftrightarrow> r = [] \<or> hd r \<in> {CHR '','', CHR ''}'', CHR '']''}"

lemma delim_simps [simp]: "delim []" "delim (CHR '','' # r)" "delim (CHR ''}'' # r)" "delim (CHR '']'' # r)"
  by (simp_all add: delim_def)

lemma delim_frac_exp: "delim r \<Longrightarrow> scan_frac r = ([], r)" "delim r \<Longrightarrow> scan_exp r = ([], r)"
  by (cases r; auto simp: delim_def scan_frac_def scan_exp_def startswith_def)+

lemma takeWhile_digits: "list_all is_digit ds \<Longrightarrow> delim r \<Longrightarrow>
  takeWhile is_digit (ds @ r) = ds \<and> dropWhile is_digit (ds @ r) = r"
  by (cases r) (auto simp: delim_def is_digit_iff list_all_iff)

lemma scan_int_digits:
  assumes "delim r"
  shows "scan_int (digits n @ r) = Some (digits n, r)"
    and "scan_int (CHR ''-'' # digits n @ r) = Some (CHR ''-'' # digits n, r)"
proof -
  obtain c ds where d: "digits n = c # ds" by (cases "digits n") auto
  have c: "is_digit c" using digits_props(1) [of n] d by simp
  then have nm: "c \<noteq> CHR ''-''" by (auto simp: is_digit_iff)
  have tw: "takeWhile is_digit (c # ds @ r) = c # ds" "dropWhile is_digit (c # ds @ r) = r"
    using takeWhile_digits [OF digits_props(1) assms, of n] d by simp_all
  have z: "ds = []" if "c = CHR ''0''"
  proof -
    have "n = 0" using digits_props(3) [of n] d that by auto
    then show ?thesis using d by (simp add: digits.simps)
  qed
  from z c show "scan_int (digits n @ r) = Some (digits n, r)"
    and "scan_int (CHR ''-'' # digits n @ r) = Some (CHR ''-'' # digits n, r)"
    using tw nm by (auto simp: scan_int_def d startswith_def Let_def split: if_splits)
qed

fun jwf :: "json \<Rightarrow> bool" where
  "jwf (JInt i) = (length (digits (nat \<bar>i\<bar>)) \<le> 4300)"
| "jwf (JFloat f) = False"
| "jwf (JStr s) = str_ok s"
| "jwf (JList vs) = list_all jwf vs"
| "jwf (JObj kvs) = (distinct (map fst kvs) \<and> list_all (\<lambda>(k, v). str_ok k \<and> jwf v) kvs)"
| "jwf _ = True"

lemma scan_atom_numeric:
  assumes "is_digit c"
  shows "scan_atom (c # s) = scan_number (c # s)"
    and "scan_atom (CHR ''-'' # c # s) = scan_number (CHR ''-'' # c # s)"
proof -
  have "c \<noteq> CHR ''n''" "c \<noteq> CHR ''t''" "c \<noteq> CHR ''f''" "c \<noteq> CHR ''N''" "c \<noteq> CHR ''I''" "c \<noteq> CHR ''-''"
    using assms by (auto simp: is_digit_iff)
  then show "scan_atom (c # s) = scan_number (c # s)"
    and "scan_atom (CHR ''-'' # c # s) = scan_number (CHR ''-'' # c # s)"
    by (simp_all add: scan_atom_def literals_def startswith_def)
qed

lemma scan_number_int:
  assumes "scan_int s = Some (i, r)" and "delim r"
    and "length (if startswith i ''-'' then tl i else i) \<le> 4300"
  shows "scan_number s = Inr (JInt (int_val i), r)"
  using assms by (simp add: scan_number_def delim_frac_exp)

lemma scan_atom_int:
  assumes "jwf (JInt i)" and r: "delim r"
  shows "scan_atom (str_of_int i @ r) = Inr (JInt i, r)"
proof -
  let ?n = "nat \<bar>i\<bar>"
  obtain c ds where d: "digits ?n = c # ds" by (cases "digits ?n") auto
  have c: "is_digit c" using digits_props(1) [of ?n] d by simp
  then have nm: "c \<noteq> CHR ''-''" by (auto simp: is_digit_iff)
  have len: "Suc (length ds) \<le> 4300" using assms(1) d by simp
  have v: "dec_val (c # ds) = \<bar>i\<bar>" using digits_props(2) [of ?n] d by simp
  note si = scan_int_digits [OF r, of ?n, unfolded d]
  show ?thesis
  proof (cases "i < 0")
    case True
    then have "str_of_int i = CHR ''-'' # c # ds" using d by (simp add: str_of_int_def abs_if)
    with scan_number_int [OF si(2) r] len True v show ?thesis
      by (simp add: scan_atom_numeric [OF c] startswith_def int_val_def)
  next
    case False
    then have "str_of_int i = c # ds" using d by (simp add: str_of_int_def abs_if)
    with scan_number_int [OF si(1) r] len False v nm show ?thesis
      by (simp add: scan_atom_numeric [OF c] startswith_def int_val_def)
  qed
qed

lemma startswith_single [simp]: "startswith (c # s) [d] \<longleftrightarrow> c = d" "\<not> startswith [] [d]"
  by (auto simp: startswith_def)

lemma ws_nonspace: "c \<notin> {CHR '' '', CHR 0x09, NL, CHR 0x0D} \<Longrightarrow> ws (c # s) = c # s"
  by (simp add: ws_def)

lemma ws_space [simp]: "ws (CHR '' '' # s) = ws s"
  by (simp add: ws_def)

text \<open>The first character of an encoded value tells which branch of the decoder reads it.\<close>

definition starter :: "char \<Rightarrow> bool" where
  "starter c \<longleftrightarrow> c \<in> {DQ, CHR ''{'', CHR ''['', CHR ''n'', CHR ''t'', CHR ''f'', CHR ''-''} \<or> is_digit c"

lemma dumps_starter:
  assumes "jwf v"
  obtains c s where "dumps so v = c # s" and "starter c"
proof (cases v)
  case (JBool b)
  with that show ?thesis by (cases b) (auto simp: starter_def)
next
  case (JInt i)
  obtain c ds where d: "digits (nat \<bar>i\<bar>) = c # ds" by (cases "digits (nat \<bar>i\<bar>)") auto
  have c: "is_digit c" using digits_props(1) [of "nat \<bar>i\<bar>"] d by simp
  with JInt that d show ?thesis by (cases "i < 0") (auto simp: str_of_int_def starter_def abs_if)
qed (use assms that in \<open>auto simp: starter_def jstr_def Let_def split: if_splits\<close>)

lemma starter_not: "starter c \<Longrightarrow> c \<notin> {CHR '' '', CHR 0x09, NL, CHR 0x0D, CHR '']'', CHR ''}''}"
  by (auto simp: starter_def is_digit_iff)

lemma ws_dumps: "jwf v \<Longrightarrow> ws (dumps so v @ r) = dumps so v @ r"
  by (erule dumps_starter [where so = so]) (auto dest!: starter_not intro!: ws_nonspace)

lemma ws_jstr [simp]: "ws (jstr k @ r) = jstr k @ r"
  by (simp add: jstr_def ws_nonspace)


definition decodes :: "json \<Rightarrow> bool" where
  "decodes v \<longleftrightarrow> (\<forall>n r. delim r \<longrightarrow> 2 * length (dumps False v @ r) < n \<longrightarrow>
     pval n (dumps False v @ r) = Inr (v, r))"

lemma decodesD: "decodes v \<Longrightarrow> delim r \<Longrightarrow> 2 * length (dumps False v @ r) < n \<Longrightarrow>
    pval n (dumps False v @ r) = Inr (v, r)"
  unfolding decodes_def by blast

lemma join_Cons: "join sep (x # xs) = x @ (if xs = [] then [] else sep @ join sep xs)"
  by (cases xs) auto

lemma pelem_elems:
  assumes "vs \<noteq> []" and "\<forall>v \<in> set vs. decodes v \<and> jwf v"
    and "2 * length (join '', '' (map (dumps False) vs) @ CHR '']'' # r) + 1 < n"
  shows "pelem n acc (join '', '' (map (dumps False) vs) @ CHR '']'' # r) = Inr (JList (acc @ vs), r)"
  using assms
proof (induction vs arbitrary: n acc rule: list_nonempty_induct)
  case (single v)
  then obtain m where n: "n = Suc m" by (cases n) auto
  with single have "pval m (dumps False v @ CHR '']'' # r) = Inr (v, CHR '']'' # r)"
    by (intro decodesD) auto
  with n show ?case by (simp add: ws_nonspace)
next
  case (cons v vs)
  let ?t = "join '', '' (map (dumps False) vs) @ CHR '']'' # r"
  obtain m where n: "n = Suc m" using cons.prems by (cases n) auto
  have eq: "join '', '' (map (dumps False) (v # vs)) @ CHR '']'' # r
      = dumps False v @ CHR '','' # CHR '' '' # ?t"
    using cons.hyps by (simp add: join_Cons)
  have v: "pval m (dumps False v @ CHR '','' # CHR '' '' # ?t) = Inr (v, CHR '','' # CHR '' '' # ?t)"
    using cons.prems n eq by (intro decodesD) auto
  have ws: "ws ?t = ?t"
    using cons.hyps cons.prems by (cases vs) (auto simp: join_Cons ws_dumps)
  have "pelem m (acc @ [v]) ?t = Inr (JList ((acc @ [v]) @ vs), r)"
    using cons.prems n eq by (intro cons.IH) auto
  then show ?case unfolding eq by (simp add: n v ws_nonspace ws)
qed

abbreviation mtext :: "string \<times> json \<Rightarrow> string" where
  "mtext kv \<equiv> jstr (fst kv) @ '': '' @ dumps False (snd kv)"

lemma jstr_Cons: "jstr k = DQ # tl (jstr k)"
  by (simp add: jstr_def)

lemma pmem_step:
  assumes k: "str_ok k" and v: "decodes v" "jwf v" and r: "delim r"
    and n: "2 * length (mtext (k, v) @ r) < Suc n"
  shows "pmem (Suc n) acc (mtext (k, v) @ r) =
     (if startswith (ws r) ''}'' then Inr (JObj (dset k v acc), tl (ws r))
      else if startswith (ws r) '','' then pmem n (dset k v acc) (ws (tl (ws r)))
      else Inl DecodeError)"
proof -
  let ?s = "'': '' @ dumps False v @ r"
  have sc: "scan_str (tl (jstr k @ ?s)) = Some (k, ?s)"
    using scan_jstr [OF k, of ?s] by (subst jstr_Cons) simp
  have pv: "pval n (dumps False v @ r) = Inr (v, r)"
    using v r n by (intro decodesD) (auto simp: jstr_def)
  have "startswith (jstr k @ ?s) [DQ]" by (subst jstr_Cons) simp
  with sc pv v show ?thesis by (simp add: ws_nonspace ws_dumps)
qed

lemma update_append_new: "k \<notin> fst ` set al \<Longrightarrow> dset k v al = al @ [(k, v)]"
  by (induction al) auto

lemma pmem_members:
  assumes "kvs \<noteq> []" and "\<forall>kv \<in> set kvs. str_ok (fst kv) \<and> decodes (snd kv) \<and> jwf (snd kv)"
    and "distinct (map fst (acc @ kvs))"
    and "2 * length (join '', '' (map mtext kvs) @ CHR ''}'' # r) < n"
  shows "pmem n acc (join '', '' (map mtext kvs) @ CHR ''}'' # r) = Inr (JObj (acc @ kvs), r)"
  using assms
proof (induction kvs arbitrary: n acc rule: list_nonempty_induct)
  case (single kv)
  obtain k v where kv: "kv = (k, v)" by (cases kv)
  obtain m where n: "n = Suc m" using single.prems by (cases n) auto
  have u: "dset k v acc = acc @ [(k, v)]"
    using single.prems kv by (intro update_append_new) auto
  have "pmem (Suc m) acc (mtext (k, v) @ CHR ''}'' # r) = Inr (JObj (dset k v acc), r)"
    using single.prems kv n by (subst pmem_step) (auto simp: ws_nonspace)
  with u kv n show ?case by simp
next
  case (cons kv kvs)
  obtain k v where kv: "kv = (k, v)" by (cases kv)
  let ?t = "join '', '' (map mtext kvs) @ CHR ''}'' # r"
  obtain m where n: "n = Suc m" using cons.prems by (cases n) auto
  have u: "dset k v acc = acc @ [(k, v)]"
    using cons.prems kv by (intro update_append_new) auto
  have eq: "join '', '' (map mtext (kv # kvs)) @ CHR ''}'' # r = mtext (k, v) @ CHR '','' # CHR '' '' # ?t"
    using cons.hyps kv by (simp add: join_Cons)
  have ws: "ws ?t = ?t" using cons.hyps by (cases kvs) (auto simp: join_Cons)
  have "pmem (Suc m) acc (mtext (k, v) @ CHR '','' # CHR '' '' # ?t) = pmem m (dset k v acc) ?t"
    using cons.prems kv n eq by (subst pmem_step) (auto simp: ws_nonspace ws [simplified])
  also have "\<dots> = Inr (JObj ((acc @ [(k, v)]) @ kvs), r)"
    unfolding u using cons.prems kv n eq by (intro cons.IH) auto
  finally show ?case unfolding eq n using kv by simp
qed

lemma jwf_decodes: "jwf v \<Longrightarrow> decodes v"
proof (induction v)
  case (JStr t)
  show ?case unfolding decodes_def
  proof (intro allI impI)
    fix n r assume "delim r" "2 * length (dumps False (JStr t) @ r) < n"
    then obtain m where "n = Suc m" by (cases n) auto
    moreover have "scan_str (tl (jstr t) @ r) = Some (t, r)" using JStr by (intro scan_jstr) simp
    ultimately show "pval n (dumps False (JStr t) @ r) = Inr (JStr t, r)"
      by (subst dumps.simps, subst jstr_Cons) simp
  qed
next
  case (JInt i)
  show ?case unfolding decodes_def
  proof (intro allI impI)
    fix n r assume r: "delim r" "2 * length (dumps False (JInt i) @ r) < n"
    then obtain m where n: "n = Suc m" by (cases n) auto
    obtain c s where cs: "str_of_int i = c # s" "starter c"
      using dumps_starter [OF JInt, of False] by (metis dumps.simps(3))
    have at: "scan_atom (c # s @ r) = Inr (JInt i, r)"
      using scan_atom_int [OF JInt r(1)] cs by simp
    have "c = CHR ''-'' \<or> is_digit c"
      using cs(1) digits_props(1) [of "nat \<bar>i\<bar>"] by (cases "digits (nat \<bar>i\<bar>)") (auto simp: str_of_int_def abs_if split: if_splits)
    then have "c \<noteq> DQ" "c \<noteq> CHR ''{''" "c \<noteq> CHR ''[''" by (auto simp: is_digit_iff)
    with at cs n show "pval n (dumps False (JInt i) @ r) = Inr (JInt i, r)" by simp
  qed
next
  case (JList vs)
  show ?case unfolding decodes_def
  proof (intro allI impI)
    fix n r assume r: "delim r" "2 * length (dumps False (JList vs) @ r) < n"
    then obtain m where n: "n = Suc m" by (cases n) auto
    show "pval n (dumps False (JList vs) @ r) = Inr (JList vs, r)"
    proof (cases "vs = []")
      case False
      let ?t = "join '', '' (map (dumps False) vs) @ CHR '']'' # r"
      have dec: "\<forall>v \<in> set vs. decodes v \<and> jwf v" using JList by (auto simp: list_all_iff)
      then have ws: "ws ?t = ?t" using False by (cases vs) (auto simp: join_Cons ws_dumps)
      have "\<not> startswith ?t '']''"
      proof -
        obtain v vs' where vs: "vs = v # vs'" using False by (cases vs) auto
        then obtain c s where "dumps False v = c # s" "starter c"
          using dec dumps_starter [of v False] by auto
        then show ?thesis using vs starter_not [of c] by (simp add: join_Cons)
      qed
      moreover have "pelem m [] ?t = Inr (JList ([] @ vs), r)"
        using r n by (intro pelem_elems [OF False dec]) simp
      ultimately show ?thesis using n ws by simp
    qed (use n in \<open>simp add: ws_nonspace\<close>)
  qed
next
  case (JObj kvs)
  show ?case unfolding decodes_def
  proof (intro allI impI)
    fix n r assume r: "delim r" "2 * length (dumps False (JObj kvs) @ r) < n"
    then obtain m where n: "n = Suc m" by (cases n) auto
    have d: "dumps False (JObj kvs) @ r = CHR ''{'' # join '', '' (map mtext kvs) @ CHR ''}'' # r"
      by (simp add: comp_def case_prod_beta)
    show "pval n (dumps False (JObj kvs) @ r) = Inr (JObj kvs, r)"
    proof (cases "kvs = []")
      case False
      let ?t = "join '', '' (map mtext kvs) @ CHR ''}'' # r"
      have dec: "\<forall>kv \<in> set kvs. str_ok (fst kv) \<and> decodes (snd kv) \<and> jwf (snd kv)"
        using JObj by (fastforce simp: list_all_iff)
      have ws: "ws ?t = ?t" and st: "\<not> startswith ?t ''}''"
        using False by (cases kvs; simp add: join_Cons; subst jstr_Cons; simp)+
      have "pmem m [] ?t = Inr (JObj ([] @ kvs), r)"
        using r n JObj.prems unfolding d by (intro pmem_members [OF False dec]) auto
      with n ws st show ?thesis unfolding d by simp
    qed (use n in \<open>simp add: ws_nonspace\<close>)
  qed
next
  case (JBool b)
  show ?case unfolding decodes_def
  proof (intro allI impI)
    fix n r assume "2 * length (dumps False (JBool b) @ r) < n"
    then obtain m where "n = Suc m" by (cases n) auto
    then show "pval n (dumps False (JBool b) @ r) = Inr (JBool b, r)"
      by (cases b) (simp_all add: scan_atom_def literals_def startswith_def)
  qed
next
  case JNull
  show ?case unfolding decodes_def
  proof (intro allI impI)
    fix n r assume "2 * length (dumps False JNull @ r) < n"
    then obtain m where "n = Suc m" by (cases n) auto
    then show "pval n (dumps False JNull @ r) = Inr (JNull, r)"
      by (simp add: scan_atom_def literals_def startswith_def)
  qed
qed simp

theorem loads_dumps: "jwf v \<Longrightarrow> loads (dumps False v) = Inr v"
  using decodesD [OF jwf_decodes, of v "[]"] ws_dumps [of v False "[]"]
  by (simp add: loads_def raw_decode_def ws_def del: pval.simps)

text \<open>Sorting the keys at every level makes the encoding a function of the value up to key order.\<close>

fun canon :: "json \<Rightarrow> json" where
  "canon (JList vs) = JList (map canon vs)"
| "canon (JObj kvs) = JObj (sort_key fst (map (\<lambda>(k, v). (k, canon v)) kvs))"
| "canon v = v"

lemma insort_map_fst:
  "insort_key fst (k, f v) (map (\<lambda>(k, v). (k, f v)) kvs) = map (\<lambda>(k, v). (k, f v)) (insort_key fst (k, v) kvs)"
  by (induction kvs) auto

lemma sort_key_map_fst:
  "sort_key fst (map (\<lambda>(k, v). (k, f v)) kvs) = map (\<lambda>(k, v). (k, f v)) (sort_key fst kvs)"
  by (induction kvs) (auto simp: insort_map_fst)

lemma dumps_sorted_canon: "dumps True v = dumps False (canon v)"
proof (induction v)
  case (JObj kvs)
  then have "map (\<lambda>(k, v). (k, dumps True v)) kvs = map (\<lambda>(k, v). (k, dumps False v)) (map (\<lambda>(k, v). (k, canon v)) kvs)"
    by auto
  then show ?case by (simp add: sort_key_map_fst Let_def del: map_map)
qed (auto simp: comp_def cong: map_cong)

lemma jwf_canon: "jwf v \<Longrightarrow> jwf (canon v)"
proof (induction v)
  case (JObj kvs)
  then have "\<And>k v. (k, v) \<in> set kvs \<Longrightarrow> jwf (canon v)"
    by (fastforce simp: list_all_iff)
  moreover have "distinct (map fst (sort_key fst (map (\<lambda>(k, v). (k, canon v)) kvs)))"
    using JObj.prems by (auto simp: sort_key_map_fst comp_def case_prod_beta distinct_map)
  ultimately show ?case using JObj.prems by (auto simp: list_all_iff)
qed (auto simp: list_all_iff)

theorem loads_dumps_sorted: "jwf v \<Longrightarrow> loads (dumps True v) = Inr (canon v)"
  by (simp add: dumps_sorted_canon loads_dumps jwf_canon)

lemma dumps_sorted_inj: "jwf v \<Longrightarrow> jwf w \<Longrightarrow> dumps True v = dumps True w \<Longrightarrow> canon v = canon w"
  by (metis loads_dumps_sorted sum.inject(2))

section \<open>A decoded value as a Python object\<close>

text \<open>\<open>type(v).__name__\<close> and \<open>bool(v)\<close>; the text of a float that is zero is left to \<open>float_zero\<close>.\<close>

fun py_type :: "json \<Rightarrow> string" where
  "py_type JNull = ''NoneType''"
| "py_type (JBool _) = ''bool''"
| "py_type (JInt _) = ''int''"
| "py_type (JFloat _) = ''float''"
| "py_type (JStr _) = ''str''"
| "py_type (JList _) = ''list''"
| "py_type (JObj _) = ''dict''"

definition float_zero :: "string \<Rightarrow> bool" where
  "float_zero t \<longleftrightarrow> list_all (\<lambda>c. c \<in> set ''-+.0'') (takeWhile (\<lambda>c. c \<notin> set ''eE'') t)"

fun truthy :: "json \<Rightarrow> bool" where
  "truthy JNull = False"
| "truthy (JBool b) = b"
| "truthy (JInt i) = (i \<noteq> 0)"
| "truthy (JFloat t) = (\<not> float_zero t)"
| "truthy (JStr s) = (s \<noteq> [])"
| "truthy (JList xs) = (xs \<noteq> [])"
| "truthy (JObj o1) = (o1 \<noteq> [])"

text \<open>\<open>v.attr\<close> on a value whose class has no such attribute\<close>

definition no_attr :: "json \<Rightarrow> string \<Rightarrow> exn" where
  "no_attr v a = exc ''AttributeError''
     (SQ # py_type v @ [SQ] @ '' object has no attribute '' @ SQ # a @ [SQ])"

definition not_iterable :: "json \<Rightarrow> exn" where
  "not_iterable v = exc ''TypeError'' (''argument of type '' @ SQ # py_type v @ [SQ] @ '' is not iterable'')"

text \<open>\<open>key in d\<close> and \<open>d.get(key, v)\<close> of an argument dictionary\<close>

type_synonym args = "(string \<times> json) list"

definition get_or :: "args \<Rightarrow> string \<Rightarrow> json \<Rightarrow> json" where
  "get_or o1 k v = (case dget o1 k of Some x \<Rightarrow> x | None \<Rightarrow> v)"

text \<open>\<open>d[key]\<close>\<close>

definition get_item :: "args \<Rightarrow> string \<Rightarrow> json res" where
  "get_item o1 k = (case dget o1 k of Some x \<Rightarrow> Inr x | None \<Rightarrow> Inl (exc ''KeyError'' (py_repr k)))"

text \<open>\<open>repr\<close> of a list of strings\<close>

definition py_repr_list :: "string list \<Rightarrow> string" where
  "py_repr_list xs = ''['' @ join '', '' (map py_repr xs) @ '']''"

end
