(* ===== verification/Path_Fence.thy ===== *)
theory Path_Fence
  imports Posix_Path Json
begin

text \<open>
  The path fence (src/aegiscode/governance/path_fence.py): a path is allowed when its real
  path lies in the real workspace root and neither spelling matches a sensitive pattern.  The
  state it reads is the file system and the working directory of the process.  A name with a NUL
  byte makes \<open>realpath\<close> raise (in the code at the first component that holds it).
\<close>

record path_verdict =
  pv_allowed :: bool
  pv_reason :: string

definition pv_denied :: "string \<Rightarrow> path_verdict" where
  "pv_denied r = \<lparr>pv_allowed = False, pv_reason = r\<rparr>"

abbreviation NUL :: char where "NUL \<equiv> CHR 0x00"

definition os_realpath :: "fs \<Rightarrow> path \<Rightarrow> string \<Rightarrow> string res" where
  "os_realpath fs cwd p =
     (if NUL \<in> set p then Inl (exc ''ValueError'' ''embedded null byte'') else Inr (realpath fs cwd p))"

definition os_present :: "fs \<Rightarrow> path \<Rightarrow> string \<Rightarrow> bool" where
  "os_present fs cwd p \<longleftrightarrow> NUL \<notin> set p \<and> (islink fs cwd p \<or> path_exists fs cwd p)"

definition pat_matches :: "string \<Rightarrow> string \<Rightarrow> bool" where
  "pat_matches p pat \<longleftrightarrow> fnmatch (basename p) pat \<or> rstrip_chars ''/'' pat \<in> set (segs p)"

definition matches_sensitive :: "string \<Rightarrow> string list \<Rightarrow> bool" where
  "matches_sensitive p patterns \<longleftrightarrow> list_ex (pat_matches p) patterns"

definition fence_real :: "fs \<Rightarrow> path \<Rightarrow> string \<Rightarrow> string \<Rightarrow> (path_verdict + string) res" where
  "fence_real fs cwd root joined =
     (if os_present fs cwd joined then res_bind (os_realpath fs cwd joined) (\<lambda>r. Inr (Inr r))
      else res_bind (os_realpath fs cwd (dirname joined)) (\<lambda>parent.
           res_bind (commonpath2 parent root) (\<lambda>common.
             if common \<noteq> root then Inr (Inl (pv_denied ''parent dir outside workspace''))
             else Inr (Inr (path_join parent (basename joined))))))"

definition fence_sensitive :: "string \<Rightarrow> string \<Rightarrow> string list \<Rightarrow> path_verdict" where
  "fence_sensitive path real patterns =
     (if matches_sensitive path patterns \<or> matches_sensitive real patterns
      then (case find (\<lambda>pat. pat_matches path pat \<or> pat_matches real pat) patterns of
              Some pat \<Rightarrow> pv_denied (''sensitive file blocked: '' @ pat)
            | None \<Rightarrow> \<lparr>pv_allowed = True, pv_reason = ''ok''\<rparr>)
      else \<lparr>pv_allowed = True, pv_reason = ''ok''\<rparr>)"

definition check_path_str :: "fs \<Rightarrow> path \<Rightarrow> string \<Rightarrow> string \<Rightarrow> string list \<Rightarrow> path_verdict res" where
  "check_path_str fs cwd path workspace_root patterns =
     res_bind (os_realpath fs cwd workspace_root) (\<lambda>root.
       let joined = (if isabs path then path else path_join root path) in
       res_bind (fence_real fs cwd root joined) (\<lambda>r.
         case r of
           Inl v \<Rightarrow> Inr v
         | Inr real \<Rightarrow>
             res_bind (os_realpath fs cwd real) (\<lambda>rr.
             res_bind (commonpath2 rr root) (\<lambda>common.
               Inr (if common \<noteq> root then pv_denied ''path escapes workspace (traversal/symlink)''
                    else fence_sensitive path real patterns)))))"

definition check_path :: "fs \<Rightarrow> path \<Rightarrow> json \<Rightarrow> string \<Rightarrow> string list \<Rightarrow> path_verdict res" where
  "check_path fs cwd path workspace_root patterns =
     (case path of
        JStr (c # s) \<Rightarrow> check_path_str fs cwd (c # s) workspace_root patterns
      | _ \<Rightarrow> Inr (pv_denied ''empty or non-string path''))"

text \<open>The path a tool opens (\<open>ctx.resolve\<close>, src/aegiscode/service/assembly.py).\<close>

definition ctx_resolve :: "string \<Rightarrow> string \<Rightarrow> string" where
  "ctx_resolve ws_dir p = (if isabs p then p else path_join ws_dir p)"

section \<open>Verdicts\<close>

lemma find_matches: "(\<exists>pat. find P pats = Some pat) \<longleftrightarrow> list_ex P pats"
  by (induction pats) auto

lemma fence_sensitive_allowed:
  "pv_allowed (fence_sensitive path real pats) \<longleftrightarrow> \<not> matches_sensitive path pats \<and> \<not> matches_sensitive real pats"
proof -
  have "matches_sensitive path pats \<or> matches_sensitive real pats \<longleftrightarrow>
      (\<exists>pat. find (\<lambda>pat. pat_matches path pat \<or> pat_matches real pat) pats = Some pat)"
    by (auto simp: find_matches matches_sensitive_def list_ex_iff)
  then show ?thesis by (auto simp: fence_sensitive_def pv_denied_def split: option.splits)
qed

lemma check_path_allowedE:
  assumes "check_path fs cwd p root pats = Inr v" and "pv_allowed v"
  obtains name where "p = JStr name" "name \<noteq> []" "check_path_str fs cwd name root pats = Inr v"
  using assms by (auto simp: check_path_def pv_denied_def split: json.splits list.splits)

definition escape_reasons :: "string list" where
  "escape_reasons = [''parent dir outside workspace'', ''path escapes workspace (traversal/symlink)'']"

text \<open>A verdict that is not an escape was reached after the containment test.\<close>

lemma check_path_strE:
  assumes "check_path_str fs cwd name ws_dir pats = Inr v" and "pv_reason v \<notin> set escape_reasons"
  obtains real joined where "joined = (if isabs name then name else path_join (realpath fs cwd ws_dir) name)"
    "fence_real fs cwd (realpath fs cwd ws_dir) joined = Inr (Inr real)"
    "commonpath2 (realpath fs cwd real) (realpath fs cwd ws_dir) = Inr (realpath fs cwd ws_dir)"
    "v = fence_sensitive name real pats" "NUL \<notin> set real"
  using assms
  by (fastforce simp: check_path_str_def os_realpath_def Let_def pv_denied_def escape_reasons_def
      fence_real_def elim!: res_bind_InrE split: if_splits sum.splits)

lemma allowed_no_escape: "check_path fs cwd p root pats = Inr v \<Longrightarrow> pv_allowed v \<Longrightarrow> pv_reason v \<notin> set escape_reasons"
  by (auto simp: check_path_def check_path_str_def fence_real_def fence_sensitive_def pv_denied_def Let_def escape_reasons_def
      elim!: res_bind_InrE split: json.splits list.splits if_splits sum.splits option.splits)

section \<open>What the fence guarantees\<close>

lemma fence_real_resolved:
  assumes "wf_fs fs" and "lstat fs cwd = Some Dir" and "isabs joined"
    and "resolve_create fs cwd joined = Some q"
    and "fence_real fs cwd root joined = Inr (Inr real)" and "NUL \<notin> set joined"
  shows "real = abs_str q"
proof (cases "os_present fs cwd joined")
  case True
  with assms(5) have "real = realpath fs cwd joined"
    by (auto simp: fence_real_def os_realpath_def elim!: res_bind_InrE split: if_splits)
  then show ?thesis using resolve_create_realpath [OF assms(4)] by (simp add: realpath_def)
next
  case False
  then have "resolve fs cwd joined = None" "\<not> islink fs cwd joined"
    using assms(6) by (auto simp: os_present_def path_exists_def)
  from create_new [OF assms(1,3) this assms(4)] obtain p
    where p: "q = p @ [basename joined]" "name_ok (basename joined)" "lstat fs p = Some Dir"
      "resolve fs cwd (dirname joined) = Some p" by metis
  have "names_ok p" using wf_names assms(1) p(3) by (auto simp: names_ok_def)
  moreover have "real = path_join (realpath fs cwd (dirname joined)) (basename joined)"
    using False assms(5)
    by (auto simp: fence_real_def os_realpath_def elim!: res_bind_InrE split: if_splits)
  ultimately show ?thesis
    using p resolve_realpath [OF p(4)] path_join_base by (simp add: realpath_def)
qed

lemma fence_contains:
  assumes "wf_fs fs" and "lstat fs cwd = Some Dir" and "name \<noteq> []"
    and "check_path_str fs cwd name ws_dir pats = Inr v" and "pv_reason v \<notin> set escape_reasons"
    and "NUL \<notin> set (path_join (realpath fs cwd ws_dir) name)"
    and "resolve fs cwd (ctx_resolve ws_dir name) = Some q \<or>
      resolve_create fs cwd (ctx_resolve ws_dir name) = Some q"
  shows "prefix (realpath_segs fs cwd ws_dir) q \<and> v = fence_sensitive name (abs_str q) pats"
proof -
  obtain real joined where j: "joined = (if isabs name then name else path_join (realpath fs cwd ws_dir) name)"
    and real: "fence_real fs cwd (realpath fs cwd ws_dir) joined = Inr (Inr real)"
    and common: "commonpath2 (realpath fs cwd real) (realpath fs cwd ws_dir) = Inr (realpath fs cwd ws_dir)"
    and sens: "v = fence_sensitive name real pats"
    using check_path_strE [OF assms(4,5)] by blast
  have open_j: "resolve_create fs cwd joined = Some q"
    using assms(7) resolve_imp_create resolve_create_rebase [OF assms(1,2) _ _ assms(3)] j
    by (fastforce simp: ctx_resolve_def)
  have "isabs joined"
    using j by (auto simp: path_join_def isabs_def realpath_def abs_str_def startswith_def)
  moreover have "NUL \<notin> set joined"
    using assms(6) j by (auto simp: path_join_def isabs_def split: if_splits)
  ultimately have r: "real = abs_str q"
    using fence_real_resolved [OF assms(1,2) _ open_j real] by blast
  have cwd_ok: "names_ok cwd" using wf_names assms(1,2) by (auto simp: names_ok_def)
  have q: "realpath fs cwd real = abs_str q"
    using resolve_create_canonical [OF assms(1,2) open_j] r by (simp add: realpath_def)
  have "names_ok q"
    using realpath_names [OF cwd_ok, of fs joined] resolve_create_realpath [OF open_j] by simp
  then have "prefix (realpath_segs fs cwd ws_dir) q"
    using common q commonpath2_root_iff [of q "realpath_segs fs cwd ws_dir"]
      realpath_names [OF cwd_ok, of fs ws_dir] by (simp add: realpath_def names_ok_def)
  with sens r show ?thesis by simp
qed

lemma fence_guarantee:
  assumes "wf_fs fs" and "lstat fs cwd = Some Dir"
    and "check_path fs cwd (JStr name) ws_dir pats = Inr v" and "pv_allowed v"
    and "NUL \<notin> set (path_join (realpath fs cwd ws_dir) name)"
    and "resolve fs cwd (ctx_resolve ws_dir name) = Some q \<or>
      resolve_create fs cwd (ctx_resolve ws_dir name) = Some q"
  shows "prefix (realpath_segs fs cwd ws_dir) q \<and> \<not> matches_sensitive name pats \<and>
     \<not> matches_sensitive (abs_str q) pats"
proof -
  have cp: "name \<noteq> []" "check_path_str fs cwd name ws_dir pats = Inr v"
    using check_path_allowedE [OF assms(3,4)] by auto
  from fence_contains [OF assms(1,2) cp allowed_no_escape [OF assms(3,4)] assms(5,6)] assms(4)
  show ?thesis by (simp add: fence_sensitive_allowed)
qed

definition demo_fs :: fs where
  "demo_fs =
    [([''ws''], Dir), ([''ws'', ''src''], Dir), ([''ws'', ''l''], Link ''src''), ([''ws'', ''.env''], File ''K=1''),
     ([''ws'', ''report''], Link ''.env''), ([''ws'', ''out''], Link ''/etc''), ([''etc''], Dir), ([''etc'', ''passwd''], File ''x'')]"

text \<open>
  C10: For a name that exists the fence is exact: it is allowed if and only if its real path is
  the real root or below it and no sensitive pattern matches the name or the real path.
\<close>

theorem fence_exact:
  assumes "wf_fs fs" and "lstat fs cwd = Some Dir" and "name \<noteq> []" and "NUL \<notin> set ws_dir"
    and "joined = (if isabs name then name else path_join (realpath fs cwd ws_dir) name)"
    and "NUL \<notin> set joined" and "NUL \<notin> set (realpath fs cwd joined)"
    and "resolve fs cwd joined = Some q"
  shows "\<exists>v. check_path fs cwd (JStr name) ws_dir pats = Inr v \<and>
     (pv_allowed v \<longleftrightarrow> prefix (realpath_segs fs cwd ws_dir) q \<and> \<not> matches_sensitive name pats \<and>
        \<not> matches_sensitive (abs_str q) pats)"
proof -
  have present: "os_present fs cwd joined"
    using assms(6,8) by (simp add: os_present_def path_exists_def)
  have rj: "realpath fs cwd joined = abs_str q"
    using resolve_realpath [OF assms(8)] by (simp add: realpath_def)
  obtain nd where nd: "lstat fs q = Some nd" "no_link nd"
    using resolve_result [OF assms(1,2,8)] by blast
  have rr: "realpath fs cwd (abs_str q) = abs_str q"
    using realpath_canonical [OF assms(1) nd] by (simp add: realpath_def)
  have ok: "\<forall>s \<in> set q. name_ok s" "\<forall>s \<in> set (realpath_segs fs cwd ws_dir). name_ok s"
    using wf_names assms(1) nd(1) realpath_names [of cwd fs ws_dir] wf_names [OF assms(1,2)]
    by (blast, simp add: names_ok_def)
  obtain common where common: "commonpath2 (abs_str q) (realpath fs cwd ws_dir) = Inr common"
    using commonpath2_abs [OF ok] by (simp add: realpath_def)
  have "check_path fs cwd (JStr name) ws_dir pats = check_path_str fs cwd name ws_dir pats"
    using assms(3) by (cases name) (simp_all add: check_path_def)
  also have "\<dots> = Inr (if common \<noteq> realpath fs cwd ws_dir
      then pv_denied ''path escapes workspace (traversal/symlink)'' else fence_sensitive name (abs_str q) pats)"
    using assms(4-7) present rj rr common
    by (simp add: check_path_str_def os_realpath_def fence_real_def Let_def)
  finally show ?thesis
    using common commonpath2_root_iff [OF ok]
    by (auto simp: fence_sensitive_allowed realpath_def pv_denied_def)
qed

theorem fence_exact_witness:
  "\<exists>v. check_path demo_fs [] (JStr ''report'') ''/ws'' [''.env''] = Inr v \<and>
     (pv_allowed v \<longleftrightarrow> prefix (realpath_segs demo_fs [] ''/ws'') [''ws'', ''.env''] \<and>
       \<not> matches_sensitive ''report'' [''.env''] \<and> \<not> matches_sensitive (abs_str [''ws'', ''.env'']) [''.env''])"
  by (rule fence_exact [where joined = "''/ws/report''"]; code_simp)

end
