(* ===== verification/Config_Schema.thy ===== *)
theory Config_Schema
  imports Json
begin

text \<open>
  The configuration (src/aegiscode/config/schema.py, loader.py): the pydantic classes as records
  with their defaults, and the loader, which merges the recognised environment variables into the
  raw YAML value before validation.  The YAML parser and the validation of pydantic are arguments
  of the definitions that call them.  An integer field is an \<open>int\<close>.
\<close>

datatype decision = ALLOW | ALLOW_WITH_AUDIT | REQUIRE_APPROVAL | DENY

fun decision_value :: "decision \<Rightarrow> string" where
  "decision_value ALLOW = ''ALLOW''"
| "decision_value ALLOW_WITH_AUDIT = ''ALLOW_WITH_AUDIT''"
| "decision_value REQUIRE_APPROVAL = ''REQUIRE_APPROVAL''"
| "decision_value DENY = ''DENY''"

record limits =
  max_steps :: int
  max_consecutive_failures :: int
  no_progress_repeat_limit :: int
  action_retry_limit :: int
  llm_max_retries :: int
  command_timeout_sec :: int
  wall_clock_timeout_sec :: int
  output_max_bytes :: int

definition default_limits :: limits where
  "default_limits = \<lparr>max_steps = 25, max_consecutive_failures = 5, no_progress_repeat_limit = 3,
     action_retry_limit = 3, llm_max_retries = 3, command_timeout_sec = 30,
     wall_clock_timeout_sec = 300, output_max_bytes = 65536\<rparr>"

record default_decisions =
  readonly_decision :: decision
  write_decision :: decision
  command_decision :: decision

definition default_default_decisions :: default_decisions where
  "default_default_decisions =
     \<lparr>readonly_decision = ALLOW, write_decision = REQUIRE_APPROVAL, command_decision = DENY\<rparr>"

record command_rule =
  rule_argv0 :: string
  args_contain :: "string list"
  rule_decision :: decision

definition mk_rule :: "string \<Rightarrow> string list \<Rightarrow> decision \<Rightarrow> command_rule" where
  "mk_rule a c d = \<lparr>rule_argv0 = a, args_contain = c, rule_decision = d\<rparr>"

definition DEFAULT_COMMAND_RULES :: "command_rule list" where
  "DEFAULT_COMMAND_RULES =
    [mk_rule ''git'' [''push''] DENY,
     mk_rule ''git'' [''reset'', ''--hard''] DENY,
     mk_rule ''git'' [''clean''] DENY,
     mk_rule ''git'' [''commit''] REQUIRE_APPROVAL,
     mk_rule ''pip'' [''install''] REQUIRE_APPROVAL,
     mk_rule ''python'' [''-c''] DENY,
     mk_rule ''python'' [''-m''] DENY]"

record governance =
  command_allowlist :: "string list"
  command_rules :: "command_rule list"
  sensitive_file_patterns :: "string list"
  write_allowlist_dirs :: "string list"
  gov_defaults :: default_decisions

definition default_governance :: governance where
  "default_governance =
    \<lparr>command_allowlist = [''python'', ''python3'', ''pip'', ''pytest'', ''ruff'', ''mypy'', ''git''],
     command_rules = DEFAULT_COMMAND_RULES,
     sensitive_file_patterns = [''.env'', ''.git/'', ''*.pem'', ''*.key'', ''*credentials*''],
     write_allowlist_dirs = [''src/'', ''tests/''],
     gov_defaults = default_default_decisions\<rparr>"

record workspace_cfg =
  ws_root :: string
  allowed_base :: "string option"

record tools_cfg =
  enabled :: "string list"
  cfg_write_max_bytes :: int

record feedback_cfg =
  test_command :: string
  target_tests :: string

record memory_cfg =
  retrieval_top_k :: int
  context_budget_chars :: int

record credentials_cfg =
  allow_dotenv :: bool

record llm_cfg =
  llm_provider :: string
  llm_model :: string
  base_url :: "string option"

record aegis_config =
  workspace :: workspace_cfg
  limits_of :: limits
  tools :: tools_cfg
  feedback :: feedback_cfg
  governance :: governance
  memory :: memory_cfg
  credentials :: credentials_cfg
  llm :: llm_cfg

definition default_config :: aegis_config where
  "default_config =
    \<lparr>workspace = \<lparr>ws_root = ''/workspace'', allowed_base = None\<rparr>,
     limits_of = default_limits,
     tools = \<lparr>enabled = [''list_files'', ''read_file'', ''search_text'', ''write_file'', ''run_tests'',
                ''run_command'', ''finish''], cfg_write_max_bytes = 1048576\<rparr>,
     feedback = \<lparr>test_command = ''pytest -q'', target_tests = ''tests/''\<rparr>,
     governance = default_governance,
     memory = \<lparr>retrieval_top_k = 8, context_budget_chars = 24000\<rparr>,
     credentials = \<lparr>allow_dotenv = False\<rparr>,
     llm = \<lparr>llm_provider = ''openai'', llm_model = ''gpt-4o'', base_url = None\<rparr>\<rparr>"

section \<open>The loader\<close>

type_synonym env = "string \<Rightarrow> string option"

definition ENV_MAP :: "(string \<times> string \<times> string) list" where
  "ENV_MAP =
    [(''AEGIS_LLM_PROVIDER'', ''llm'', ''provider''),
     (''AEGIS_LLM_MODEL'', ''llm'', ''model''),
     (''AEGIS_WORKSPACE_ROOT'', ''workspace'', ''root''),
     (''AEGIS_WORKSPACE_ALLOWED_BASE'', ''workspace'', ''allowed_base'')]"

text \<open>\<open>raw.setdefault(section, {})[field] = value\<close>\<close>

definition set_field :: "string \<Rightarrow> string \<Rightarrow> string \<Rightarrow> json \<Rightarrow> json res" where
  "set_field section field v raw =
     (case raw of
        JObj o1 \<Rightarrow>
          (case dget o1 section of
             None \<Rightarrow> Inr (JObj (dset section (JObj [(field, JStr v)]) o1))
           | Some (JObj s) \<Rightarrow> Inr (JObj (dset section (JObj (dset field (JStr v) s)) o1))
           | Some (JList xs) \<Rightarrow> Inl (exc ''TypeError'' ''list indices must be integers or slices, not str'')
           | Some x \<Rightarrow> Inl (exc ''TypeError''
               (SQ # py_type x @ [SQ] @ '' object does not support item assignment'')))
      | _ \<Rightarrow> Inl (no_attr raw ''setdefault''))"

fun override_all :: "(string \<times> string \<times> string) list \<Rightarrow> env \<Rightarrow> json \<Rightarrow> json res" where
  "override_all [] src raw = Inr raw"
| "override_all ((key, section, field) # ms) src raw =
     (case src key of
        None \<Rightarrow> override_all ms src raw
      | Some v \<Rightarrow> res_bind (set_field section field v raw) (override_all ms src))"

definition apply_env_overrides :: "json \<Rightarrow> env \<Rightarrow> json res" where
  "apply_env_overrides raw src = override_all ENV_MAP src raw"

text \<open>
  \<open>validate\<close> is the constructor of the pydantic model: \<open>Inl\<close> the text of its error.  The expansion of
  a value that is no dictionary fails before.
\<close>

definition no_mapping :: "json \<Rightarrow> exn" where
  "no_mapping v = exc ''TypeError'' (''aegiscode.config.schema.AegisConfig() argument after ** must be a mapping, not '' @ py_type v)"

definition build_config :: "(json \<Rightarrow> string + aegis_config) \<Rightarrow> json \<Rightarrow> aegis_config res" where
  "build_config validate raw =
     (case raw of
        JObj _ \<Rightarrow> (case validate raw of Inl e \<Rightarrow> Inl (exc ''ConfigError'' e) | Inr c \<Rightarrow> Inr c)
      | _ \<Rightarrow> Inl (no_mapping raw))"

text \<open>\<open>safe_load\<close> is the YAML parser on the text of the file: \<open>Inl\<close> the text of a \<open>YAMLError\<close>.\<close>

definition load_config ::
  "(string \<Rightarrow> string + json) \<Rightarrow> (json \<Rightarrow> string + aegis_config) \<Rightarrow> string \<Rightarrow> env \<Rightarrow> aegis_config res" where
  "load_config safe_load validate text src =
     (case safe_load text of
        Inl e \<Rightarrow> Inl (exc ''ConfigError'' (''invalid YAML: '' @ e))
      | Inr raw \<Rightarrow>
          res_bind (apply_env_overrides (if truthy raw then raw else JObj []) src) (build_config validate))"

definition load_defaults :: "(json \<Rightarrow> string + aegis_config) \<Rightarrow> env \<Rightarrow> aegis_config res" where
  "load_defaults validate src = res_bind (apply_env_overrides (JObj []) src) (build_config validate)"

text \<open>The field of a section of a raw configuration\<close>

definition raw_field :: "json \<Rightarrow> string \<Rightarrow> string \<Rightarrow> json option" where
  "raw_field raw section field =
     (case raw of
        JObj o1 \<Rightarrow> (case dget o1 section of Some (JObj s) \<Rightarrow> dget s field | _ \<Rightarrow> None)
      | _ \<Rightarrow> None)"

lemma set_field_raw:
  assumes "set_field sec fld v raw = Inr raw'"
  shows "raw_field raw' sec' fld' = (if sec' = sec \<and> fld' = fld then Some (JStr v) else raw_field raw sec' fld')"
proof -
  obtain o1 where raw: "raw = JObj o1"
    using assms by (cases raw) (simp_all add: set_field_def)
  consider "dget o1 sec = None" "raw' = JObj (dset sec (JObj [(fld, JStr v)]) o1)"
    | s where "dget o1 sec = Some (JObj s)" "raw' = JObj (dset sec (JObj (dset fld (JStr v) s)) o1)"
    using assms by (cases "dget o1 sec"; cases "the (dget o1 sec)") (simp_all add: set_field_def raw)
  then show ?thesis
    by cases (simp_all add: raw raw_field_def update_conv')
qed

lemma override_all_field:
  assumes "override_all ms src raw = Inr raw'" and "distinct (map snd ms)"
  shows "raw_field raw' sec fld =
    (case map_of (map (\<lambda>(k, p). (p, k)) ms) (sec, fld) of
       Some k \<Rightarrow> (case src k of Some v \<Rightarrow> Some (JStr v) | None \<Rightarrow> raw_field raw sec fld)
     | None \<Rightarrow> raw_field raw sec fld)"
  using assms
proof (induction ms arbitrary: raw)
  case (Cons m ms)
  obtain k s f where m: "m = (k, s, f)" by (cases m)
  have fresh: "map_of (map (\<lambda>(k, p). (p, k)) ms) (s, f) = None"
    using Cons.prems(2) by (auto simp: m map_of_eq_None_iff image_iff)
  show ?case
  proof (cases "src k")
    case None
    with Cons fresh show ?thesis by (auto simp: m split: option.splits)
  next
    case (Some v)
    then obtain raw1 where "set_field s f v raw = Inr raw1" "override_all ms src raw1 = Inr raw'"
      using Cons.prems(1) by (auto simp: m elim: res_bind_InrE)
    with Cons.IH Cons.prems(2) Some fresh show ?thesis
      by (auto simp: m set_field_raw split: option.splits)
  qed
qed simp

end
