(* ===== verification/Command_Policy.thy ===== *)
theory Command_Policy
  imports Config_Schema "HOL-Library.Multiset"
begin

text \<open>
  The command judge (src/aegiscode/governance/command_lexer.py, command_rules.py): \<open>shlex.split\<close>
  as the state machine of the standard library (POSIX mode, split at white space, no comments),
  the lexer with its list of refused shell constructs, the normalisation of the program name, the
  matching of a rule and the choice of the most restrictive matching rule.  A command is the JSON
  value of the argument, so a call with a value that is not a string raises as in the code.
  In the interpreter pattern \<open>\d\<close> stands for the ASCII digits.
\<close>

section \<open>shlex.split\<close>

datatype lex_state = Blank | Word | Quoted char | Escaped "char option"

definition sh_space :: "char \<Rightarrow> bool" where
  "sh_space c \<longleftrightarrow> c \<in> {CHR '' '', CHR 0x09, CHR 0x0D, NL}"

definition cons_tok :: "string \<Rightarrow> string list res \<Rightarrow> string list res" where
  "cons_tok t r = (case r of Inl e \<Rightarrow> Inl e | Inr ts \<Rightarrow> Inr (t # ts))"

text \<open>
  The state, the token read so far and whether a quote was closed in it.  \<open>Escaped None\<close> is a
  backslash outside quotes, \<open>Escaped (Some q)\<close> one inside the quote \<open>q\<close>.
\<close>

fun sh_lex :: "lex_state \<Rightarrow> string \<Rightarrow> bool \<Rightarrow> string \<Rightarrow> string list res" where
  "sh_lex Blank tok q [] = Inr []"
| "sh_lex Word tok q [] = (if tok = [] \<and> \<not> q then Inr [] else Inr [tok])"
| "sh_lex (Quoted k) tok q [] = Inl (exc ''ValueError'' ''No closing quotation'')"
| "sh_lex (Escaped k) tok q [] = Inl (exc ''ValueError'' ''No escaped character'')"
| "sh_lex Blank tok q (c # s) =
     (if sh_space c then sh_lex Blank tok q s
      else if c = BSL then sh_lex (Escaped None) tok q s
      else if c = SQ \<or> c = DQ then sh_lex (Quoted c) tok q s
      else sh_lex Word [c] q s)"
| "sh_lex Word tok q (c # s) =
     (if sh_space c
      then (if tok \<noteq> [] \<or> q then cons_tok tok (sh_lex Blank [] False s) else sh_lex Blank tok q s)
      else if c = SQ \<or> c = DQ then sh_lex (Quoted c) tok q s
      else if c = BSL then sh_lex (Escaped None) tok q s
      else sh_lex Word (tok @ [c]) q s)"
| "sh_lex (Quoted k) tok q (c # s) =
     (if c = k then sh_lex Word tok True s
      else if c = BSL \<and> k = DQ then sh_lex (Escaped (Some k)) tok True s
      else sh_lex (Quoted k) (tok @ [c]) True s)"
| "sh_lex (Escaped None) tok q (c # s) = sh_lex Word (tok @ [c]) q s"
| "sh_lex (Escaped (Some k)) tok q (c # s) =
     sh_lex (Quoted k) ((if c \<noteq> BSL \<and> c \<noteq> k then tok @ [BSL] else tok) @ [c]) q s"

definition shlex_split :: "string \<Rightarrow> string list res" where
  "shlex_split s = sh_lex Blank [] False s"

section \<open>The lexer\<close>

record lex_result =
  lex_ok :: bool
  lex_argv :: "string list"
  lex_reason :: string
  has_metastructure :: bool

definition META :: "string list" where
  "META = [''&&'', ''||'', ''$('', ''>>'', ''|'', ''>'', ''<'', '';'', ''`'', ''&'', ''('', '')'',
     ''*'', ''?'', ''['', ''{'', [NL], [CHR 0x0D]]"

definition lex_failed :: "string \<Rightarrow> bool \<Rightarrow> lex_result" where
  "lex_failed r m = \<lparr>lex_ok = False, lex_argv = [], lex_reason = r, has_metastructure = m\<rparr>"

definition meta_refused :: "string \<Rightarrow> lex_result" where
  "meta_refused t = lex_failed (''shell metastructure '' @ py_repr t @ '' not allowed'') True"

definition lex_str :: "string \<Rightarrow> lex_result" where
  "lex_str s =
     (case find (\<lambda>t. str_in t s) META of
        Some t \<Rightarrow> meta_refused t
      | None \<Rightarrow>
          (case shlex_split s of
             Inl e \<Rightarrow> lex_failed (''lex error: '' @ exn_msg e) False
           | Inr argv \<Rightarrow>
               if argv = [] then lex_failed ''empty command'' False
               else \<lparr>lex_ok = True, lex_argv = argv, lex_reason = ''ok'', has_metastructure = False\<rparr>))"

text \<open>
  On a list or a dictionary the membership test looks at the elements or keys, and a value that
  passes it is handed to the \<open>shlex\<close> class, which fails to read from it.
\<close>

definition lex_command :: "json \<Rightarrow> lex_result res" where
  "lex_command command =
     (case command of
        JStr s \<Rightarrow> Inr (lex_str s)
      | JList xs \<Rightarrow>
          (case find (\<lambda>t. JStr t \<in> set xs) META of
             Some t \<Rightarrow> Inr (meta_refused t)
           | None \<Rightarrow> Inl (no_attr command ''read''))
      | JObj o1 \<Rightarrow>
          (case find (\<lambda>t. t \<in> fst ` set o1) META of
             Some t \<Rightarrow> Inr (meta_refused t)
           | None \<Rightarrow> Inl (no_attr command ''read''))
      | _ \<Rightarrow> Inl (not_iterable command))"

section \<open>The rules\<close>

record verdict =
  v_decision :: decision
  rule_id :: string
  v_reason :: string

definition mk_verdict :: "decision \<Rightarrow> string \<Rightarrow> string \<Rightarrow> verdict" where
  "mk_verdict d r t = \<lparr>v_decision = d, rule_id = r, v_reason = t\<rparr>"

text \<open>\<open>^(python)\d[\d.]*$\<close>, where \<open>$\<close> also matches before a final newline\<close>

definition chomp :: "string \<Rightarrow> string" where
  "chomp s = (if endswith s [NL] then butlast s else s)"

definition interp_version :: "string \<Rightarrow> bool" where
  "interp_version s \<longleftrightarrow> s \<noteq> [] \<and> is_digit (hd s) \<and> list_all (\<lambda>c. is_digit c \<or> c = CHR ''.'') s"

definition norm_argv0 :: "string \<Rightarrow> string" where
  "norm_argv0 a =
     (if startswith a ''python'' \<and> interp_version (chomp (drop 6 a)) then ''python'' else a)"

definition arg_matches :: "string \<Rightarrow> string \<Rightarrow> bool" where
  "arg_matches tok arg =
     (if \<not> startswith tok ''-'' then arg = tok
      else if startswith tok ''--''
      then (let argname = before (CHR ''='') arg in
            if \<not> startswith argname ''--'' then False
            else 2 < length argname \<and> startswith tok argname)
      else arg = tok \<or> (startswith arg tok \<and> \<not> startswith arg ''--''))"

definition rule_matches :: "command_rule \<Rightarrow> string \<Rightarrow> string list \<Rightarrow> bool" where
  "rule_matches rule norm args \<longleftrightarrow>
     norm_argv0 (rule_argv0 rule) = norm \<and>
     list_all (\<lambda>tok. list_ex (arg_matches tok) args) (args_contain rule)"

fun severity :: "decision \<Rightarrow> nat" where
  "severity ALLOW = 0"
| "severity ALLOW_WITH_AUDIT = 1"
| "severity REQUIRE_APPROVAL = 2"
| "severity DENY = 3"

type_synonym winner = "(nat \<times> nat \<times> decision \<times> string list) option"

fun pick :: "string \<Rightarrow> string list \<Rightarrow> nat \<Rightarrow> winner \<Rightarrow> command_rule list \<Rightarrow> winner" where
  "pick norm args i w [] = w"
| "pick norm args i w (rule # rules) =
     pick norm args (Suc i)
       (if rule_matches rule norm args \<and>
           (case w of None \<Rightarrow> True | Some (sev, _) \<Rightarrow> sev < severity (rule_decision rule))
        then Some (severity (rule_decision rule), i, rule_decision rule, args_contain rule)
        else w) rules"

definition judge_argv :: "string list \<Rightarrow> string list \<Rightarrow> command_rule list \<Rightarrow> verdict" where
  "judge_argv argv allowlist rules =
     (let argv0 = hd argv; args = tl argv in
      if argv0 \<notin> set allowlist then mk_verdict DENY ''CMD_ALLOWLIST'' (argv0 @ '' not in allowlist'')
      else (case pick (norm_argv0 argv0) args 0 None rules of
              Some (_, i, dec, contains) \<Rightarrow>
                mk_verdict dec (''CMD_RULE_'' @ str_of_int (int i))
                  (''rule matched: '' @ argv0 @ '' '' @ py_repr_list contains)
            | None \<Rightarrow> mk_verdict ALLOW ''CMD_DEFAULT_ALLOWED'' (argv0 @ '' allowed'')))"

definition judge_command :: "json \<Rightarrow> string list \<Rightarrow> command_rule list \<Rightarrow> verdict res" where
  "judge_command command allowlist rules =
     res_bind (lex_command command) (\<lambda>lr.
       Inr (if \<not> lex_ok lr then mk_verdict DENY ''CMD_STRUCT'' (lex_reason lr)
            else judge_argv (lex_argv lr) allowlist rules))"

section \<open>What the lexer delivers\<close>

lemma cons_tok_Inr: "cons_tok t r = Inr us \<longleftrightarrow> (\<exists>ts. r = Inr ts \<and> us = t # ts)"
  by (auto simp: cons_tok_def split: sum.splits)

definition toks_in :: "char set \<Rightarrow> string list res \<Rightarrow> bool" where
  "toks_in X r = (case r of Inl _ \<Rightarrow> True | Inr ts \<Rightarrow> \<forall>t \<in> set ts. set t \<subseteq> X)"

lemma toks_in_simps [simp]:
  "toks_in X (Inl e)" "toks_in X (Inr ts) \<longleftrightarrow> (\<forall>t \<in> set ts. set t \<subseteq> X)"
  "toks_in X (cons_tok t r) \<longleftrightarrow> (case r of Inl _ \<Rightarrow> True | Inr _ \<Rightarrow> set t \<subseteq> X) \<and> toks_in X r"
  by (auto simp: toks_in_def cons_tok_def split: sum.splits)

lemma toks_in_mono: "toks_in X r \<Longrightarrow> X \<subseteq> Y \<Longrightarrow> toks_in Y r"
  by (cases r) (simp, simp, blast)


text \<open>Every character of a word comes from the command; a pending backslash was read from it.\<close>

definition pending :: "lex_state \<Rightarrow> char set" where
  "pending st = (case st of Escaped _ \<Rightarrow> {BSL} | _ \<Rightarrow> {})"

lemma pending_simps [simp]:
  "pending Blank = {}" "pending Word = {}" "pending (Quoted k) = {}" "pending (Escaped e) = {BSL}"
  by (simp_all add: pending_def)

lemma sh_lex_chars: "set tok \<union> pending st \<union> set s \<subseteq> X \<Longrightarrow> toks_in X (sh_lex st tok q s)"
proof (induction st tok q s rule: sh_lex.induct)
  case (6 tok q c s)
  then show ?case by (auto split: sum.splits)
next
  case (9 k tok q c s)
  then show ?case by (cases "c \<noteq> BSL \<and> c \<noteq> k") auto
qed auto

lemma shlex_split_chars: "shlex_split s = Inr argv \<Longrightarrow> w \<in> set argv \<Longrightarrow> set w \<subseteq> set s"
  using sh_lex_chars [of "[]" Blank s "set s" False] by (simp add: shlex_split_def)

lemma str_in_single: "str_in [c] s \<longleftrightarrow> c \<in> set s"
  by (induction s) (auto simp: startswith_def)

lemma find_META_None:
  "find (\<lambda>t. str_in t s) META = None \<Longrightarrow> [c] \<in> set META \<Longrightarrow> c \<notin> set s"
  by (auto simp: find_None_iff str_in_single)

lemma lex_str_okD:
  assumes "lex_ok (lex_str s)"
  shows "shlex_split s = Inr (lex_argv (lex_str s))" "lex_argv (lex_str s) \<noteq> []"
    "find (\<lambda>t. str_in t s) META = None"
  using assms
  by (auto simp: lex_str_def lex_failed_def meta_refused_def split: option.splits sum.splits if_splits)

text \<open>A value that lexes is a string.\<close>

lemma lex_command_ok: "lex_command v = Inr lr \<Longrightarrow> lex_ok lr \<Longrightarrow> \<exists>s. v = JStr s \<and> lr = lex_str s"
  by (auto simp: lex_command_def meta_refused_def lex_failed_def split: json.splits option.splits)

text \<open>Words without special characters, joined by spaces, are split back.\<close>

definition plain_word :: "string \<Rightarrow> bool" where
  "plain_word w \<longleftrightarrow> w \<noteq> [] \<and> list_all (\<lambda>c. \<not> sh_space c \<and> c \<noteq> BSL \<and> c \<noteq> SQ \<and> c \<noteq> DQ) w"

lemma sh_lex_word:
  assumes "list_all (\<lambda>c. \<not> sh_space c \<and> c \<noteq> BSL \<and> c \<noteq> SQ \<and> c \<noteq> DQ) w"
  shows "sh_lex Word tok q (w @ s) = sh_lex Word (tok @ w) q s"
  using assms by (induction w arbitrary: tok) auto

lemma sh_lex_plain:
  assumes "plain_word w"
  shows "sh_lex Blank [] q (w @ s) = sh_lex Word w q s"
  using assms by (cases w) (auto simp: plain_word_def sh_lex_word)

lemma shlex_split_plain:
  assumes "list_all plain_word us"
  shows "shlex_split (join '' '' us) = Inr us"
proof -
  have "sh_lex Blank [] False (join '' '' us) = Inr us"
    using assms
  proof (induction us rule: induct_list012)
    case (2 w)
    then show ?case
      using sh_lex_plain [of w False "[]"] by (simp add: plain_word_def)
  next
    case (3 x y zs)
    then show ?case
      using sh_lex_plain [of x False "'' '' @ join '' '' (y # zs)"]
      by (simp add: plain_word_def sh_space_def cons_tok_def)
  qed simp
  then show ?thesis by (simp add: shlex_split_def)
qed

section \<open>The most restrictive rule wins\<close>

text \<open>The decisions of the matching rules, in order\<close>

definition matching :: "string \<Rightarrow> string list \<Rightarrow> command_rule list \<Rightarrow> decision list" where
  "matching norm args rules = map rule_decision (filter (\<lambda>r. rule_matches r norm args) rules)"

definition winner_sev :: "winner \<Rightarrow> nat" where
  "winner_sev w = (case w of None \<Rightarrow> 0 | Some (sev, _) \<Rightarrow> sev)"

definition winner_ok :: "winner \<Rightarrow> bool" where
  "winner_ok w = (case w of None \<Rightarrow> True | Some (sev, _, d, _) \<Rightarrow> sev = severity d)"

lemma severity_inj [simp]: "severity d = severity e \<longleftrightarrow> d = e"
  by (cases d; cases e) simp_all

lemma matching_Cons:
  "matching norm args (r # rs) =
     (if rule_matches r norm args then rule_decision r # matching norm args rs else matching norm args rs)"
  by (simp add: matching_def)

lemma pick_spec:
  assumes "winner_ok w"
  shows "winner_ok (pick norm args i w rules) \<and>
     (pick norm args i w rules = None \<longleftrightarrow> w = None \<and> matching norm args rules = []) \<and>
     winner_sev (pick norm args i w rules) =
       fold max (map severity (matching norm args rules)) (winner_sev w)"
  using assms
proof (induction norm args i w rules rule: pick.induct)
  case (2 norm args i w rule rules)
  then show ?case
    by (cases w) (auto simp: matching_Cons winner_ok_def winner_sev_def max_def)
qed (simp add: matching_def)

lemma pick_winner:
  "pick norm args i w rules = Some (sev, j, d, cs) \<Longrightarrow> w = Some (sev, j, d, cs) \<or>
     (i \<le> j \<and> j < i + length rules \<and>
      (let r = rules ! (j - i) in
         rule_matches r norm args \<and> d = rule_decision r \<and> cs = args_contain r \<and> sev = severity d))"
proof (induction norm args i w rules rule: pick.induct)
  case (2 norm args i w rule rules)
  show ?case
    using "2.IH" [OF "2.prems" [unfolded pick.simps]]
    by (auto simp: Let_def nth_Cons' split: if_splits)
qed simp

text \<open>
  The verdict on a word list: its decision is the maximum in severity over the matching rules,
  whatever their order, and with no match the default.
\<close>

definition most_restrictive :: "decision list \<Rightarrow> decision" where
  "most_restrictive ds = foldr (\<lambda>d e. if severity e < severity d then d else e) ds ALLOW"

lemma severity_most_restrictive: "severity (most_restrictive ds) = fold max (map severity ds) 0"
proof -
  have "severity (most_restrictive ds) = foldr max (map severity ds) 0"
    by (induction ds) (auto simp: most_restrictive_def)
  also have "\<dots> = fold max (map severity ds) 0"
    by (subst foldr_fold) (auto simp: fun_eq_iff max.left_commute)
  finally show ?thesis .
qed

lemma judge_argv_decision:
  "v_decision (judge_argv argv allowlist rules) =
     (if hd argv \<notin> set allowlist then DENY
      else most_restrictive (matching (norm_argv0 (hd argv)) (tl argv) rules))"
proof -
  let ?n = "norm_argv0 (hd argv)" and ?a = "tl argv"
  have spec: "winner_ok (pick ?n ?a 0 None rules)"
    "pick ?n ?a 0 None rules = None \<longleftrightarrow> matching ?n ?a rules = []"
    "winner_sev (pick ?n ?a 0 None rules) = severity (most_restrictive (matching ?n ?a rules))"
    using pick_spec [of None ?n ?a 0 rules]
    by (simp_all add: winner_ok_def winner_sev_def severity_most_restrictive)
  show ?thesis
  proof (cases "pick ?n ?a 0 None rules")
    case None
    with spec(2) show ?thesis by (simp add: judge_argv_def Let_def mk_verdict_def most_restrictive_def)
  next
    case (Some w)
    then obtain sev i d cs where w: "pick ?n ?a 0 None rules = Some (sev, i, d, cs)" by (cases w) auto
    with spec(1,3) have "severity d = severity (most_restrictive (matching ?n ?a rules))"
      by (simp add: winner_ok_def winner_sev_def)
    with w show ?thesis by (simp add: judge_argv_def Let_def mk_verdict_def)
  qed
qed

lemma fold_max_mset: "mset xs = mset ys \<Longrightarrow> fold max xs (a::nat) = fold max ys a"
  by (rule fold_permuted_eq [where P = "\<lambda>_. True"]) (auto simp: max.left_commute)

lemma most_restrictive_mset:
  assumes "mset ds = mset es"
  shows "most_restrictive ds = most_restrictive es"
proof -
  have "severity (most_restrictive ds) = severity (most_restrictive es)"
    using fold_max_mset [of "map severity ds" "map severity es" 0] assms
    by (simp add: severity_most_restrictive mset_map)
  then show ?thesis by simp
qed

lemma most_restrictive_ge: "d \<in> set ds \<Longrightarrow> severity d \<le> severity (most_restrictive ds)"
  by (induction ds) (auto simp: most_restrictive_def)

lemma most_restrictive_in: "most_restrictive ds = ALLOW \<or> most_restrictive ds \<in> set ds"
  by (induction ds) (auto simp: most_restrictive_def)

lemma matching_mset: "mset rs = mset rs' \<Longrightarrow> mset (matching n a rs) = mset (matching n a rs')"
  by (simp add: matching_def mset_map mset_filter)

section \<open>Properties of the command judge\<close>

definition meta_chars :: "char set" where
  "meta_chars = {c. [c] \<in> set META}"

lemma lex_command_okE:
  assumes "lex_command v = Inr lr" and "lex_ok lr"
  obtains s where "v = JStr s" "shlex_split s = Inr (lex_argv lr)" "lex_argv lr \<noteq> []"
    "set s \<inter> meta_chars = {}"
proof -
  obtain s where s: "v = JStr s" "lr = lex_str s" using lex_command_ok assms by blast
  have ok: "lex_ok (lex_str s)" using assms s by simp
  show thesis
    using that [OF s(1)] lex_str_okD [OF ok] find_META_None s(2) by (auto simp: meta_chars_def)
qed

lemma judge_command_cases:
  assumes "judge_command v al rules = Inr vd"
  obtains (refused) r where "vd = mk_verdict DENY ''CMD_STRUCT'' r"
    | (judged) s argv where "v = JStr s" "shlex_split s = Inr argv" "argv \<noteq> []"
        "set s \<inter> meta_chars = {}" "vd = judge_argv argv al rules"
proof -
  obtain lr where lr: "lex_command v = Inr lr"
    and vd: "vd = (if \<not> lex_ok lr then mk_verdict DENY ''CMD_STRUCT'' (lex_reason lr)
      else judge_argv (lex_argv lr) al rules)"
    using assms by (auto simp: judge_command_def elim!: res_bind_InrE)
  show thesis
  proof (cases "lex_ok lr")
    case False
    with vd show thesis using refused by simp
  next
    case True
    with lr vd show thesis using judged by (elim lex_command_okE) auto
  qed
qed

lemma judge_deny_rule:
  assumes "shlex_split s = Inr argv" and "r \<in> set rules" and "rule_decision r = DENY"
    and "rule_matches r (norm_argv0 (hd argv)) (tl argv)"
  shows "\<exists>vd. judge_command (JStr s) al rules = Inr vd \<and> v_decision vd = DENY"
proof (cases "lex_ok (lex_str s)")
  case True
  have argv: "lex_argv (lex_str s) = argv" using lex_str_okD(1) [OF True] assms(1) by simp
  have "DENY \<in> set (matching (norm_argv0 (hd argv)) (tl argv) rules)"
    using assms by (force simp: matching_def)
  from most_restrictive_ge [OF this]
  have "most_restrictive (matching (norm_argv0 (hd argv)) (tl argv) rules) = DENY"
    by (cases "most_restrictive (matching (norm_argv0 (hd argv)) (tl argv) rules)") simp_all
  with True argv show ?thesis by (simp add: judge_command_def lex_command_def judge_argv_decision)
qed (simp add: judge_command_def lex_command_def mk_verdict_def)

lemma str_in_chars: "str_in t s \<Longrightarrow> set t \<subseteq> set s"
  by (auto simp: str_in_iff_sublist dest: set_mono_sublist)

lemma META_chars: "t \<in> set META \<Longrightarrow> \<exists>c \<in> set t. c \<in> meta_chars"
proof -
  have "list_all (list_ex (\<lambda>c. [c] \<in> set META)) META" by code_simp
  then show "t \<in> set META \<Longrightarrow> \<exists>c \<in> set t. c \<in> meta_chars"
    by (auto simp: list_all_iff list_ex_iff meta_chars_def)
qed

text \<open>
  C6: A command that is not denied is a string that splits into words; its program is in the
  allow-list, none of its words holds a shell metacharacter, and no rule that matches it is more
  severe than the verdict.
\<close>

theorem judge_command_fail_closed:
  assumes "judge_command v allowlist rules = Inr vd" and "v_decision vd \<noteq> DENY"
  shows "\<exists>s argv. v = JStr s \<and> shlex_split s = Inr argv \<and> argv \<noteq> [] \<and> hd argv \<in> set allowlist \<and>
     (\<forall>w \<in> set argv. set w \<inter> meta_chars = {}) \<and>
     (\<forall>r \<in> set rules. rule_matches r (norm_argv0 (hd argv)) (tl argv) \<longrightarrow>
        severity (rule_decision r) \<le> severity (v_decision vd))"
  using assms(1)
proof (cases rule: judge_command_cases)
  case (judged s argv)
  have d: "hd argv \<in> set allowlist"
    "v_decision vd = most_restrictive (matching (norm_argv0 (hd argv)) (tl argv) rules)"
    using judged(5) assms(2) by (simp_all add: judge_argv_decision split: if_splits)
  moreover have "\<forall>w \<in> set argv. set w \<inter> meta_chars = {}"
    using shlex_split_chars [OF judged(2)] judged(4) by blast
  ultimately show ?thesis
    using judged(1-3) by (auto simp: matching_def intro!: exI [of _ s] exI [of _ argv] most_restrictive_ge)
qed (use assms(2) in \<open>simp add: mk_verdict_def\<close>)

theorem judge_command_fail_closed_witness:
  "\<exists>s argv. JStr ''git commit -m x'' = JStr s \<and> shlex_split s = Inr argv \<and> argv \<noteq> [] \<and>
     hd argv \<in> set (command_allowlist default_governance) \<and>
     (\<forall>w \<in> set argv. set w \<inter> meta_chars = {}) \<and>
     (\<forall>r \<in> set DEFAULT_COMMAND_RULES. rule_matches r (norm_argv0 (hd argv)) (tl argv) \<longrightarrow>
        severity (rule_decision r) \<le> severity REQUIRE_APPROVAL)"
proof -
  have "judge_command (JStr ''git commit -m x'') (command_allowlist default_governance) DEFAULT_COMMAND_RULES
    = Inr \<lparr>v_decision = REQUIRE_APPROVAL, rule_id = ''CMD_RULE_3'',
        v_reason = ''rule matched: git ['' @ SQ # ''commit'' @ [SQ] @ '']''\<rparr>"
    by code_simp
  from judge_command_fail_closed [OF this] show ?thesis by simp
qed

text \<open>
  The decision does not depend on the order of the rules: rearranging the list changes at
  most the rule that is named.
\<close>

theorem judge_command_order:
  assumes "mset rules = mset rules'"
  shows "map_sum id v_decision (judge_command v allowlist rules) =
     map_sum id v_decision (judge_command v allowlist rules')"
proof (cases "lex_command v")
  case (Inr lr)
  with most_restrictive_mset [OF matching_mset [OF assms]] show ?thesis
    by (simp add: judge_command_def judge_argv_decision)
qed (simp add: judge_command_def)

theorem judge_command_order_witness:
  "map_sum id v_decision (judge_command (JStr ''git reset --har HEAD'') [''git''] DEFAULT_COMMAND_RULES) =
   map_sum id v_decision (judge_command (JStr ''git reset --har HEAD'') [''git''] (rev DEFAULT_COMMAND_RULES))"
  by (rule judge_command_order) simp

text \<open>The built-in rules, one by one\<close>

lemma norm_argv0_id: "norm_argv0 n = n \<Longrightarrow> n \<noteq> ''python'' \<Longrightarrow> n = norm_argv0 a \<longleftrightarrow> a = n"
  by (metis norm_argv0_def)

lemma hard_option: "arg_matches ''--hard'' a \<longleftrightarrow> before (CHR ''='') a \<in> {''--h'', ''--ha'', ''--har'', ''--hard''}"
proof -
  have "startswith ''--hard'' n \<and> 2 < length n \<and> startswith n ''--'' \<longleftrightarrow> n \<in> {''--h'', ''--ha'', ''--har'', ''--hard''}" for n
    by (auto simp: startswith_iff_prefix prefix_Cons)
  then show ?thesis by (auto simp: arg_matches_def startswith_def Let_def)
qed

lemma short_option: "arg_matches [CHR ''-'', c] a \<longleftrightarrow> startswith a [CHR ''-'', c]" if "c \<noteq> CHR ''-''"
  using that by (cases a; cases "tl a") (auto simp: arg_matches_def startswith_def)

lemma word_rule: "\<not> startswith t ''-'' \<Longrightarrow> arg_matches t a \<longleftrightarrow> a = t"
  by (simp add: arg_matches_def)

lemma most_restrictive_iff: "most_restrictive ds =
    (if DENY \<in> set ds then DENY else if REQUIRE_APPROVAL \<in> set ds then REQUIRE_APPROVAL
     else if ALLOW_WITH_AUDIT \<in> set ds then ALLOW_WITH_AUDIT else ALLOW)"
proof (induction ds)
  case (Cons d ds)
  then show ?case by (cases d) (simp_all add: most_restrictive_def)
qed (simp add: most_restrictive_def)

lemma matching_in: "d \<in> set (matching norm args rules) \<longleftrightarrow> (\<exists>r \<in> set rules. rule_decision r = d \<and> rule_matches r norm args)"
  by (auto simp: matching_def)

text \<open>
  C12: What the built-in rules decide on a word list of an allow-listed program, exactly.  Denied are
  a program of the interpreter family with an argument that begins with \<open>-c\<close> or \<open>-m\<close> (not one that
  holds them in a cluster, \<open>clustered_option_allowed\<close>), \<open>git\<close> with the word \<open>push\<close> or \<open>clean\<close>, and \<open>git\<close> with
  \<open>reset\<close> and \<open>--hard\<close> in any abbreviation; \<open>git commit\<close> and \<open>pip install\<close> ask for an approval; everything
  else is allowed.
\<close>

theorem default_rules_decide:
  assumes "lex_command (JStr s) = Inr lr" and "lex_ok lr" and "lex_argv lr = argv0 # args" and "argv0 \<in> set allowlist"
  shows "map_sum id v_decision (judge_command (JStr s) allowlist DEFAULT_COMMAND_RULES) = Inr
    (if norm_argv0 argv0 = ''python'' \<and> (\<exists>a \<in> set args. startswith a ''-c'' \<or> startswith a ''-m'') \<or>
        argv0 = ''git'' \<and> (''push'' \<in> set args \<or> ''clean'' \<in> set args \<or>
          ''reset'' \<in> set args \<and> (\<exists>a \<in> set args. before (CHR ''='') a \<in> {''--h'', ''--ha'', ''--har'', ''--hard''}))
     then DENY
     else if argv0 = ''git'' \<and> ''commit'' \<in> set args \<or> argv0 = ''pip'' \<and> ''install'' \<in> set args
     then REQUIRE_APPROVAL else ALLOW)"
proof -
  have norm: "norm_argv0 ''python'' = ''python''" "norm_argv0 ''git'' = ''git''" "norm_argv0 ''pip'' = ''pip''" by code_simp+
  have prog: "''git'' = norm_argv0 argv0 \<longleftrightarrow> argv0 = ''git''" "''pip'' = norm_argv0 argv0 \<longleftrightarrow> argv0 = ''pip''"
    "''python'' = norm_argv0 argv0 \<longleftrightarrow> norm_argv0 argv0 = ''python''"
    using norm_argv0_id [OF norm(2)] norm_argv0_id [OF norm(3)] by (simp, simp, metis)
  have word: "Bex (set args) (arg_matches t) \<longleftrightarrow> t \<in> set args" if "\<not> startswith t ''-''" for t
    using that by (auto simp: arg_matches_def)
  have plain: "\<not> startswith ''push'' ''-''" "\<not> startswith ''clean'' ''-''" "\<not> startswith ''reset'' ''-''" "\<not> startswith ''commit'' ''-''"
    "\<not> startswith ''install'' ''-''" by (simp_all add: startswith_def)
  note words = plain [THEN word]
  have c: "arg_matches ''-c'' a \<longleftrightarrow> startswith a ''-c''" "arg_matches ''-m'' a \<longleftrightarrow> startswith a ''-m''" for a
    by (rule short_option, simp)+
  have opts: "Bex (set args) (arg_matches ''-c'') \<longleftrightarrow> (\<exists>a \<in> set args. startswith a ''-c'')"
    "Bex (set args) (arg_matches ''-m'') \<longleftrightarrow> (\<exists>a \<in> set args. startswith a ''-m'')"
    "Bex (set args) (arg_matches ''--hard'') \<longleftrightarrow> (\<exists>a \<in> set args. before (CHR ''='') a \<in> {''--h'', ''--ha'', ''--har'', ''--hard''})"
    by (simp_all only: Bex_def hard_option c)
  have m: "rule_matches (mk_rule p ts d) (norm_argv0 argv0) args \<longleftrightarrow> norm_argv0 p = norm_argv0 argv0 \<and> (\<forall>t \<in> set ts. Bex (set args) (arg_matches t))" for p ts d
    by (simp add: rule_matches_def mk_rule_def list_all_iff list_ex_iff)
  have sel: "rule_decision (mk_rule p ts d) = d" for p ts d by (simp add: mk_rule_def)
  let ?m = "set (matching (norm_argv0 argv0) args DEFAULT_COMMAND_RULES)"
  have in_m: "d \<in> ?m \<longleftrightarrow> (\<exists>r \<in> set DEFAULT_COMMAND_RULES. rule_decision r = d \<and> rule_matches r (norm_argv0 argv0) args)" for d
    by (rule matching_in)
  have "DENY \<in> ?m \<longleftrightarrow> norm_argv0 argv0 = ''python'' \<and> (\<exists>a \<in> set args. startswith a ''-c'' \<or> startswith a ''-m'') \<or>
        argv0 = ''git'' \<and> (''push'' \<in> set args \<or> ''clean'' \<in> set args \<or>
          ''reset'' \<in> set args \<and> (\<exists>a \<in> set args. before (CHR ''='') a \<in> {''--h'', ''--ha'', ''--har'', ''--hard''}))"
    unfolding in_m by (simp only: DEFAULT_COMMAND_RULES_def list.set bex_simps sel m norm prog words opts decision.distinct simp_thms ball_simps
      bex_disj_distrib) blast
  moreover have "REQUIRE_APPROVAL \<in> ?m \<longleftrightarrow> argv0 = ''git'' \<and> ''commit'' \<in> set args \<or> argv0 = ''pip'' \<and> ''install'' \<in> set args"
    unfolding in_m by (simp only: DEFAULT_COMMAND_RULES_def list.set bex_simps sel m norm prog words decision.distinct simp_thms ball_simps)
  moreover have "ALLOW_WITH_AUDIT \<notin> ?m"
    unfolding in_m by (simp only: DEFAULT_COMMAND_RULES_def list.set bex_simps sel decision.distinct simp_thms not_False_eq_True)
  moreover have "map_sum id v_decision (judge_command (JStr s) allowlist DEFAULT_COMMAND_RULES) =
      Inr (most_restrictive (matching (norm_argv0 argv0) args DEFAULT_COMMAND_RULES))"
    using assms by (simp add: judge_command_def judge_argv_decision)
  ultimately show ?thesis by (simp only: most_restrictive_iff if_False)
qed

theorem default_rules_decide_witness:
  "map_sum id v_decision (judge_command (JStr ''python3.12 -cprint'') [''python3.12''] DEFAULT_COMMAND_RULES) = Inr DENY"
proof -
  have 1: "lex_command (JStr ''python3.12 -cprint'') =
      Inr \<lparr>lex_ok = True, lex_argv = [''python3.12'', ''-cprint''], lex_reason = ''ok'', has_metastructure = False\<rparr>"
    and 2: "norm_argv0 ''python3.12'' = ''python''" and 3: "startswith ''-cprint'' ''-c''" by code_simp+
  from default_rules_decide [OF 1, of "''python3.12''" "[''-cprint'']" "[''python3.12'']"] 2 3 show ?thesis by simp
qed

text \<open>
  A list of words without spaces, quotes, backslashes and metacharacters that is joined by
  spaces is lexed into the same words.
\<close>

theorem lex_command_roundtrip:
  assumes "us \<noteq> []" and "list_all plain_word us" and "\<forall>w \<in> set us. set w \<inter> meta_chars = {}"
  shows "lex_command (JStr (join '' '' us)) =
     Inr \<lparr>lex_ok = True, lex_argv = us, lex_reason = ''ok'', has_metastructure = False\<rparr>"
proof -
  have "set (join '' '' us) \<subseteq> insert CHR '' '' (\<Union> (set ` set us))" for us
    by (induction us rule: induct_list012) auto
  moreover have "CHR '' '' \<notin> meta_chars" by (simp add: meta_chars_def META_def)
  ultimately have "set (join '' '' us) \<inter> meta_chars = {}" using assms(3) by blast
  then have "find (\<lambda>t. str_in t (join '' '' us)) META = None"
    using str_in_chars META_chars by (fastforce simp: find_None_iff)
  with assms show ?thesis
    by (simp add: lex_command_def lex_str_def shlex_split_plain)
qed

theorem lex_command_roundtrip_witness:
  "lex_command (JStr (join '' '' [''pytest'', ''-q''])) =
     Inr \<lparr>lex_ok = True, lex_argv = [''pytest'', ''-q''], lex_reason = ''ok'', has_metastructure = False\<rparr>"
  by (rule lex_command_roundtrip) (simp_all add: plain_word_def sh_space_def meta_chars_def META_def)

text \<open>
  A short option inside a cluster is not seen by the rules: \<open>python -Ic code\<close>, which the
  interpreter runs as inline code, is allowed by the built-in rules.
\<close>

theorem clustered_option_allowed:
  "judge_command (JStr ''python -Ic code'') (command_allowlist default_governance)
     (command_rules default_governance) = Inr (mk_verdict ALLOW ''CMD_DEFAULT_ALLOWED'' ''python allowed'')"
proof -
  have "lex_str ''python -Ic code'' =
     \<lparr>lex_ok = True, lex_argv = [''python'', ''-Ic'', ''code''], lex_reason = ''ok'', has_metastructure = False\<rparr>"
    by code_simp
  moreover have "judge_argv [''python'', ''-Ic'', ''code'']
      (command_allowlist default_governance) DEFAULT_COMMAND_RULES =
     mk_verdict ALLOW ''CMD_DEFAULT_ALLOWED'' ''python allowed''"
    by code_simp
  ultimately show ?thesis
    by (simp add: judge_command_def lex_command_def) (simp add: default_governance_def)
qed
end
