(* ===== verification/Tools.thy ===== *)
theory Tools
  imports Path_Fence Command_Policy
begin

text \<open>
  The tools (src/aegiscode/tools/*.py): the result record, the seven tools and the registry.
  A tool runs in a state that extends \<open>os_state\<close>: the file system, the working directory of the
  server and a counter of the processes started.  What a started process does (its output, its
  exit code and its effect on the files) is the field \<open>exec\<close> of the environment; the text of an
  operating-system error is the field \<open>os_error_text\<close>.  File names are valid UTF-8.
\<close>

record os_state =
  os_fs :: fs
  os_cwd :: path
  os_procs :: nat

datatype proc_result =
    Exited string string int   \<comment> \<open>standard output, standard error, return code\<close>
  | TimedOut
  | ProcRaised exn

record os_env =
  exec :: "nat \<Rightarrow> string list \<Rightarrow> string \<Rightarrow> int \<Rightarrow> fs \<Rightarrow> proc_result \<times> fs"
  os_error_text :: "string \<Rightarrow> string"

text \<open>\<open>subprocess.run(argv, shell=False, cwd=cwd, timeout=t)\<close>\<close>

definition run_process :: "os_env \<Rightarrow> string list \<Rightarrow> string \<Rightarrow> int \<Rightarrow> 's os_state_scheme \<Rightarrow>
    proc_result \<times> 's os_state_scheme" where
  "run_process E argv dir t s =
     (let (r, fs') = exec E (os_procs s) argv dir t (os_fs s)
      in (r, s\<lparr>os_fs := fs', os_procs := Suc (os_procs s)\<rparr>))"

section \<open>Results\<close>

datatype status = Success | Failure | Denied | Error

fun status_value :: "status \<Rightarrow> string" where
  "status_value Success = ''success''"
| "status_value Failure = ''failure''"
| "status_value Denied = ''denied''"
| "status_value Error = ''error''"

datatype category =
    TEST_FAILURE | TOOL_ERROR | POLICY_DENIED | APPROVAL_REJECTED | INVALID_ACTION
  | TIMEOUT_CAT | NO_PROGRESS_CAT | INTERNAL_ERROR_CAT

fun category_value :: "category \<Rightarrow> string" where
  "category_value TEST_FAILURE = ''TEST_FAILURE''"
| "category_value TOOL_ERROR = ''TOOL_ERROR''"
| "category_value POLICY_DENIED = ''POLICY_DENIED''"
| "category_value APPROVAL_REJECTED = ''APPROVAL_REJECTED''"
| "category_value INVALID_ACTION = ''INVALID_ACTION''"
| "category_value TIMEOUT_CAT = ''TIMEOUT''"
| "category_value NO_PROGRESS_CAT = ''NO_PROGRESS''"
| "category_value INTERNAL_ERROR_CAT = ''INTERNAL_ERROR''"

record tool_result =
  r_tool :: string
  r_status :: status
  r_summary :: string
  r_category :: "category option"
  detail_for_llm :: string
  exit_code :: "int option"
  duration_ms :: int
  truncated :: bool
  artifacts :: args

definition mk_result :: "string \<Rightarrow> status \<Rightarrow> category option \<Rightarrow> string \<Rightarrow> tool_result" where
  "mk_result t st cat sm = \<lparr>r_tool = t, r_status = st, r_summary = sm, r_category = cat,
     detail_for_llm = [], exit_code = None, duration_ms = 0, truncated = False, artifacts = []\<rparr>"

record ctx =
  task_id :: string
  workspace_root :: string
  write_max_bytes :: int

section \<open>Python file operations\<close>

abbreviation os_error :: "string \<Rightarrow> exn" where "os_error t \<equiv> exc ''OSError'' t"

definition null_byte :: exn where "null_byte = exc ''ValueError'' ''embedded null byte''"

abbreviation file_exists :: "string \<Rightarrow> exn" where "file_exists t \<equiv> exc ''FileExistsError'' t"

text \<open>\<open>OSError\<close> and its subclasses in the language\<close>

definition OS_ERRORS :: "string list" where
  "OS_ERRORS = [''OSError'', ''BlockingIOError'', ''ChildProcessError'', ''ConnectionError'', ''BrokenPipeError'',
     ''ConnectionAbortedError'', ''ConnectionRefusedError'', ''ConnectionResetError'', ''FileExistsError'', ''FileNotFoundError'',
     ''InterruptedError'', ''IsADirectoryError'', ''NotADirectoryError'', ''PermissionError'', ''ProcessLookupError'', ''TimeoutError'']"

definition is_os_error :: "exn \<Rightarrow> bool" where
  "is_os_error e \<longleftrightarrow> exn_class e \<in> set OS_ERRORS"

text \<open>\<open>os.mkdir\<close>, \<open>os.path.exists\<close>, \<open>os.path.isdir\<close>\<close>

definition mkdir :: "os_env \<Rightarrow> string \<Rightarrow> ('s os_state_scheme, unit) eff" where
  "mkdir E name s =
     (if NUL \<in> set name then (Inl null_byte, s)
      else (case resolve_create (os_fs s) (os_cwd s) (rstrip_chars ''/'' name) of
              None \<Rightarrow> (Inl (os_error (os_error_text E name)), s)
            | Some q \<Rightarrow>
                if lstat (os_fs s) q = None \<and> \<not> islink (os_fs s) (os_cwd s) (rstrip_chars ''/'' name)
                then (Inr (), s\<lparr>os_fs := (q, Dir) # os_fs s\<rparr>)
                else (Inl (file_exists (os_error_text E name)), s)))"

definition exists_py :: "'s os_state_scheme \<Rightarrow> string \<Rightarrow> bool" where
  "exists_py s name \<longleftrightarrow> NUL \<notin> set name \<and> path_exists (os_fs s) (os_cwd s) name"

definition isdir_py :: "'s os_state_scheme \<Rightarrow> string \<Rightarrow> bool" where
  "isdir_py s name \<longleftrightarrow> NUL \<notin> set name \<and>
     (case resolve (os_fs s) (os_cwd s) name of None \<Rightarrow> False | Some q \<Rightarrow> lstat (os_fs s) q = Some Dir)"

text \<open>
  \<open>os.makedirs(name, exist_ok=True)\<close>: first the missing parent, then the directory itself.  The
  recursion shortens the name, so its length is enough fuel.
\<close>

definition mkdir_ok :: "os_env \<Rightarrow> string \<Rightarrow> ('s os_state_scheme, unit) eff" where
  "mkdir_ok E name =
     catch (mkdir E name) (\<lambda>e s. if is_os_error e \<and> isdir_py s name then (Inr (), s) else (Inl e, s))"

fun makedirs :: "nat \<Rightarrow> os_env \<Rightarrow> string \<Rightarrow> ('s os_state_scheme, unit) eff" where
  "makedirs 0 E name s = (Inr (), s)"
| "makedirs (Suc n) E name s =
     (let path = (if basename name = [] then dirname name else name);
          head = dirname path;
          tail = basename path
      in if head \<noteq> [] \<and> tail \<noteq> [] \<and> \<not> exists_py s head
         then (case makedirs n E head s of
                 (Inl e, s1) \<Rightarrow>
                   if exn_class e = ''FileExistsError''
                   then (if tail = ''.'' then (Inr (), s1) else mkdir_ok E name s1)
                   else (Inl e, s1)
               | (Inr _, s1) \<Rightarrow> if tail = ''.'' then (Inr (), s1) else mkdir_ok E name s1)
         else mkdir_ok E name s)"

text \<open>\<open>open(path, "rb").read()\<close> and \<open>open(path, "w").write(text)\<close>\<close>

definition read_bytes :: "os_env \<Rightarrow> string \<Rightarrow> ('s os_state_scheme, string) eff" where
  "read_bytes E path s =
     (if NUL \<in> set path then (Inl null_byte, s)
      else (case resolve (os_fs s) (os_cwd s) path of
              None \<Rightarrow> (Inl (os_error (os_error_text E path)), s)
            | Some q \<Rightarrow>
                (case lstat (os_fs s) q of
                   Some (File b) \<Rightarrow> (Inr b, s)
                 | _ \<Rightarrow> (Inl (os_error (os_error_text E path)), s))))"

definition write_text :: "os_env \<Rightarrow> string \<Rightarrow> string \<Rightarrow> ('s os_state_scheme, unit) eff" where
  "write_text E path content s =
     (if NUL \<in> set path then (Inl null_byte, s)
      else (case resolve_create (os_fs s) (os_cwd s) path of
              None \<Rightarrow> (Inl (os_error (os_error_text E path)), s)
            | Some q \<Rightarrow>
                if lstat (os_fs s) q = Some Dir then (Inl (os_error (os_error_text E path)), s)
                else (Inr (), s\<lparr>os_fs := AList.update q (File content) (os_fs s)\<rparr>)))"

text \<open>The entries of a directory, and the files \<open>os.walk\<close> visits below it.\<close>

definition children :: "fs \<Rightarrow> path \<Rightarrow> string list" where
  "children fs p = map (\<lambda>(q, _). last q) (filter (\<lambda>(q, _). q \<noteq> [] \<and> butlast q = p) fs)"

definition list_dir :: "os_env \<Rightarrow> string \<Rightarrow> ('s os_state_scheme, string list) eff" where
  "list_dir E path s =
     (if NUL \<in> set path then (Inl null_byte, s)
      else (case resolve (os_fs s) (os_cwd s) path of
              None \<Rightarrow> (Inl (os_error (os_error_text E path)), s)
            | Some q \<Rightarrow>
                if lstat (os_fs s) q = Some Dir then (Inr (children (os_fs s) q), s)
                else (Inl (os_error (os_error_text E path)), s)))"

definition dir_entry :: "fs \<Rightarrow> path \<Rightarrow> bool" where
  "dir_entry fs q \<longleftrightarrow>
     (case resolve fs [] (abs_str q) of None \<Rightarrow> False | Some r \<Rightarrow> lstat fs r = Some Dir)"

text \<open>
  Links to directories are listed as directories and not entered.  A directory tree is at most as
  deep as the file system has entries, which is the fuel.
\<close>

fun walk_files :: "nat \<Rightarrow> fs \<Rightarrow> path \<Rightarrow> path list" where
  "walk_files 0 fs p = []"
| "walk_files (Suc n) fs p =
     (let qs = map (\<lambda>s. p @ [s]) (children fs p) in
      filter (\<lambda>q. \<not> dir_entry fs q) qs @
      concat (map (walk_files n fs) (filter (\<lambda>q. lstat fs q = Some Dir) qs)))"

section \<open>Decoding bytes\<close>

text \<open>
  \<open>raw.decode(errors="replace")\<close>: each longest prefix of a malformed sequence becomes U+FFFD.
  \<open>seq_len\<close> gives the bytes taken and whether they are a character.
\<close>

definition cont :: "char \<Rightarrow> bool" where
  "cont c \<longleftrightarrow> (128::nat) \<le> of_char c \<and> of_char c < (192::nat)"

definition second_ok :: "nat \<Rightarrow> char \<Rightarrow> bool" where
  "second_ok b c = (let x = (of_char c :: nat) in
     128 \<le> x \<and> x < 192 \<and> (b = 224 \<longrightarrow> 160 \<le> x) \<and> (b = 237 \<longrightarrow> x < 160) \<and>
     (b = 240 \<longrightarrow> 144 \<le> x) \<and> (b = 244 \<longrightarrow> x < 144))"

fun seq_len :: "string \<Rightarrow> nat \<times> bool" where
  "seq_len [] = (0, True)"
| "seq_len (a # s) =
     (let b = (of_char a :: nat);
          need = (if b < 128 then 0 else if 194 \<le> b \<and> b < 224 then 1 else if 224 \<le> b \<and> b < 240 then 2
                  else if 240 \<le> b \<and> b < 245 then 3 else (4::nat))
      in if need = 0 then (1, True)
         else if need = 4 \<or> s = [] \<or> \<not> second_ok b (hd s) then (1, False)
         else (let k = length (takeWhile cont (take (need - 1) (tl s)))
               in (2 + k, k = need - 1)))"

definition REPLACEMENT :: string where
  "REPLACEMENT = [CHR 0xEF, CHR 0xBF, CHR 0xBD]"

function decode_replace :: "string \<Rightarrow> string" where
  "decode_replace [] = []"
| "decode_replace (a # s) =
     (let (n, ok) = seq_len (a # s)
      in (if ok then take n (a # s) else REPLACEMENT) @ decode_replace (drop n (a # s)))"
  by pat_completeness auto
termination
  by (relation "measure length") (auto simp: Let_def split: if_splits)

text \<open>\<open>s[:n]\<close> counted in code points, for any integer \<open>n\<close>\<close>

definition slice_to :: "int \<Rightarrow> string \<Rightarrow> string" where
  "slice_to n s = utake (if n < 0 then nat (int (ulen s) + n) else nat n) s"

section \<open>The tools\<close>

definition need_str :: "json \<Rightarrow> exn \<Rightarrow> string res" where
  "need_str v e = (case v of JStr s \<Rightarrow> Inr s | _ \<Rightarrow> Inl e)"

definition not_path :: "json \<Rightarrow> exn" where
  "not_path v = exc ''TypeError'' (''expected str, bytes or os.PathLike object, not '' @ py_type v)"

text \<open>\<open>content.encode()\<close>: a lone surrogate cannot be encoded (the text of the error is shortened).\<close>

definition encode_utf8 :: "json \<Rightarrow> string res" where
  "encode_utf8 v =
     res_bind (need_str v (no_attr v ''encode'')) (\<lambda>s.
       if list_all (\<lambda>c. \<not> is_surrogate c) (cps s) then Inr s
       else Inl (exc ''UnicodeEncodeError'' ''surrogates not allowed''))"

definition tool_error :: "string \<Rightarrow> string \<Rightarrow> tool_result" where
  "tool_error t sm = mk_result t Error (Some TOOL_ERROR) sm"

text \<open>\<open>except OSError as e\<close> around a block\<close>

definition except_os :: "('s, 'a) eff \<Rightarrow> (exn \<Rightarrow> ('s, 'a) eff) \<Rightarrow> ('s, 'a) eff" where
  "except_os m h = catch m (\<lambda>e. if is_os_error e then h e else raise e)"

definition write_file_run :: "os_env \<Rightarrow> args \<Rightarrow> ctx \<Rightarrow> ('s os_state_scheme, tool_result) eff" where
  "write_file_run E a c =
     andThen (lift_res (get_item a ''path'')) (\<lambda>path.
     andThen (lift_res (get_item a ''content'')) (\<lambda>content.
     andThen (lift_res (encode_utf8 content)) (\<lambda>bytes.
       if write_max_bytes c < int (length bytes)
       then ret (tool_error ''write_file'' ''content exceeds write_max_bytes'')
       else
         andThen (lift_res (need_str path (not_path path))) (\<lambda>p.
           let abspath = ctx_resolve (workspace_root c) p;
               dir = (if dirname abspath = [] then ''.'' else dirname abspath)
           in except_os
                (andThen (makedirs (Suc (length dir)) E dir) (\<lambda>_.
                 andThen (write_text E abspath bytes) (\<lambda>_.
                 ret ((mk_result ''write_file'' Success None (''wrote '' @ p))
                        \<lparr>artifacts := [(''changed_files'', JList [JStr p])]\<rparr>))))
                (\<lambda>e. ret (tool_error ''write_file'' (''cannot write '' @ p @ '': '' @ exn_msg e)))))))"

definition is_binary :: "string \<Rightarrow> bool" where
  "is_binary b \<longleftrightarrow> NUL \<in> set b"

definition read_file_run :: "os_env \<Rightarrow> args \<Rightarrow> ctx \<Rightarrow> ('s os_state_scheme, tool_result) eff" where
  "read_file_run E a c =
     andThen (lift_res (get_item a ''path'')) (\<lambda>path.
     andThen (lift_res (need_str path (not_path path))) (\<lambda>p.
       except_os
         (andThen (read_bytes E (ctx_resolve (workspace_root c) p)) (\<lambda>raw.
            ret (if is_binary raw then mk_result ''read_file'' Success None ''binary skipped''
                 else (let text = decode_replace raw in
                       (mk_result ''read_file'' Success None
                          (''read '' @ str_of_int (int (length (splitlines text))) @ '' lines''))
                       \<lparr>detail_for_llm := text\<rparr>))))
         (\<lambda>e. ret (tool_error ''read_file'' (''cannot read '' @ p @ '': '' @ exn_msg e)))))"

definition list_files_run :: "os_env \<Rightarrow> args \<Rightarrow> ctx \<Rightarrow> ('s os_state_scheme, tool_result) eff" where
  "list_files_run E a c =
     (let path = get_or a ''path'' (JStr ''.'') in
      andThen (lift_res (need_str path (not_path path))) (\<lambda>p.
        except_os
          (andThen (list_dir E (ctx_resolve (workspace_root c) p)) (\<lambda>names.
             ret ((mk_result ''list_files'' Success None (str_of_int (int (length names)) @ '' entries''))
                  \<lparr>detail_for_llm := join [NL] (sort names)\<rparr>)))
          (\<lambda>e. ret (tool_error ''list_files'' (''cannot list '' @ p @ '': '' @ exn_msg e)))))"

text \<open>The numbered lines of every readable text file below \<open>base\<close>, with the relative name.\<close>

definition file_lines :: "fs \<Rightarrow> path \<Rightarrow> path \<Rightarrow> (string \<times> nat \<times> string) list" where
  "file_lines fs base q =
     (case resolve fs [] (abs_str q) of
        None \<Rightarrow> []
      | Some r \<Rightarrow>
          (case lstat fs r of
             Some (File b) \<Rightarrow>
               if is_binary b then []
               else map (\<lambda>(i, l). (join ''/'' (drop (length base) q), i, l))
                      (enumerate 1 (splitlines (decode_replace b)))
           | _ \<Rightarrow> []))"

definition search_lines :: "fs \<Rightarrow> path \<Rightarrow> string \<Rightarrow> (string \<times> nat \<times> string) list" where
  "search_lines fs cwd dir =
     (case resolve fs cwd dir of
        None \<Rightarrow> []
      | Some p \<Rightarrow> concat (map (file_lines fs p) (walk_files (Suc (length fs)) fs p)))"

definition search_text_run :: "os_env \<Rightarrow> args \<Rightarrow> ctx \<Rightarrow> ('s os_state_scheme, tool_result) eff" where
  "search_text_run E a c =
     andThen (lift_res (get_item a ''query'')) (\<lambda>q s.
       let ls = search_lines (os_fs s) (os_cwd s) (ctx_resolve (workspace_root c) ''.'');
           hits = (\<lambda>t. map (\<lambda>(f, i, l). f @ '':'' @ str_of_int (int i) @ '': '' @ strip l)
                         (filter (\<lambda>(f, i, l). str_in t l) ls));
           result = (\<lambda>hs. (mk_result ''search_text'' Success None (str_of_int (int (length hs)) @ '' matches''))
                            \<lparr>detail_for_llm := join [NL] hs\<rparr>)
       in (case q of
             JStr t \<Rightarrow> (Inr (result (hits t)), s)
           | _ \<Rightarrow> if ls = [] then (Inr (result []), s)
                  else (Inl (exc ''TypeError'' (SQ # ''in <string>'' @ SQ #
                          '' requires string as left operand, not '' @ py_type q)), s)))"

definition finish_run :: "args \<Rightarrow> ctx \<Rightarrow> ('s, tool_result) eff" where
  "finish_run a c = ret ((mk_result ''finish'' Success None ''agent requested finish'')
     \<lparr>artifacts := [(''finish'', JBool True)]\<rparr>)"

text \<open>\<open>shlex.split(v)\<close> on an argument\<close>

definition shlex_split_json :: "json \<Rightarrow> string list res" where
  "shlex_split_json v =
     (case v of
        JStr s \<Rightarrow> shlex_split s
      | JNull \<Rightarrow> Inl (exc ''ValueError'' ''s argument must not be None'')
      | _ \<Rightarrow> Inl (no_attr v ''read''))"

definition run_command_run :: "os_env \<Rightarrow> int \<Rightarrow> int \<Rightarrow> args \<Rightarrow> ctx \<Rightarrow> ('s os_state_scheme, tool_result) eff" where
  "run_command_run E timeout max_bytes a c =
     andThen (lift_res (res_bind (get_item a ''command'') shlex_split_json)) (\<lambda>argv s.
       let (r, s1) = run_process E argv (workspace_root c) timeout s in
       (case r of
          TimedOut \<Rightarrow> (Inr (mk_result ''run_command'' Failure (Some TIMEOUT_CAT) ''command timed out''), s1)
        | ProcRaised e \<Rightarrow> (Inl e, s1)
        | Exited so se rc \<Rightarrow>
            (let combined = so @ se; st = (if rc = 0 then Success else Failure) in
             (Inr ((mk_result ''run_command'' st (if st = Success then None else Some TOOL_ERROR)
                      (''exit '' @ str_of_int rc))
                   \<lparr>detail_for_llm := slice_to max_bytes combined, exit_code := Some rc,
                    truncated := max_bytes < int (ulen combined)\<rparr>), s1))))"

definition run_tests_run :: "os_env \<Rightarrow> string \<Rightarrow> int \<Rightarrow> int \<Rightarrow> args \<Rightarrow> ctx \<Rightarrow> ('s os_state_scheme, tool_result) eff" where
  "run_tests_run E cmd timeout max_bytes a c =
     andThen (lift_res (shlex_split cmd)) (\<lambda>argv s.
       let (r, s1) = run_process E argv (workspace_root c) timeout s in
       (case r of
          TimedOut \<Rightarrow> (Inr (mk_result ''run_tests'' Failure (Some TIMEOUT_CAT) ''tests timed out''), s1)
        | ProcRaised e \<Rightarrow> (Inl e, s1)
        | Exited so se rc \<Rightarrow>
             (Inr ((mk_result ''run_tests'' (if rc = 0 then Success else Failure) None
                      (''tests exit '' @ str_of_int rc))
                   \<lparr>detail_for_llm := slice_to max_bytes (so @ se), exit_code := Some rc\<rparr>), s1)))"

section \<open>What the file operations change\<close>

text \<open>
  \<open>grows\<close>: only directories were added, under proper names in existing directories; everything
  that was there is unchanged.
\<close>

definition only_dirs :: "fs \<Rightarrow> fs \<Rightarrow> bool" where
  "only_dirs fs fs' \<longleftrightarrow> (\<forall>p. lstat fs p \<noteq> None \<longrightarrow> lstat fs' p = lstat fs p) \<and>
     (\<forall>p. lstat fs p = None \<longrightarrow> lstat fs' p \<in> {None, Some Dir}) \<and> (wf_fs fs \<longrightarrow> wf_fs fs')"

definition same_but_fs :: "'s os_state_scheme \<Rightarrow> 's os_state_scheme \<Rightarrow> bool" where
  "same_but_fs s s' \<longleftrightarrow> (\<exists>f. s' = s\<lparr>os_fs := f\<rparr>)"

lemma only_dirs_refl [simp]: "only_dirs fs fs"
  by (auto simp: only_dirs_def)

lemma only_dirs_trans: "only_dirs a b \<Longrightarrow> only_dirs b c \<Longrightarrow> only_dirs a c"
  unfolding only_dirs_def by (metis insert_iff option.distinct(1) singletonD)

lemma same_but_fs_refl [simp]: "same_but_fs s s"
  by (auto simp: same_but_fs_def intro: exI [of _ "os_fs s"])

lemma same_but_fs_trans: "same_but_fs a b \<Longrightarrow> same_but_fs b c \<Longrightarrow> same_but_fs a c"
  by (auto simp: same_but_fs_def)

lemma same_but_fs_cwd: "same_but_fs s s' \<Longrightarrow> os_cwd s' = os_cwd s \<and> os_procs s' = os_procs s"
  by (auto simp: same_but_fs_def)

lemma only_dirs_links: "only_dirs fs fs' \<Longrightarrow> same_links fs fs'"
  unfolding only_dirs_def same_links_def by (metis insert_iff node.distinct(5) option.distinct(1) option.inject singletonD)

definition grows :: "'s os_state_scheme \<Rightarrow> 's os_state_scheme \<Rightarrow> bool" where
  "grows s s' \<longleftrightarrow> only_dirs (os_fs s) (os_fs s') \<and> same_but_fs s s'"

lemma grows_refl [simp]: "grows s s" by (simp add: grows_def)

lemma grows_trans: "grows a b \<Longrightarrow> grows b c \<Longrightarrow> grows a c"
  by (auto simp: grows_def intro: only_dirs_trans same_but_fs_trans)

lemma grows_cwd: "grows s s' \<Longrightarrow> lstat (os_fs s) (os_cwd s) = Some Dir \<Longrightarrow>
    lstat (os_fs s') (os_cwd s') = Some Dir"
  by (auto simp: grows_def only_dirs_def dest: same_but_fs_cwd)

lemma wf_fs_add:
  assumes "wf_fs fs" and "lstat fs p = Some Dir" and "lstat fs (p @ [s]) = None" and "name_ok s"
  shows "wf_fs ((p @ [s], nd) # fs)"
proof -
  have "p @ [s] \<notin> fst ` set fs"
    using assms(3) by (simp add: lstat_def map_of_eq_None_iff)
  moreover have "lstat ((p @ [s], nd) # fs) r = Some Dir" if "lstat fs r = Some Dir" for r
    using that assms(3) by (auto simp: lstat_Cons)
  ultimately show ?thesis using assms by (auto simp: wf_fs_def)
qed

lemma resolve_create_new:
  assumes "resolve_create fs cwd name = Some q" and "wf_fs fs" and "lstat fs q = None" and "lstat fs cwd = Some Dir"
  obtains p s where "q = p @ [s]" "lstat fs p = Some Dir" "name_ok s"
proof -
  obtain m where w: "walk fs True MAX_LINKS (start cwd name) (segs name) = Some (q, m)"
    using assms(1) by (auto simp: resolve_create_def split: if_splits)
  have "lstat fs (start cwd name) \<noteq> None" using assms(4) by (simp add: start_def)
  then show thesis
    using walk_create_new [OF w assms(2,3)] segs_no_slash that by blast
qed

lemma mkdir_grows:
  assumes "lstat (os_fs s) (os_cwd s) = Some Dir"
  shows "grows s (snd (mkdir E name s))"
proof (cases "NUL \<notin> set name \<and> (\<exists>q. resolve_create (os_fs s) (os_cwd s) (rstrip_chars ''/'' name) = Some q \<and>
    lstat (os_fs s) q = None \<and> \<not> islink (os_fs s) (os_cwd s) (rstrip_chars ''/'' name))")
  case True
  then obtain q where q: "resolve_create (os_fs s) (os_cwd s) (rstrip_chars ''/'' name) = Some q"
    "lstat (os_fs s) q = None" "snd (mkdir E name s) = s\<lparr>os_fs := (q, Dir) # os_fs s\<rparr>"
    by (auto simp: mkdir_def)
  have "wf_fs ((q, Dir) # os_fs s)" if "wf_fs (os_fs s)"
    using resolve_create_new [OF q(1) that q(2) assms] wf_fs_add [OF that] q(2) by metis
  with q show ?thesis
    by (auto simp: grows_def only_dirs_def lstat_Cons same_but_fs_def)
qed (auto simp: mkdir_def split: option.splits)

lemma mkdir_ok_grows:
  assumes "lstat (os_fs s) (os_cwd s) = Some Dir"
  shows "grows s (snd (mkdir_ok E name s))"
  using mkdir_grows [OF assms, of E name]
  by (auto simp: mkdir_ok_def catch_def split: prod.splits sum.splits)

lemma makedirs_grows:
  "lstat (os_fs s) (os_cwd s) = Some Dir \<Longrightarrow> grows s (snd (makedirs n E name s))"
proof (induction n arbitrary: name)
  case (Suc n)
  let ?path = "if basename name = [] then dirname name else name"
  obtain r s1 where m: "makedirs n E (dirname ?path) s = (r, s1)" by fastforce
  have g: "grows s s1" using Suc.IH [OF Suc.prems, of "dirname ?path"] m by simp
  have "grows s (snd (mkdir_ok E name s1))"
    using mkdir_ok_grows [OF grows_cwd [OF g Suc.prems]] g grows_trans by blast
  with g m mkdir_ok_grows [OF Suc.prems, of E name] show ?case
    by (auto simp: Let_def split: sum.splits)
qed simp


text \<open>The recursion of makedirs ends before the fuel does.\<close>

lemma rstrip_len: "length (rstrip_chars cs s) \<le> length s"
  using length_dropWhile_le [of "\<lambda>x. x \<in> set cs" "rev s"] by (simp add: rstrip_chars_def)

lemma split_head_len: "length (split_head p) + length (basename p) = length p"
  using split_head_base [of p] by (metis length_append)

lemma dirname_len: "length (dirname p) + length (basename p) \<le> length p"
  using rstrip_len [of "''/''" "split_head p"] split_head_len [of p] by (auto simp: dirname_def Let_def)

lemma makedirs_fuel: "length name < n \<Longrightarrow> length name < m \<Longrightarrow> makedirs n E name s = makedirs m E name s"
proof (induction n arbitrary: m name)
  case (Suc n)
  obtain m' where m: "m = Suc m'" using Suc.prems(2) by (cases m) auto
  let ?path = "if basename name = [] then dirname name else name"
  have "length ?path \<le> length name" using dirname_len [of name] by auto
  then have "basename ?path \<noteq> [] \<Longrightarrow> length (dirname ?path) < n \<and> length (dirname ?path) < m'"
    using dirname_len [of ?path] Suc.prems m by (cases "basename ?path") auto
  with Suc.IH [of "dirname ?path" m'] m show ?case by (simp add: Let_def)
qed simp

section \<open>Reading leaves the state as it is\<close>

lemma except_os_snd:
  assumes "\<And>e s'. snd (h e s') = s'" and "snd (m s) = s"
  shows "snd (except_os m h s) = s"
  using assms by (auto simp: except_os_def catch_def raise_def split: prod.splits sum.splits)

lemma andThen_snd:
  assumes "snd (m s) = s" and "\<And>x. snd (k x s) = s"
  shows "snd (andThen m k s) = s"
  using assms by (auto simp: andThen_def split: prod.splits sum.splits)

lemma read_bytes_snd: "snd (read_bytes E p s) = s"
  by (auto simp: read_bytes_def split: option.splits node.splits)

lemma list_dir_snd: "snd (list_dir E p s) = s"
  by (auto simp: list_dir_def split: option.splits node.splits)

lemma readonly_runs [frame_simps]:
  "snd (read_file_run E a c s) = s" "snd (list_files_run E a c s) = s"
  "snd (search_text_run E a c s) = s" "snd (finish_run a c t) = t"
proof -
  show "snd (read_file_run E a c s) = s"
    unfolding read_file_run_def by (intro andThen_snd except_os_snd) (simp_all add: read_bytes_snd)
  show "snd (list_files_run E a c s) = s"
    unfolding list_files_run_def Let_def by (intro andThen_snd except_os_snd) (simp_all add: list_dir_snd)
  show "snd (search_text_run E a c s) = s"
    unfolding search_text_run_def by (intro andThen_snd) (auto simp: Let_def split: json.splits)
qed (simp add: finish_run_def)

section \<open>Writing\<close>

text \<open>Replacing the content of a file does not change where names lead.\<close>

definition same_shape :: "fs \<Rightarrow> fs \<Rightarrow> bool" where
  "same_shape fs fs' \<longleftrightarrow> (\<forall>p. lstat fs' p = lstat fs p \<or> (\<exists>b c. lstat fs p = Some (File b) \<and> lstat fs' p = Some (File c)))"

lemma walk_same_shape: "same_shape fs fs' \<Longrightarrow> walk fs cr n p r = walk fs' cr n p r"
proof (induction fs cr n p r rule: walk.induct)
  case (2 fs cr n p s r)
  have sh: "lstat fs' q = lstat fs q \<or> (\<exists>b c. lstat fs q = Some (File b) \<and> lstat fs' q = Some (File c))" for q
    using "2.prems" by (auto simp: same_shape_def)
  have dir: "lstat fs' p = Some Dir \<longleftrightarrow> lstat fs p = Some Dir" using sh [of p] by auto
  from sh [of "p @ [s]"] show ?case
  proof
    assume eq: "lstat fs' (p @ [s]) = lstat fs (p @ [s])"
    with 2 dir show ?thesis
      by (cases "lstat fs (p @ [s])"; cases "the (lstat fs (p @ [s]))"; cases n)
        (simp_all add: walk.simps(2))
  next
    assume "\<exists>b c. lstat fs (p @ [s]) = Some (File b) \<and> lstat fs' (p @ [s]) = Some (File c)"
    with 2 dir show ?thesis by (auto simp: walk.simps(2))
  qed
qed simp

lemma lstat_update: "q \<noteq> [] \<Longrightarrow> lstat (AList.update q nd fs) p = (if p = q then Some nd else lstat fs p)"
  by (auto simp: lstat_def update_conv')

lemma wf_fs_update:
  assumes "wf_fs fs" and "lstat fs q = Some (File b)"
  shows "wf_fs (AList.update q (File c) fs)"
proof -
  have q: "q \<noteq> []" using assms(2) by (auto simp: lstat_def split: if_splits)
  have dirs: "lstat (AList.update q (File c) fs) p = Some Dir \<longleftrightarrow> lstat fs p = Some Dir" for p
    using assms(2) q by (auto simp: lstat_update)
  have mem: "q \<in> fst ` set fs"
    using assms(2) q by (auto simp: lstat_def intro: rev_image_eqI dest: map_of_SomeD)
  then have keys: "map fst (AList.update q (File c) fs) = map fst fs"
    by (simp add: update_keys)
  have "\<forall>p \<in> set (map fst (AList.update q (File c) fs)). p \<noteq> [] \<and> name_ok (last p) \<and> lstat fs (butlast p) = Some Dir"
    using assms(1) unfolding keys by (auto simp: wf_fs_def)
  then have "\<forall>(p, nd) \<in> set (AList.update q (File c) fs). p \<noteq> [] \<and> name_ok (last p) \<and> lstat fs (butlast p) = Some Dir"
    by (force simp: image_iff)
  with assms(1) show ?thesis
    unfolding wf_fs_def keys dirs by auto
qed

lemma resolve_parts:
  assumes wf: "wf_fs fs" and "isabs name" and "resolve_create fs cwd name = Some q" and "lstat fs q \<noteq> Some Dir"
  shows "realpath_segs fs cwd (path_join (realpath fs cwd (dirname name)) (basename name)) = q"
proof -
  have "SL \<in> set name" using assms(2) by (cases name) (auto simp: isabs_def startswith_def)
  then obtain h where h: "split_head name = h @ [SL]" using split_head_ends by blast
  note sg = segs_split [OF h]
  have name: "name \<noteq> []" "start cwd name = []" using assms(2,3) by (auto simp: start_def resolve_create_def)
  obtain m where w: "walk fs True MAX_LINKS [] (segs h @ [basename name]) = Some (q, m)"
    using assms(3) sg name by (auto simp: resolve_create_def)
  obtain p n where p: "walk fs False MAX_LINKS [] (segs h) = Some (p, n)" "walk fs True n p [basename name] = Some (q, m)"
    using walk_create_init [OF w] by blast
  have dir: "lstat fs p = Some Dir" using p(2) by (rule walk_dir)
  have ok: "name_ok (basename name)"
    using p(2) dir assms(4) wf_parent [OF wf dir] basename_no_slash [of name]
    by (auto simp: name_ok_def walk.simps(2) split: if_splits)
  have names: "names_ok p" using wf_names [OF wf dir] by (auto simp: names_ok_def)
  have "isabs (dirname name)" using isabs_dirname [OF assms(2) h] .
  then have "resolve fs cwd (dirname name) = Some p"
    using walk_dirname [OF h p(1) dir] by (auto simp: resolve_def start_def isabs_def startswith_def)
  then have "realpath fs cwd (dirname name) = abs_str p"
    using resolve_realpath by (simp add: realpath_def)
  then have eq: "path_join (realpath fs cwd (dirname name)) (basename name) = abs_str (p @ [basename name])"
    using path_join_base [OF names ok] by simp
  have "walk fs False MAX_LINKS [] ([] # p) = Some (p, MAX_LINKS)"
    using walk_canonical [OF wf, of "[]" p Dir False MAX_LINKS] dir by (simp add: walk.simps(2))
  moreover obtain k where "walk fs True MAX_LINKS p [basename name] = Some (q, k)"
    using walk_mono [OF p(2)] walk_exact [OF p(1)] walk_shift [OF p(2), of "MAX_LINKS - n"]
    by (metis walk_mono nat_le_linear le_add_diff_inverse p(2))
  ultimately have "walk fs True MAX_LINKS [] (([] # p) @ [basename name]) = Some (q, k)"
    by (rule walk_create_append) simp
  moreover have "segs (abs_str (p @ [basename name])) = [] # p @ [basename name]"
    using segs_abs_str [of "p @ [basename name]"] names ok by (auto simp: names_ok_def)
  ultimately have "resolve_create fs cwd (abs_str (p @ [basename name])) = Some q"
    by (simp add: resolve_create_def)
  with eq show ?thesis using resolve_create_realpath by simp
qed

lemma realpath_same_links: "same_links fs fs' \<Longrightarrow> realpath fs' cwd name = realpath fs cwd name"
  using rp_links by (simp add: realpath_def realpath_segs_def)

text \<open>
  The file that is opened for writing after directories were made lies in the root, even when the
  name resolved to nothing when it was checked.
\<close>

lemma fence_after_mkdirs:
  assumes wf: "wf_fs fs" and cwd: "lstat fs cwd = Some Dir"
    and check: "check_path fs cwd (JStr name) ws_dir pats = Inr v" "pv_allowed v"
    and grow: "only_dirs fs fs'"
    and res: "resolve_create fs' cwd (ctx_resolve ws_dir name) = Some q" and nodir: "lstat fs' q \<noteq> Some Dir"
  shows "prefix (realpath_segs fs cwd ws_dir) q"
proof -
  have wf': "wf_fs fs'" and cwd': "lstat fs' cwd = Some Dir"
    using grow wf cwd by (auto simp: only_dirs_def)
  have links: "realpath fs' cwd = realpath fs cwd"
    using realpath_same_links [OF only_dirs_links [OF grow]] by (simp add: fun_eq_iff)
  have cp: "name \<noteq> []" "check_path_str fs cwd name ws_dir pats = Inr v"
    using check_path_allowedE [OF check] by auto
  obtain real joined where j: "joined = (if isabs name then name else path_join (realpath fs cwd ws_dir) name)"
    and real: "fence_real fs cwd (realpath fs cwd ws_dir) joined = Inr (Inr real)"
    and common: "commonpath2 (realpath fs cwd real) (realpath fs cwd ws_dir) = Inr (realpath fs cwd ws_dir)"
    using check_path_strE [OF cp(2) allowed_no_escape [OF check]] by blast
  have open_j: "resolve_create fs' cwd joined = Some q"
    using res resolve_create_rebase [OF wf' cwd' _ _ cp(1)] j links by (fastforce simp: ctx_resolve_def)
  have abs_j: "isabs joined"
    using j by (auto simp: path_join_def isabs_def realpath_def abs_str_def startswith_def)
  have "realpath fs cwd real = abs_str q"
  proof (cases "os_present fs cwd joined")
    case True
    with real have "real = realpath fs' cwd joined"
      using links by (auto simp: fence_real_def os_realpath_def elim!: res_bind_InrE split: if_splits)
    then have "real = abs_str q" using resolve_create_realpath [OF open_j] by (simp add: realpath_def)
    then show ?thesis
      using resolve_create_canonical [OF wf' cwd' open_j] links by (metis realpath_def)
  next
    case False
    with real have "real = path_join (realpath fs' cwd (dirname joined)) (basename joined)"
      using links by (auto simp: fence_real_def os_realpath_def elim!: res_bind_InrE split: if_splits)
    then show ?thesis
      using resolve_parts [OF wf' abs_j open_j nodir] links by (metis realpath_def)
  qed
  moreover have cwd_ok: "names_ok cwd" using wf_names [OF wf cwd] by (auto simp: names_ok_def)
  moreover have "names_ok q"
    using realpath_names [OF cwd_ok, of fs' joined] resolve_create_realpath [OF open_j] by simp
  ultimately show ?thesis
    using common commonpath2_root_iff [of q "realpath_segs fs cwd ws_dir"]
      realpath_names [OF cwd_ok, of fs ws_dir] by (simp add: realpath_def names_ok_def)
qed

text \<open>
  C5: A name that the fence allowed leads into the real workspace root, also when directories were made
  after the check and a file is then created under it: no sequence of parent references and symbolic
  links leads out.  The name itself is not sensitive, and where it leads at the time of the check is
  not sensitive either; for a name whose directories are made later only the containment holds, not
  the second part (\<open>write_through_hidden_link\<close>).
\<close>

theorem fence_sound:
  assumes "wf_fs fs" and "lstat fs cwd = Some Dir" and "only_dirs fs fs'"
    and "check_path fs cwd (JStr name) ws_dir pats = Inr v" and "pv_allowed v"
    and "NUL \<notin> set (path_join (realpath fs cwd ws_dir) name)"
  shows "(resolve_create fs' cwd (ctx_resolve ws_dir name) = Some q \<and> lstat fs' q \<noteq> Some Dir \<longrightarrow>
       prefix (realpath_segs fs cwd ws_dir) q) \<and>
     (resolve fs cwd (ctx_resolve ws_dir name) = Some q \<or> resolve_create fs cwd (ctx_resolve ws_dir name) = Some q \<longrightarrow>
       prefix (realpath_segs fs cwd ws_dir) q \<and> \<not> matches_sensitive (abs_str q) pats) \<and>
     \<not> matches_sensitive name pats"
proof (intro conjI impI; (elim conjE)?)
  assume "resolve_create fs' cwd (ctx_resolve ws_dir name) = Some q" "lstat fs' q \<noteq> Some Dir"
  then show "prefix (realpath_segs fs cwd ws_dir) q" by (rule fence_after_mkdirs [OF assms(1,2,4,5,3)])
next
  assume "resolve fs cwd (ctx_resolve ws_dir name) = Some q \<or> resolve_create fs cwd (ctx_resolve ws_dir name) = Some q"
  from fence_guarantee [OF assms(1,2,4,5,6) this]
  show "prefix (realpath_segs fs cwd ws_dir) q" "\<not> matches_sensitive (abs_str q) pats" by simp_all
next
  have cp: "check_path_str fs cwd name ws_dir pats = Inr v" using check_path_allowedE [OF assms(4,5)] by auto
  obtain real where "v = fence_sensitive name real pats"
    using check_path_strE [OF cp allowed_no_escape [OF assms(4,5)]] by blast
  then show "\<not> matches_sensitive name pats" using assms(5) by (simp add: fence_sensitive_allowed)
qed

theorem fence_sound_witness:
  "prefix (realpath_segs demo_fs [] ''/ws'') [''ws'', ''n'', ''a.txt''] \<and> \<not> matches_sensitive ''n/a.txt'' [''.env'']"
proof -
  let ?fs = "([''ws'', ''n''], Dir) # demo_fs"
  have 1: "wf_fs demo_fs" "lstat demo_fs [] = Some Dir" "lstat demo_fs [''ws''] = Some Dir" "lstat demo_fs ([''ws''] @ [''n'']) = None"
    "name_ok ''n''" by code_simp+
  from wf_fs_add [OF 1(1,3,4,5), of Dir] 1(4) have 2: "only_dirs demo_fs ?fs" by (auto simp: only_dirs_def lstat_Cons)
  have 3: "check_path demo_fs [] (JStr ''n/a.txt'') ''/ws'' [''.env''] = Inr \<lparr>pv_allowed = True, pv_reason = ''ok''\<rparr>"
    "NUL \<notin> set (path_join (realpath demo_fs [] ''/ws'') ''n/a.txt'')"
    "resolve_create ?fs [] (ctx_resolve ''/ws'' ''n/a.txt'') = Some [''ws'', ''n'', ''a.txt'']"
    "lstat ?fs [''ws'', ''n'', ''a.txt''] = None" by code_simp+
  from fence_sound [OF 1(1,2) 2 3(1) _ 3(2), of "[''ws'', ''n'', ''a.txt'']"] 3(3,4) show ?thesis by simp
qed

lemma write_textE:
  assumes "write_text E path t s = (r, s')"
  obtains (fail) e where "r = Inl e" "s' = s"
    | (ok) q where "r = Inr ()" "resolve_create (os_fs s) (os_cwd s) path = Some q" "lstat (os_fs s) q \<noteq> Some Dir"
        "s' = s\<lparr>os_fs := AList.update q (File t) (os_fs s)\<rparr>" "NUL \<notin> set path"
proof (cases "NUL \<in> set path")
  case True
  with assms have "r = Inl null_byte" "s' = s" by (simp_all add: write_text_def)
  then show thesis by (rule fail)
next
  case nn: False
  show thesis
  proof (cases "resolve_create (os_fs s) (os_cwd s) path")
    case None
    with nn assms have "r = Inl (os_error (os_error_text E path))" "s' = s" by (simp_all add: write_text_def)
    then show thesis by (rule fail)
  next
    case (Some q)
    show thesis
    proof (cases "lstat (os_fs s) q = Some Dir")
      case True
      with Some nn assms have "r = Inl (os_error (os_error_text E path))" "s' = s" by (simp_all add: write_text_def)
      then show thesis by (rule fail)
    next
      case False
      with Some nn assms show thesis using ok [of q] by (simp add: write_text_def)
    qed
  qed
qed

definition wrote_result :: "string \<Rightarrow> tool_result" where
  "wrote_result p = (mk_result ''write_file'' Success None (''wrote '' @ p))
     \<lparr>artifacts := [(''changed_files'', JList [JStr p])]\<rparr>"

lemma encode_utf8_Inr: "encode_utf8 v = Inr t \<longleftrightarrow> v = JStr t \<and> list_all (\<lambda>c. \<not> is_surrogate c) (cps t)"
  by (auto simp: encode_utf8_def need_str_def split: json.splits)

text \<open>The outcomes of the write tool: nothing changed, or only directories were made, or it wrote.\<close>

lemma write_file_cases:
  assumes "write_file_run E a c s = (r, s')" and cwd: "lstat (os_fs s) (os_cwd s) = Some Dir"
  obtains (no_write) "grows s s'" "\<And>x. r = Inr x \<Longrightarrow> r_status x = Error"
    | (wrote) p t s1 q where "get_item a ''path'' = Inr (JStr p)" "get_item a ''content'' = Inr (JStr t)"
        "encode_utf8 (JStr t) = Inr t" "int (length t) \<le> write_max_bytes c" "grows s s1"
        "resolve_create (os_fs s1) (os_cwd s1) (ctx_resolve (workspace_root c) p) = Some q"
        "lstat (os_fs s1) q \<noteq> Some Dir" "s' = s1\<lparr>os_fs := AList.update q (File t) (os_fs s1)\<rparr>"
        "r = Inr (wrote_result p)" "NUL \<notin> set (ctx_resolve (workspace_root c) p)"
proof -
  have err: "r_status (tool_error x y) = Error" for x y by (simp add: tool_error_def mk_result_def)
  consider (pre) "s' = s" "\<And>x. r = Inr x \<Longrightarrow> r_status x = Error"
    | (go) p t where "get_item a ''path'' = Inr (JStr p)" "get_item a ''content'' = Inr (JStr t)"
        "encode_utf8 (JStr t) = Inr t" "int (length t) \<le> write_max_bytes c"
    using assms(1) err
    by (auto simp: write_file_run_def andThen_def encode_utf8_Inr need_str_def split: sum.splits if_splits json.splits)
  then show thesis
  proof cases
    case pre
    then show thesis using no_write by simp
  next
    case go
    let ?abs = "ctx_resolve (workspace_root c) p"
    let ?dir = "if dirname ?abs = [] then ''.'' else dirname ?abs"
    obtain r1 s1 where m: "makedirs (Suc (length ?dir)) E ?dir s = (r1, s1)" by fastforce
    have g: "grows s s1" using makedirs_grows [OF cwd, of "Suc (length ?dir)" E ?dir] m by simp
    have run: "write_file_run E a c s = except_os
        (andThen (makedirs (Suc (length ?dir)) E ?dir) (\<lambda>_. andThen (write_text E ?abs t) (\<lambda>_. ret (wrote_result p))))
        (\<lambda>e. ret (tool_error ''write_file'' (''cannot write '' @ p @ '': '' @ exn_msg e))) s"
      using go by (simp add: write_file_run_def andThen_def need_str_def Let_def wrote_result_def)
    show thesis
    proof (cases r1)
      case (Inl e)
      then show thesis
        using no_write assms(1) run m g err by (auto simp: except_os_def catch_def andThen_def split: if_splits)
    next
      case (Inr u)
      obtain r2 s2 where w: "write_text E ?abs t s1 = (r2, s2)" by fastforce
      then show thesis
      proof (cases rule: write_textE)
        case (fail e)
        then show thesis
          using no_write assms(1) run m g w Inr err
          by (auto simp: except_os_def catch_def andThen_def split: if_splits)
      next
        case (ok q)
        then have "r = Inr (wrote_result p)" "s' = s2"
          using assms(1) run m w Inr by (simp_all add: except_os_def catch_def andThen_def)
        then show thesis using wrote [OF go g ok(2,3) _ _ ok(5)] ok(4) by simp
      qed
    qed
  qed
qed

section \<open>Properties of the tools\<close>

lemma seq_len_utf8:
  assumes "c < 1114112" and "\<not> is_surrogate c"
  shows "seq_len (utf8 c @ s) = (length (utf8 c), True)"
proof -
  consider (a) "c < 128" | (b) "128 \<le> c" "c < 2048" | (c) "2048 \<le> c" "c < 65536" | (d) "65536 \<le> c" by linarith
  then show ?thesis
  proof cases
    case a
    then show ?thesis by (simp add: utf8.simps)
  next
    case b
    then have "2 \<le> c div 64" "c div 64 < 32" by linarith+
    with b show ?thesis by (simp add: utf8.simps second_ok_def Let_def cont_def)
  next
    case c
    then have x: "c div 4096 < 16" by (simp add: less_mult_imp_div_less)
    have y: "c div 64 mod 64 < 64" "c mod 64 < 64" by simp_all
    have e: "c = c div 4096 * 4096 + c div 64 mod 64 * 64 + c mod 64" by (simp add: split64_3)
    have so: "second_ok (224 + c div 4096) (char_of (128 + c div 64 mod 64))"
    proof -
      have "c div 4096 = 0 \<Longrightarrow> 32 \<le> c div 64 mod 64" using c(1) e y by linarith
      moreover have "c div 4096 = 13 \<Longrightarrow> c div 64 mod 64 < 32"
        using assms(2) e y by (simp add: is_surrogate_def)
      ultimately show ?thesis using x y by (simp add: second_ok_def Let_def)
    qed
    from c x so y show ?thesis by (simp add: utf8.simps cont_def Let_def)
  next
    case d
    then have x: "c div 262144 < 5" using assms(1) by (simp add: less_mult_imp_div_less)
    have y: "c div 4096 mod 64 < 64" "c div 64 mod 64 < 64" "c mod 64 < 64" by simp_all
    have e: "c = c div 262144 * 262144 + c div 4096 mod 64 * 4096 + c div 64 mod 64 * 64 + c mod 64"
      using split64_4 [of c] by simp
    have so: "second_ok (240 + c div 262144) (char_of (128 + c div 4096 mod 64))"
    proof -
      have "c div 262144 = 0 \<Longrightarrow> 16 \<le> c div 4096 mod 64" using d e y by linarith
      moreover have "c div 262144 = 4 \<Longrightarrow> c div 4096 mod 64 < 16" using assms(1) e y by linarith
      ultimately show ?thesis using x y by (simp add: second_ok_def Let_def)
    qed
    from d x so y show ?thesis by (simp add: utf8.simps cont_def Let_def)
  qed
qed

lemma decode_utf8: "c < 1114112 \<Longrightarrow> \<not> is_surrogate c \<Longrightarrow> decode_replace (utf8 c @ s) = utf8 c @ decode_replace s"
  using seq_len_utf8 [of c s] by (cases "utf8 c") (auto simp: Let_def)

lemma decode_valid:
  assumes "wf_str t" and "list_all (\<lambda>c. \<not> is_surrogate c) (cps t)"
  shows "decode_replace t = t"
proof -
  have "decode_replace (utf8s cs) = utf8s cs" if "\<forall>c \<in> set cs. c < 1114112 \<and> \<not> is_surrogate c" for cs
    using that by (induction cs) (simp_all add: decode_utf8 del: decode_replace.simps(2))
  from this [of "cps t"] show ?thesis using assms by (simp add: wf_str_def list_all_iff)
qed

lemma write_then_resolve:
  assumes "resolve_create fs cwd name = Some q" and "lstat fs q \<noteq> Some Dir" and "wf_fs fs" and "lstat fs cwd = Some Dir"
  shows "resolve (AList.update q (File b) fs) cwd name = Some q \<and> lstat (AList.update q (File b) fs) q = Some (File b)"
proof -
  have q: "q \<noteq> []" using assms(2) by auto
  obtain m where w: "name \<noteq> []" "walk fs True MAX_LINKS (start cwd name) (segs name) = Some (q, m)"
    using assms(1) by (auto simp: resolve_create_def split: if_splits)
  have "walk (AList.update q (File b) fs) False MAX_LINKS (start cwd name) (segs name) = Some (q, m)"
  proof (cases "lstat fs q")
    case None
    have "same_shape ((q, File b) # fs) (AList.update q (File b) fs)"
      using q by (auto simp: same_shape_def lstat_Cons lstat_update)
    with walk_create [OF w(2), of b] None walk_same_shape show ?thesis by simp
  next
    case (Some nd)
    have "lstat fs (start cwd name) = Some Dir" using assms(4) by (simp add: start_def)
    then obtain c where "lstat fs q = Some (File c)"
      using walk_result_create [OF assms(3) w(2)] Some assms(2) by (cases nd) auto
    then have "same_shape fs (AList.update q (File b) fs)"
      using q by (auto simp: same_shape_def lstat_update)
    with walk_create [OF w(2), of b] Some walk_same_shape show ?thesis by simp
  qed
  with w q show ?thesis by (simp add: resolve_def lstat_update)
qed

text \<open>
  C8: What a successful \<open>write_file\<close> wrote is what \<open>read_file\<close> under the same path then
  returns, for text without NUL.
\<close>

theorem write_then_read:
  assumes "wf_fs (os_fs s)" and "lstat (os_fs s) (os_cwd s) = Some Dir"
    and "get_item a ''path'' = Inr (JStr p)" and "get_item a ''content'' = Inr (JStr t)"
    and "wf_str t" and "NUL \<notin> set t"
    and "write_file_run E a c s = (Inr r, s')" and "r_status r = Success"
  shows "\<exists>r'. read_file_run E [(''path'', JStr p)] c s' = (Inr r', s') \<and> r_status r' = Success \<and>
     detail_for_llm r' = t"
  using assms(7) assms(2)
proof (cases rule: write_file_cases)
  case no_write
  then show ?thesis using assms(8) by simp
next
  case (wrote p' t' s1 q)
  then have eq: "p' = p" "t' = t" using assms(3,4) by simp_all
  have ok: "wf_fs (os_fs s1)" "lstat (os_fs s1) (os_cwd s1) = Some Dir"
    using wrote(5) assms(1,2) grows_cwd by (auto simp: grows_def only_dirs_def)
  have "resolve (os_fs s') (os_cwd s') (ctx_resolve (workspace_root c) p) = Some q \<and> lstat (os_fs s') q = Some (File t)"
    using write_then_resolve [OF wrote(6,7) ok] wrote(8) eq by simp
  moreover have "decode_replace t = t"
    using decode_valid assms(5) wrote(3) eq by (simp add: encode_utf8_Inr)
  ultimately show ?thesis
    using wrote(10) eq assms(6)
    by (simp add: read_file_run_def get_item_def need_str_def andThen_def except_os_def catch_def read_bytes_def
        is_binary_def mk_result_def)
qed

definition plain_env :: os_env where
  "plain_env = \<lparr>exec = (\<lambda>n argv d t fs. (Exited [] [] 0, fs)), os_error_text = (\<lambda>p. ''error'')\<rparr>"

definition demo_state :: os_state where
  "demo_state = \<lparr>os_fs = demo_fs, os_cwd = [], os_procs = 0\<rparr>"

definition demo_ctx :: ctx where
  "demo_ctx = \<lparr>task_id = ''t'', workspace_root = ''/ws'', write_max_bytes = 100\<rparr>"

lemma demo_state_ok: "wf_fs (os_fs demo_state)" "lstat (os_fs demo_state) (os_cwd demo_state) = Some Dir"
  by code_simp+

definition demo_write :: "tool_result res \<times> os_state" where
  "demo_write = write_file_run plain_env [(''path'', JStr ''src/n/a''), (''content'', JStr ''hi'')] demo_ctx demo_state"

theorem write_then_read_witness:
  "\<exists>r'. read_file_run plain_env [(''path'', JStr ''src/n/a'')] demo_ctx (snd demo_write) = (Inr r', snd demo_write) \<and>
     r_status r' = Success \<and> detail_for_llm r' = ''hi''"
proof (rule write_then_read)
  show "wf_fs (os_fs demo_state)" "lstat (os_fs demo_state) (os_cwd demo_state) = Some Dir"
    by (rule demo_state_ok)+
  show "wf_str ''hi''" by (simp add: wf_str_ascii)
  have "fst demo_write = Inr (wrote_result ''src/n/a'')" by code_simp
  then show "write_file_run plain_env [(''path'', JStr ''src/n/a''), (''content'', JStr ''hi'')] demo_ctx demo_state =
      (Inr (wrote_result ''src/n/a''), snd demo_write)"
    by (simp add: prod_eq_iff) (simp add: demo_write_def)
qed (simp_all add: get_item_def wrote_result_def mk_result_def)


text \<open>What a write may leave: outside the files of \<open>Q\<close> nothing but new empty directories\<close>

definition fs_written :: "path set \<Rightarrow> fs \<Rightarrow> fs \<Rightarrow> bool" where
  "fs_written Q fs fs' \<longleftrightarrow>
     (\<forall>q. q \<notin> Q \<longrightarrow> lstat fs' q = lstat fs q \<or> lstat fs q = None \<and> lstat fs' q = Some Dir)"

lemma only_dirs_written: "only_dirs fs fs' \<Longrightarrow> fs_written Q fs fs'"
  unfolding only_dirs_def fs_written_def by (metis insertE singletonD)

lemma fs_written_update: "only_dirs fs fs1 \<Longrightarrow> q \<noteq> [] \<Longrightarrow> fs_written {q} fs (AList.update q nd fs1)"
  using only_dirs_written [of fs fs1 "{q}"] by (simp add: fs_written_def lstat_update)

text \<open>One file, the one that the path given leads to, holds the content given.\<close>

definition one_file_written :: "string \<Rightarrow> ctx \<Rightarrow> 's os_state_scheme \<Rightarrow> 's os_state_scheme \<Rightarrow> args \<Rightarrow> bool" where
  "one_file_written p c s s' a \<longleftrightarrow> (\<exists>q t. get_item a ''content'' = Inr (JStr t) \<and> int (length t) \<le> write_max_bytes c \<and>
     prefix (realpath_segs (os_fs s) (os_cwd s) (workspace_root c)) q \<and>
     resolve (os_fs s') (os_cwd s) (ctx_resolve (workspace_root c) p) = Some q \<and>
     lstat (os_fs s') q = Some (File t) \<and> fs_written {q} (os_fs s) (os_fs s'))"

lemma write_file_contained:
  assumes "wf_fs (os_fs s)" and "lstat (os_fs s) (os_cwd s) = Some Dir"
    and "get_item a ''path'' = Inr (JStr p)"
    and "check_path (os_fs s) (os_cwd s) (JStr p) (workspace_root c) pats = Inr v" and "pv_allowed v"
    and "write_file_run E a c s = (r, s')"
  shows "same_but_fs s s' \<and> (if \<exists>x. r = Inr x \<and> r_status x = Success then one_file_written p c s s' a else fs_written {} (os_fs s) (os_fs s'))"
  using assms(6,2)
proof (cases rule: write_file_cases)
  case no_write
  then show ?thesis by (auto simp: grows_def only_dirs_written)
next
  case (wrote p' t s1 q)
  have p: "p' = p" using wrote(1) assms(3) by simp
  have g: "only_dirs (os_fs s) (os_fs s1)" "same_but_fs s s1" "os_cwd s1 = os_cwd s"
    using wrote(5) same_but_fs_cwd by (auto simp: grows_def)
  have q: "q \<noteq> []" using wrote(7) by auto
  have ok: "wf_fs (os_fs s1)" "lstat (os_fs s1) (os_cwd s1) = Some Dir"
    using g assms(1,2) by (auto simp: only_dirs_def)
  have "prefix (realpath_segs (os_fs s) (os_cwd s) (workspace_root c)) q"
    using fence_after_mkdirs [OF assms(1,2,4,5) g(1) _ wrote(7)] wrote(6) g(3) p by simp
  moreover have "resolve (os_fs s') (os_cwd s) (ctx_resolve (workspace_root c) p) = Some q \<and> lstat (os_fs s') q = Some (File t)"
    using write_then_resolve [OF wrote(6,7) ok] wrote(8) p g(3) by simp
  moreover have "fs_written {q} (os_fs s) (os_fs s')" using fs_written_update [OF g(1) q] wrote(8) by simp
  moreover have "same_but_fs s s'" using g(2) wrote(8) by (auto simp: same_but_fs_def)
  ultimately show ?thesis using wrote(2,4,9) by (auto simp: one_file_written_def wrote_result_def mk_result_def)
qed

text \<open>
  C7: Write containment: under a path that the fence allowed, a write that reports success leaves
  exactly one file changed, the one the path leads to; it lies in the real workspace root and holds
  the content given, which is within the size limit.  Otherwise no file is changed.  Nothing is removed,
  everything else that appears is an empty directory, and no process is started.
\<close>

theorem write_file_inside:
  assumes "wf_fs (os_fs s)" and "lstat (os_fs s) (os_cwd s) = Some Dir"
    and "get_item a ''path'' = Inr (JStr p)"
    and "check_path (os_fs s) (os_cwd s) (JStr p) (workspace_root c) pats = Inr v" and "pv_allowed v"
    and "write_file_run E a c s = (r, s')"
  shows "same_but_fs s s' \<and> (if \<exists>x. r = Inr x \<and> r_status x = Success then one_file_written p c s s' a else fs_written {} (os_fs s) (os_fs s'))"
  by (rule write_file_contained [OF assms])

theorem write_file_inside_witness:
  "one_file_written ''src/n/a'' demo_ctx demo_state (snd demo_write) [(''path'', JStr ''src/n/a''), (''content'', JStr ''hi'')]"
proof -
  let ?a = "[(''path'', JStr ''src/n/a''), (''content'', JStr ''hi'')]"
  have "check_path (os_fs demo_state) (os_cwd demo_state) (JStr ''src/n/a'') (workspace_root demo_ctx) [''.env''] =
      Inr \<lparr>pv_allowed = True, pv_reason = ''ok''\<rparr>" by code_simp
  moreover have run: "write_file_run plain_env ?a demo_ctx demo_state = (fst demo_write, snd demo_write)" by (simp add: demo_write_def)
  moreover have "fst demo_write = Inr (wrote_result ''src/n/a'')" by code_simp
  ultimately show ?thesis
    using write_file_inside [OF demo_state_ok, of ?a "''src/n/a''" demo_ctx "[''.env'']" _ plain_env "fst demo_write" "snd demo_write"]
    by (simp add: get_item_def wrote_result_def mk_result_def)
qed

definition link_write :: "tool_result res \<times> os_state" where
  "link_write = write_file_run plain_env [(''path'', JStr ''new/../report''), (''content'', JStr ''x'')] demo_ctx demo_state"

text \<open>
  A missing directory in the name hides a link from the fence: with \<open>report\<close> a link to
  \<open>.env\<close>, the name \<open>new/../report\<close> is allowed, and the write, which first makes \<open>new\<close>,
  replaces the sensitive file; the name \<open>report\<close> itself is refused.
\<close>

theorem write_through_hidden_link:
  "check_path (os_fs demo_state) [] (JStr ''new/../report'') ''/ws'' [''.env''] =
      Inr \<lparr>pv_allowed = True, pv_reason = ''ok''\<rparr> \<and>
   check_path (os_fs demo_state) [] (JStr ''report'') ''/ws'' [''.env''] = Inr (pv_denied ''sensitive file blocked: .env'') \<and>
   lstat (os_fs demo_state) [''ws'', ''.env''] = Some (File ''K=1'') \<and>
   lstat (os_fs (snd link_write)) [''ws'', ''.env''] = Some (File ''x'')"
proof (intro conjI)
  show "lstat (os_fs (snd link_write)) [''ws'', ''.env''] = Some (File ''x'')" by code_simp
qed code_simp+

definition outside_write :: "tool_result res \<times> os_state" where
  "outside_write = write_file_run plain_env
     [(''path'', JStr ''src/../../tmp/../ws/src/f''), (''content'', JStr ''x'')] demo_ctx demo_state"

text \<open>
  The file of an allowed write lies in the workspace, the directories made for it need not: a
  name that leaves the workspace through a missing directory and comes back is allowed, and
  \<open>makedirs\<close> makes that directory outside.
\<close>

theorem write_makes_outside_directory:
  "check_path (os_fs demo_state) [] (JStr ''src/../../tmp/../ws/src/f'') ''/ws'' [''.env''] =
      Inr \<lparr>pv_allowed = True, pv_reason = ''ok''\<rparr> \<and>
   lstat (os_fs demo_state) [''tmp''] = None \<and> lstat (os_fs (snd outside_write)) [''tmp''] = Some Dir"
proof (intro conjI)
  show "lstat (os_fs (snd outside_write)) [''tmp''] = Some Dir" by code_simp
qed code_simp+

definition search_state :: os_state where
  "search_state = demo_state\<lparr>os_fs := os_fs demo_state @ [([''ws'', ''pw''], Link ''/etc/passwd'')]\<rparr>"

definition found :: "string \<Rightarrow> string res" where
  "found query = map_sum id detail_for_llm
     (fst (search_text_run plain_env [(''query'', JStr query)] demo_ctx search_state))"

text \<open>
  \<open>search_text\<close> has no path for the fence to check: it returns lines of sensitive files and,
  through a link in the workspace, of a file outside it.
\<close>

theorem search_reads_sensitive:
  "found ''K='' = Inr (''.env:1: K=1'' @ NL # ''report:1: K=1'') \<and> found ''x'' = Inr ''pw:1: x''"
proof
  show "found ''K='' = Inr (''.env:1: K=1'' @ NL # ''report:1: K=1'')" by code_simp
  show "found ''x'' = Inr ''pw:1: x''" by code_simp
qed

lemma cps_utf8s_take: "wf_str s \<Longrightarrow> cps (utf8s (take n (cps s))) = take n (cps s)"
  using cps_utf8s [of "take n (cps s)" "[]"] by (auto simp: wf_str_def list_all_iff dest: in_set_takeD)

text \<open>Processes whose output decodes (\<open>text=True\<close>)\<close>

definition exec_text :: "os_env \<Rightarrow> bool" where
  "exec_text E \<longleftrightarrow> (\<forall>n argv d t fs so se k fs'. exec E n argv d t fs = (Exited so se k, fs') \<longrightarrow> wf_str (so @ se))"

text \<open>
  The output of a command that reaches the model is at most \<open>output_max_bytes\<close> characters
  long, it is the whole output unless it is marked as truncated, and the status is a success
  exactly for return code 0.
\<close>

theorem run_command_truncation:
  assumes "run_command_run E t m a c s = (Inr r, s')" and "0 \<le> m" and "exit_code r = Some rc"
    and "exec_text E"
  shows "int (ulen (detail_for_llm r)) \<le> m \<and> (r_status r = Success \<longleftrightarrow> rc = 0) \<and>
    (\<exists>argv so se fs'. exec E (os_procs s) argv (workspace_root c) t (os_fs s) = (Exited so se rc, fs') \<and>
       (truncated r \<longleftrightarrow> m < int (ulen (so @ se))) \<and> (truncated r \<or> detail_for_llm r = so @ se))"
proof -
  obtain argv where argv: "res_bind (get_item a ''command'') shlex_split_json = Inr argv"
    using assms(1) by (auto simp: run_command_run_def andThen_def split: sum.splits)
  obtain pr fs' where pr: "exec E (os_procs s) argv (workspace_root c) t (os_fs s) = (pr, fs')" by fastforce
  obtain so se k where ex: "pr = Exited so se k"
    using assms(1,3) argv pr
    by (cases pr) (auto simp: run_command_run_def andThen_def run_process_def mk_result_def)
  have wf: "wf_str (so @ se)" using assms(4) pr ex unfolding exec_text_def by blast
  have r: "k = rc" "detail_for_llm r = utake (nat m) (so @ se)" "truncated r \<longleftrightarrow> m < int (ulen (so @ se))"
    "r_status r = (if k = 0 then Success else Failure)"
    using assms(1-3) argv pr ex
    by (auto simp: run_command_run_def andThen_def run_process_def mk_result_def slice_to_def Let_def)
  have "ulen (detail_for_llm r) = min (nat m) (ulen (so @ se))"
    using r(2) cps_utf8s_take [OF wf] by (simp add: ulen_def utake_def min.commute)
  moreover have "detail_for_llm r = so @ se" if "\<not> truncated r"
    using that r(2,3) wf by (simp add: utake_def ulen_def wf_str_def)
  ultimately show ?thesis using r(1,3,4) pr ex assms(2) by auto
qed

definition echo_env :: os_env where
  "echo_env = \<lparr>exec = (\<lambda>n argv d t fs. (Exited ''git log'' [] 0, fs)), os_error_text = (\<lambda>p. ''error'')\<rparr>"

definition echo_result :: tool_result where
  "echo_result = (mk_result ''run_command'' Success None ''exit 0'')
     \<lparr>detail_for_llm := ''git'', exit_code := Some 0, truncated := True\<rparr>"

theorem run_command_truncation_witness:
  "int (ulen (detail_for_llm echo_result)) \<le> 3 \<and> (r_status echo_result = Success \<longleftrightarrow> (0::int) = 0) \<and>
    (\<exists>argv so se fs'. exec echo_env (os_procs demo_state) argv (workspace_root demo_ctx) 30 (os_fs demo_state) = (Exited so se 0, fs') \<and>
       (truncated echo_result \<longleftrightarrow> 3 < int (ulen (so @ se))) \<and> (truncated echo_result \<or> detail_for_llm echo_result = so @ se))"
proof (rule run_command_truncation)
  let ?run = "run_command_run echo_env 30 3 [(''command'', JStr ''git log'')] demo_ctx demo_state"
  have "fst ?run = Inr echo_result" by code_simp
  then show "?run = (Inr echo_result, snd ?run)" by (simp add: prod_eq_iff)
  show "exec_text echo_env" by (auto simp: exec_text_def echo_env_def wf_str_ascii)
qed (simp_all add: echo_result_def)

end
