(* ===== verification/Protocol.thy ===== *)
theory Protocol
  imports Json
begin

text \<open>
  The action protocol (src/aegiscode/protocol/action.py, parser.py): how the reply of the model is
  turned into an action.  The text of a decoder error and of a validation error is the argument
  \<open>diag\<close>.  White space in the fence pattern is the one-byte white space.  The limit on nested
  objects of the Python decoder (\<open>RecursionError\<close>) is not modelled.
\<close>

record action =
  tool_name :: string
  arguments :: args
  thought :: "string option"
  expectation :: "string option"

text \<open>
  The validation that the class \<open>Action\<close> declares: \<open>tool\<close> is a required string, \<open>arguments\<close> a
  dictionary (empty when absent), the other two a string or null.  Unknown keys are ignored; a
  string with a lone surrogate is not a valid string for the validator.
\<close>

definition valid_text :: "string \<Rightarrow> bool" where
  "valid_text s \<longleftrightarrow> list_all (\<lambda>c. \<not> is_surrogate c) (cps s)"

lemma valid_text_ascii: "ascii s \<Longrightarrow> valid_text s"
  by (auto simp: valid_text_def cps_ascii ascii_def list_all_iff is_surrogate_def)

fun str_field :: "json option \<Rightarrow> string option" where
  "str_field (Some (JStr s)) = (if valid_text s then Some s else None)"
| "str_field _ = None"

fun opt_str_field :: "json option \<Rightarrow> string option option" where
  "opt_str_field None = Some None"
| "opt_str_field (Some JNull) = Some None"
| "opt_str_field (Some (JStr s)) = (if valid_text s then Some (Some s) else None)"
| "opt_str_field _ = None"

fun dict_field :: "json option \<Rightarrow> args option" where
  "dict_field None = Some []"
| "dict_field (Some (JObj o1)) = Some o1"
| "dict_field _ = None"

definition build_action :: "args \<Rightarrow> action option" where
  "build_action data =
     (case (str_field (dget data ''tool''), dict_field (dget data ''arguments''),
            opt_str_field (dget data ''thought''), opt_str_field (dget data ''expectation'')) of
        (Some t, Some a, Some th, Some ex) \<Rightarrow>
          Some \<lparr>tool_name = t, arguments = a, thought = th, expectation = ex\<rparr>
      | _ \<Rightarrow> None)"

section \<open>Finding the object in the reply\<close>

definition TICKS :: string where "TICKS = ''```''"

definition space_char :: "char \<Rightarrow> bool" where
  "space_char c \<longleftrightarrow> c \<in> set py_space"

text \<open>The shortest text up to a closing brace that is followed by the closing fence.\<close>

fun fence_body :: "string \<Rightarrow> string option" where
  "fence_body [] = None"
| "fence_body (c # s) =
     (if c = CHR ''}'' \<and> startswith (dropWhile space_char s) TICKS then Some [c]
      else map_option ((#) c) (fence_body s))"

definition fence_at :: "string \<Rightarrow> string option" where
  "fence_at s =
     (if startswith s (TICKS @ ''json'')
      then (case dropWhile space_char (drop 7 s) of
              [] \<Rightarrow> None
            | c # r \<Rightarrow> if c = CHR ''{'' then map_option ((#) c) (fence_body r) else None)
      else None)"

fun fence_search :: "string \<Rightarrow> string option" where
  "fence_search [] = None"
| "fence_search (c # s) = (case fence_at (c # s) of Some b \<Rightarrow> Some b | None \<Rightarrow> fence_search s)"

text \<open>
  The last object: \<open>best\<close> is the last one found so far, the argument the text still to scan.
\<close>

definition find_brace :: "string \<Rightarrow> string" where
  "find_brace s = dropWhile (\<lambda>c. c \<noteq> CHR ''{'') s"

lemma find_brace_len: "length (find_brace s) \<le> length s"
  by (simp add: find_brace_def length_dropWhile_le)

function last_object_from :: "args option \<Rightarrow> string \<Rightarrow> jerr + args option" where
  "last_object_from best [] = Inr best"
| "last_object_from best (c # s) =
     (case raw_decode (c # s) of
        Inr (JObj o1, r) \<Rightarrow> last_object_from (Some o1) (find_brace r)
      | Inr (_, r) \<Rightarrow> last_object_from best (find_brace r)
      | Inl DecodeError \<Rightarrow> last_object_from best (find_brace s)
      | Inl e \<Rightarrow> Inl e)"
  by pat_completeness auto
termination
  by (relation "measure (\<lambda>(best, s). length s)")
    (auto dest!: raw_decode_len simp: less_Suc_eq_le find_brace_len intro: le_trans [OF find_brace_len])

definition last_json_object :: "string \<Rightarrow> jerr + args option" where
  "last_json_object text = last_object_from None (find_brace text)"

text \<open>
  \<open>parse_action\<close>.  A number with too many digits raises a \<open>ValueError\<close> that is not a decoder
  error, so it is not turned into an \<open>ActionParseError\<close>.
\<close>

definition parse_error :: "string \<Rightarrow> exn" where
  "parse_error m = exc ''ActionParseError'' m"

definition int_limit_error :: exn where
  "int_limit_error = exc ''ValueError'' ''Exceeds the limit (4300 digits) for integer string conversion''"

definition parse_action :: "(string \<Rightarrow> string) \<Rightarrow> string \<Rightarrow> action res" where
  "parse_action diag text =
     res_bind
       (case fence_search text of
          Some body \<Rightarrow>
            (case loads body of
               Inr v \<Rightarrow> Inr v
             | Inl DecodeError \<Rightarrow> Inl (parse_error (diag body))
             | Inl _ \<Rightarrow> Inl int_limit_error)
        | None \<Rightarrow>
            (case last_json_object text of
               Inr (Some o1) \<Rightarrow> Inr (JObj o1)
             | Inr None \<Rightarrow> Inl (parse_error ''no JSON object found'')
             | Inl _ \<Rightarrow> Inl int_limit_error))
       (\<lambda>data.
          case data of
            JObj o1 \<Rightarrow>
              (case build_action o1 of
                 Some a \<Rightarrow> Inr a
               | None \<Rightarrow> Inl (parse_error (diag (dumps False data))))
          | _ \<Rightarrow> Inl (parse_error (diag (dumps False data))))"

section \<open>Round trip\<close>

text \<open>No closing brace of \<open>b\<close> is followed, over white space, by a fence\<close>

definition no_fence_end :: "string \<Rightarrow> bool" where
  "no_fence_end b \<longleftrightarrow> (\<forall>u w v. b = u @ CHR ''}'' # w @ TICKS @ v \<longrightarrow> \<not> list_all space_char w)"

lemma fence_body_end:
  assumes "no_fence_end (b @ ''}'')"
  shows "fence_body (b @ CHR ''}'' # NL # TICKS @ post) = Some (b @ ''}'')"
  using assms
proof (induction b)
  case Nil
  show ?case by (simp add: space_char_def py_space_def TICKS_def startswith_def)
next
  case (Cons c b)
  let ?rest = "b @ CHR ''}'' # NL # TICKS @ post"
  have "no_fence_end (b @ ''}'')" using Cons.prems by (auto simp: no_fence_end_def) (metis append_Cons)
  moreover have "\<not> startswith (dropWhile space_char ?rest) TICKS" if "c = CHR ''}''"
  proof
    assume s: "startswith (dropWhile space_char ?rest) TICKS"
    define w where "w = takeWhile space_char (b @ ''}'')"
    define d where "d = dropWhile space_char (b @ ''}'')"
    have sp: "list_all space_char w" by (auto simp: w_def list_all_iff dest: set_takeWhileD)
    have bd: "b @ ''}'' = w @ d" by (simp add: w_def d_def)
    have brace: "\<not> space_char (CHR ''}'')" by (simp add: space_char_def py_space_def)
    then have ne: "d \<noteq> []" by (auto simp: d_def dropWhile_eq_Nil_conv)
    have "?rest = (b @ ''}'') @ NL # TICKS @ post" by simp
    then have rest: "dropWhile space_char ?rest = d @ NL # TICKS @ post"
      using brace unfolding d_def by (simp only: dropWhile_append) auto
    from s rest have "prefix TICKS (d @ NL # TICKS @ post)" by (simp add: startswith_iff_prefix)
    then have "prefix TICKS d \<or> (\<exists>k. TICKS = d @ k \<and> k \<noteq> [] \<and> prefix k (NL # TICKS @ post))"
      by (auto simp: prefix_append)
    moreover have "last d = CHR ''}''" using bd ne by (metis last_appendR last_snoc)
    ultimately have "prefix TICKS d" using ne by (auto simp: TICKS_def append_eq_Cons_conv Cons_eq_append_conv split: if_splits)
    then obtain v where "d = TICKS @ v" by (auto simp: prefix_def)
    with bd that have "(c # b) @ ''}'' = [] @ CHR ''}'' # w @ TICKS @ v" by simp
    with Cons.prems sp show False unfolding no_fence_end_def by blast
  qed
  ultimately show ?case using Cons.IH by auto
qed

definition opener :: string where "opener = TICKS @ ''json''"

lemma opener_overlap: "prefix opener (pre @ opener @ s) \<Longrightarrow> pre \<noteq> [] \<Longrightarrow> prefix opener pre"
  by (auto simp: opener_def TICKS_def prefix_Cons append_eq_Cons_conv Cons_eq_append_conv prefix_def)

lemma fence_search_skip:
  "\<not> sublist opener pre \<Longrightarrow> fence_at (opener @ s) = Some b \<Longrightarrow> fence_search (pre @ opener @ s) = Some b"
proof (induction pre)
  case Nil
  then show ?case by (simp add: opener_def TICKS_def)
next
  case (Cons c pre)
  have "\<not> prefix opener ((c # pre) @ opener @ s)" using opener_overlap [of "c # pre" s] Cons.prems(1) by auto
  then have "fence_at ((c # pre) @ opener @ s) = None"
    by (simp add: fence_at_def startswith_iff_prefix opener_def)
  moreover have "fence_search (pre @ opener @ s) = Some b" using Cons by (auto simp: sublist_Cons_right)
  ultimately show ?case by simp
qed

definition action_json :: "action \<Rightarrow> json" where
  "action_json a = JObj
     [(''tool'', JStr (tool_name a)), (''arguments'', JObj (arguments a)),
      (''thought'', case thought a of None \<Rightarrow> JNull | Some s \<Rightarrow> JStr s),
      (''expectation'', case expectation a of None \<Rightarrow> JNull | Some s \<Rightarrow> JStr s)]"

definition action_texts_valid :: "action \<Rightarrow> bool" where
  "action_texts_valid a \<longleftrightarrow> valid_text (tool_name a) \<and> pred_option valid_text (thought a) \<and>
     pred_option valid_text (expectation a)"

lemma build_action_json:
  "action_texts_valid a \<Longrightarrow> action_json a = JObj o1 \<Longrightarrow> build_action o1 = Some a"
  by (cases "thought a"; cases "expectation a") (auto simp: action_json_def build_action_def action_texts_valid_def)

definition reply :: "string \<Rightarrow> action \<Rightarrow> string \<Rightarrow> string" where
  "reply pre a post = pre @ TICKS @ ''json'' @ NL # dumps False (action_json a) @ NL # TICKS @ post"

text \<open>
  C11: A reply that holds an action in the fenced form of the protocol is parsed into that action: after
  any text that opens no JSON fence itself and before any text, provided that no closing brace in the
  encoding is followed by a fence (such an action is refused, \<open>parse_action_fence_in_text\<close>).
\<close>

theorem parse_action_reply:
  assumes "jwf (action_json a)" and "action_texts_valid a"
    and "\<not> str_in opener pre" and "no_fence_end (dumps False (action_json a))"
  shows "parse_action diag (reply pre a post) = Inr a"
proof -
  obtain o1 where o1: "action_json a = JObj o1" by (simp add: action_json_def)
  obtain b where b: "dumps False (action_json a) = CHR ''{'' # b @ ''}''" by (simp add: action_json_def)
  from assms(4) have "no_fence_end (b @ ''}'')"
    unfolding b by (auto simp: no_fence_end_def) (metis append_Cons)
  from fence_body_end [OF this, of post]
  have "fence_at (opener @ NL # dumps False (action_json a) @ NL # TICKS @ post) = Some (dumps False (action_json a))"
    by (simp add: b fence_at_def opener_def TICKS_def space_char_def py_space_def startswith_def)
  from fence_search_skip [OF _ this, of pre] assms(3)
  have "fence_search (reply pre a post) = Some (dumps False (action_json a))"
    by (simp add: reply_def opener_def str_in_iff_sublist)
  then show ?thesis
    using loads_dumps [OF assms(1)] build_action_json [OF assms(2) o1] o1
    by (simp add: parse_action_def)
qed

definition read_action :: action where
  "read_action = \<lparr>tool_name = ''read_file'', arguments = [(''path'', JStr ''a}.py'')], thought = None,
     expectation = Some ''ok''\<rparr>"

theorem parse_action_reply_witness:
  "parse_action (\<lambda>t. t) (reply ''I will read `a}.py`, not ```it```. '' read_action ''.'') = Inr read_action"
proof (rule parse_action_reply)
  show "jwf (action_json read_action)"
    by (simp add: action_json_def read_action_def str_ok_ascii)
  show "action_texts_valid read_action"
    by (simp add: action_texts_valid_def read_action_def valid_text_ascii)
  have "CHR 0x60 \<notin> set (dumps False (action_json read_action))" by code_simp
  then show "no_fence_end (dumps False (action_json read_action))"
    by (auto simp: no_fence_end_def TICKS_def)
  show "\<not> str_in opener ''I will read `a}.py`, not ```it```. ''" by code_simp
qed

definition fenced_text_action :: action where
  "fenced_text_action =
     \<lparr>tool_name = ''write_file'', arguments = [(''content'', JStr ''{}```'')], thought = None, expectation = None\<rparr>"

text \<open>
  Written text that ends a block with a closing brace and a fence cuts the object short: a
  well-formed action whose argument holds such text is refused as not being JSON.
\<close>

theorem parse_action_fence_in_text:
  "\<exists>body. jwf (action_json fenced_text_action) \<and>
     parse_action diag (reply [] fenced_text_action []) = Inl (parse_error (diag body))"
proof -
  have "fence_search (reply [] fenced_text_action []) =
      Some (take 51 (dumps False (action_json fenced_text_action)))"
    by code_simp
  moreover have "loads (take 51 (dumps False (action_json fenced_text_action))) = Inl DecodeError"
    by code_simp
  moreover have "jwf (action_json fenced_text_action)"
    by (simp add: action_json_def fenced_text_action_def str_ok_ascii)
  ultimately show ?thesis by (auto simp: parse_action_def)
qed

end
