(* ===== verification/Policy_Engine.thy ===== *)
theory Policy_Engine
  imports Command_Policy Protocol
begin

text \<open>
  The policy engine and its default tier (src/aegiscode/governance/engine.py, factory.py).  A
  matcher and the default function may raise, so they return a \<open>res\<close>.
\<close>

text \<open>\<open>repr(v)\<close> of an argument (a float is left as it was written)\<close>

fun json_repr :: "json \<Rightarrow> string" where
  "json_repr JNull = ''None''"
| "json_repr (JBool b) = (if b then ''True'' else ''False'')"
| "json_repr (JInt i) = str_of_int i"
| "json_repr (JFloat t) = t"
| "json_repr (JStr s) = py_repr s"
| "json_repr (JList vs) = ''['' @ join '', '' (map json_repr vs) @ '']''"
| "json_repr (JObj kvs) =
     ''{'' @ join '', '' (map (\<lambda>(k, v). py_repr k @ '': '' @ v) (map (map_prod id json_repr) kvs)) @ ''}''"

definition ARROW :: string where
  "ARROW = [CHR 0xE2, CHR 0x86, CHR 0x92]"

section \<open>The engine\<close>

record policy_rule =
  pr_id :: string
  matcher :: "action \<Rightarrow> bool res"
  pr_decision :: decision
  pr_reason :: string

record policy_engine =
  engine_rules :: "policy_rule list"
  default_fn :: "action \<Rightarrow> verdict res"

fun evaluate_rules :: "policy_rule list \<Rightarrow> (action \<Rightarrow> verdict res) \<Rightarrow> action \<Rightarrow> verdict res" where
  "evaluate_rules [] d a = d a"
| "evaluate_rules (r # rs) d a =
     res_bind (matcher r a) (\<lambda>b.
       if b then Inr (mk_verdict (pr_decision r) (pr_id r) (pr_reason r)) else evaluate_rules rs d a)"

definition evaluate :: "policy_engine \<Rightarrow> action \<Rightarrow> verdict res" where
  "evaluate e a = evaluate_rules (engine_rules e) (default_fn e) a"

section \<open>The default tier\<close>

definition READONLY_TOOLS :: "string list" where
  "READONLY_TOOLS = [''read_file'', ''list_files'', ''search_text'']"

definition slash_ended :: "string \<Rightarrow> string" where
  "slash_ended d = (if endswith d ''/'' then d else d @ ''/'')"

definition write_tier :: "governance \<Rightarrow> json \<Rightarrow> verdict res" where
  "write_tier g path =
     (let dirs = map slash_ended (write_allowlist_dirs g);
          dec = write_decision (gov_defaults g);
          other = Inr (mk_verdict dec ''TIER_WRITE''
                    (''write path '' @ json_repr path @ '' not in write_allowlist_dirs '' @ ARROW @ '' '' @ decision_value dec))
      in (case path of
            JStr p \<Rightarrow>
              (case find (startswith p) dirs of
                 Some d \<Rightarrow> Inr (mk_verdict ALLOW ''TIER_WRITE_ALLOWLISTED''
                             (''write path '' @ py_repr p @ '' is under allowlisted dir '' @ py_repr d))
               | None \<Rightarrow> other)
          | _ \<Rightarrow> if dirs = [] then other else Inl (no_attr path ''startswith'')))"

definition default_tier :: "governance \<Rightarrow> action \<Rightarrow> verdict res" where
  "default_tier g a =
     (let tool = tool_name a; dd = gov_defaults g in
      if tool = ''run_command''
      then judge_command (get_or (arguments a) ''command'' (JStr [])) (command_allowlist g) (command_rules g)
      else if tool = ''finish''
      then Inr (mk_verdict ALLOW ''TIER_FINISH'' ''finish action always allowed'')
      else if tool = ''run_tests''
      then Inr (mk_verdict ALLOW ''TIER_SENSOR''
             (''run_tests is the feedback sensor '' @ ARROW @ '' always allowed to execute''))
      else if tool \<in> set READONLY_TOOLS
      then Inr (mk_verdict (readonly_decision dd) ''TIER_READONLY''
             (''readonly tool '' @ py_repr tool @ '' '' @ ARROW @ '' '' @ decision_value (readonly_decision dd)))
      else if tool = ''write_file''
      then write_tier g (get_or (arguments a) ''path'' (JStr []))
      else Inr (mk_verdict (command_decision dd) ''TIER_DEFAULT''
             (''tool '' @ py_repr tool @ '' not recognised '' @ ARROW @ '' fail-closed '' @
              decision_value (command_decision dd))))"

definition build_default_fn :: "aegis_config \<Rightarrow> action \<Rightarrow> verdict res" where
  "build_default_fn config = default_tier (governance config)"

definition build_engine :: "aegis_config \<Rightarrow> policy_engine" where
  "build_engine config = \<lparr>engine_rules = [], default_fn = build_default_fn config\<rparr>"

section \<open>Properties of the default tier\<close>

lemma evaluate_build_engine [simp]: "evaluate (build_engine config) = build_default_fn config"
  by (simp add: evaluate_def build_engine_def fun_eq_iff)

text \<open>
  The first rule that matches decides, and with no matching rule the default tier does.
\<close>

theorem evaluate_first_match:
  assumes "\<forall>r \<in> set (engine_rules e). \<exists>b. matcher r a = Inr b"
  shows "evaluate e a =
     (case find (\<lambda>r. matcher r a = Inr True) (engine_rules e) of
        Some r \<Rightarrow> Inr (mk_verdict (pr_decision r) (pr_id r) (pr_reason r))
      | None \<Rightarrow> default_fn e a)"
proof -
  have "(\<forall>r \<in> set rs. \<exists>b. matcher r a = Inr b) \<Longrightarrow> evaluate_rules rs d a =
     (case find (\<lambda>r. matcher r a = Inr True) rs of
        Some r \<Rightarrow> Inr (mk_verdict (pr_decision r) (pr_id r) (pr_reason r))
      | None \<Rightarrow> d a)" for rs d
    by (induction rs) auto
  with assms show ?thesis by (simp add: evaluate_def)
qed

theorem evaluate_first_match_witness:
  "evaluate (build_engine default_config\<lparr>engine_rules := [\<lparr>pr_id = ''R'', matcher = \<lambda>a. Inr (tool_name a = ''finish''),
       pr_decision = DENY, pr_reason = ''no''\<rparr>]\<rparr>) read_action =
   default_fn (build_engine default_config) read_action"
  by (subst evaluate_first_match) (auto simp: read_action_def build_engine_def)

text \<open>
  With the built-in configuration only reads, the two sensors, a write under an allow-listed
  prefix and a judged command run without a human: every other action is denied or waits for
  approval, and no unknown tool is allowed.
\<close>

theorem default_tier_allows:
  assumes "build_default_fn default_config a = Inr v" and "v_decision v = ALLOW \<or> v_decision v = ALLOW_WITH_AUDIT"
  shows "tool_name a \<in> {''read_file'', ''list_files'', ''search_text'', ''run_tests'', ''finish''} \<or>
     tool_name a = ''write_file'' \<and> (\<exists>p. get_or (arguments a) ''path'' (JStr []) = JStr p \<and>
       (startswith p ''src/'' \<or> startswith p ''tests/'')) \<or>
     tool_name a = ''run_command'' \<and> (\<exists>s argv. get_or (arguments a) ''command'' (JStr []) = JStr s \<and>
       shlex_split s = Inr argv \<and> argv \<noteq> [] \<and> hd argv \<in> set (command_allowlist default_governance))"
proof (cases "tool_name a = ''run_command''")
  case True
  let ?cmd = "get_or (arguments a) ''command'' (JStr [])"
  have j: "judge_command ?cmd (command_allowlist default_governance) (command_rules default_governance) = Inr v"
    using assms(1) True by (simp add: build_default_fn_def default_tier_def default_config_def)
  from j show ?thesis
  proof (cases rule: judge_command_cases)
    case (refused r)
    with assms(2) show ?thesis by (simp add: mk_verdict_def)
  next
    case (judged s argv)
    with assms(2) have "hd argv \<in> set (command_allowlist default_governance)"
      using judge_argv_decision [of argv "command_allowlist default_governance"] by (auto split: if_splits)
    with judged True show ?thesis by blast
  qed
next
  case notcmd: False
  show ?thesis
  proof (cases "tool_name a = ''write_file''")
    case True
    then have w: "write_tier default_governance (get_or (arguments a) ''path'' (JStr [])) = Inr v"
      using assms(1) by (simp add: build_default_fn_def default_tier_def default_config_def READONLY_TOOLS_def)
    have dirs: "map slash_ended (write_allowlist_dirs default_governance) = [''src/'', ''tests/'']" by code_simp
    have dec: "write_decision (gov_defaults default_governance) = REQUIRE_APPROVAL" by code_simp
    from w assms(2) True show ?thesis
      by (auto simp: write_tier_def dirs dec mk_verdict_def Let_def split: json.splits option.splits if_splits)
  next
    case False
    with notcmd assms show ?thesis
      by (auto simp: build_default_fn_def default_tier_def default_config_def READONLY_TOOLS_def mk_verdict_def
          default_governance_def default_default_decisions_def Let_def split: if_splits)
  qed
qed

definition write_action :: "string \<Rightarrow> action" where
  "write_action p = \<lparr>tool_name = ''write_file'', arguments = [(''path'', JStr p), (''content'', JStr ''x'')],
     thought = None, expectation = None\<rparr>"

definition allowlisted_write :: "string \<Rightarrow> string \<Rightarrow> verdict" where
  "allowlisted_write p d = mk_verdict ALLOW ''TIER_WRITE_ALLOWLISTED''
     (''write path '' @ py_repr p @ '' is under allowlisted dir '' @ py_repr d)"

theorem default_tier_allows_witness:
  "tool_name (write_action ''src/a.py'') \<in> {''read_file'', ''list_files'', ''search_text'', ''run_tests'', ''finish''} \<or>
   tool_name (write_action ''src/a.py'') = ''write_file'' \<and>
     (\<exists>p. get_or (arguments (write_action ''src/a.py'')) ''path'' (JStr []) = JStr p \<and>
       (startswith p ''src/'' \<or> startswith p ''tests/'')) \<or>
   tool_name (write_action ''src/a.py'') = ''run_command'' \<and>
     (\<exists>s argv. get_or (arguments (write_action ''src/a.py'')) ''command'' (JStr []) = JStr s \<and>
       shlex_split s = Inr argv \<and> argv \<noteq> [] \<and> hd argv \<in> set (command_allowlist default_governance))"
proof (rule default_tier_allows)
  show "build_default_fn default_config (write_action ''src/a.py'') = Inr (allowlisted_write ''src/a.py'' ''src/'')"
    by code_simp
qed (simp add: allowlisted_write_def mk_verdict_def)

text \<open>
  The allow-listed directories are compared as string prefixes: a path that leaves such a
  directory again is written without approval, while the path it means needs approval.
\<close>

theorem write_prefix_bypass:
  "build_default_fn default_config (write_action ''src/../setup.py'') =
     Inr (allowlisted_write ''src/../setup.py'' ''src/'') \<and>
   map_sum id v_decision (build_default_fn default_config (write_action ''setup.py'')) = Inr REQUIRE_APPROVAL"
proof
  show "build_default_fn default_config (write_action ''src/../setup.py'') =
     Inr (allowlisted_write ''src/../setup.py'' ''src/'')" by code_simp
  show "map_sum id v_decision (build_default_fn default_config (write_action ''setup.py'')) = Inr REQUIRE_APPROVAL"
    by code_simp
qed

end
