(* ===== verification/Approval.thy ===== *)
theory Approval
  imports Protocol
begin

text \<open>
  Approval binding (src/aegiscode/governance/approval.py): the fingerprint of an action and the
  in-memory approval store.  The hash (SHA-256 of the text, as hexadecimal digits) is the argument
  \<open>H\<close>; the theorems say that two actions with one fingerprint are equal up to the order of
  dictionary keys or exhibit a collision of \<open>H\<close>.
\<close>

datatype approval_state = PENDING | APPROVED | REJECTED | EXPIRED | SUPERSEDED

fun approval_value :: "approval_state \<Rightarrow> string" where
  "approval_value PENDING = ''PENDING''"
| "approval_value APPROVED = ''APPROVED''"
| "approval_value REJECTED = ''REJECTED''"
| "approval_value EXPIRED = ''EXPIRED''"
| "approval_value SUPERSEDED = ''SUPERSEDED''"

type_synonym hash = "string \<Rightarrow> string"

definition fp_value :: "action \<Rightarrow> json" where
  "fp_value a = JObj [(''tool'', JStr (tool_name a)), (''arguments'', JObj (arguments a))]"

definition fp_text :: "action \<Rightarrow> string" where
  "fp_text a = dumps True (fp_value a)"

definition fingerprint :: "hash \<Rightarrow> action \<Rightarrow> string" where
  "fingerprint H a = H (fp_text a)"

definition superseded_error :: exn where
  "superseded_error = exc ''SupersededError'' ''action changed since approval''"

definition validate_resume :: "hash \<Rightarrow> string \<Rightarrow> action \<Rightarrow> unit res" where
  "validate_resume H approved_fp a =
     (if fingerprint H a \<noteq> approved_fp then Inl superseded_error else Inr ())"

section \<open>The store\<close>

record approval_request =
  ar_id :: string
  ar_task_id :: string
  ar_step_index :: int
  action_snapshot :: json
  action_fingerprint :: string
  ar_rule_id :: string
  ar_reason :: string
  risk_explanation :: string
  ar_state :: approval_state

record approval_store =
  reqs :: "(string \<times> approval_request) list"
  remembered :: "(string \<times> string) list"

text \<open>\<open>uid\<close> is the fresh \<open>uuid4\<close>.\<close>

definition store_create ::
  "string \<Rightarrow> string \<Rightarrow> int \<Rightarrow> json \<Rightarrow> string \<Rightarrow> string \<Rightarrow> string \<Rightarrow> string \<Rightarrow>
   approval_store \<Rightarrow> approval_request \<times> approval_store" where
  "store_create uid task step snap fp rule rsn risk st =
     (let req = \<lparr>ar_id = uid, ar_task_id = task, ar_step_index = step, action_snapshot = snap,
                 action_fingerprint = fp, ar_rule_id = rule, ar_reason = rsn, risk_explanation = risk,
                 ar_state = PENDING\<rparr>
      in (req, st\<lparr>reqs := AList.update uid req (reqs st)\<rparr>))"

definition store_get :: "string \<Rightarrow> approval_store \<Rightarrow> approval_request res" where
  "store_get i st =
     (case map_of (reqs st) i of Some r \<Rightarrow> Inr r | None \<Rightarrow> Inl (exc ''KeyError'' (py_repr i)))"

definition store_decide :: "string \<Rightarrow> bool \<Rightarrow> (approval_store, approval_state) eff" where
  "store_decide i approved st =
     (case map_of (reqs st) i of
        None \<Rightarrow> (Inl (exc ''KeyError'' (py_repr i)), st)
      | Some r \<Rightarrow>
          (let x = (if approved then APPROVED else REJECTED)
           in (Inr x, st\<lparr>reqs := AList.update i (r\<lparr>ar_state := x\<rparr>) (reqs st)\<rparr>)))"

definition remember :: "string \<Rightarrow> string \<Rightarrow> approval_store \<Rightarrow> approval_store" where
  "remember task fp st = st\<lparr>remembered := (task, fp) # remembered st\<rparr>"

definition check_remembered :: "string \<Rightarrow> string \<Rightarrow> approval_store \<Rightarrow> bool" where
  "check_remembered task fp st \<longleftrightarrow> (task, fp) \<in> set (remembered st)"

section \<open>Binding\<close>

definition action_wf :: "action \<Rightarrow> bool" where
  "action_wf a \<longleftrightarrow> jwf (fp_value a)"

text \<open>Two actions that differ at most in the order of the keys of their arguments\<close>

definition same_action :: "action \<Rightarrow> action \<Rightarrow> bool" where
  "same_action a b \<longleftrightarrow> tool_name a = tool_name b \<and> canon (JObj (arguments a)) = canon (JObj (arguments b))"

definition collision :: "hash \<Rightarrow> string \<Rightarrow> string \<Rightarrow> bool" where
  "collision H s t \<longleftrightarrow> s \<noteq> t \<and> H s = H t"

lemma canon_fp: "canon (fp_value a) = canon (fp_value b) \<longleftrightarrow> same_action a b"
  by (auto simp: fp_value_def same_action_def)

lemma resume_iff:
  assumes "action_wf a" and "action_wf b"
  shows "validate_resume H (fingerprint H a) b = Inr () \<longleftrightarrow>
     same_action a b \<or> collision H (fp_text a) (fp_text b)"
proof -
  have "fp_text a = fp_text b \<longleftrightarrow> same_action a b"
    using dumps_sorted_inj [of "fp_value a" "fp_value b"] assms canon_fp [of a b]
    by (auto simp: fp_text_def action_wf_def dumps_sorted_canon)
  then show ?thesis
    by (auto simp: validate_resume_def fingerprint_def collision_def)
qed

text \<open>
  C9: An approval resumes exactly the approved action: the check accepts an action if and only if
  it has the same tool and the same arguments up to key order, or its encoding collides with the
  approved one under the hash.
\<close>

theorem validate_resume_binds:
  assumes "action_wf a" and "action_wf b"
  shows "validate_resume H (fingerprint H a) b = Inr () \<longleftrightarrow>
     same_action a b \<or> collision H (fp_text a) (fp_text b)"
  by (rule resume_iff [OF assms])

definition swap_action :: "bool \<Rightarrow> action" where
  "swap_action b = \<lparr>tool_name = ''write_file'',
     arguments = (if b then rev else id) [(''path'', JStr ''a''), (''content'', JStr ''x'')], thought = None, expectation = None\<rparr>"

lemma swap_action_wf: "action_wf (swap_action b)"
  by (simp add: action_wf_def fp_value_def swap_action_def str_ok_ascii)

theorem validate_resume_binds_witness:
  "validate_resume (\<lambda>t. t) (fingerprint (\<lambda>t. t) (swap_action False)) (swap_action True) = Inr () \<longleftrightarrow>
     same_action (swap_action False) (swap_action True) \<or>
     collision (\<lambda>t. t) (fp_text (swap_action False)) (fp_text (swap_action True))"
  by (rule validate_resume_binds) (rule swap_action_wf)+

section \<open>The store keeps one state per request\<close>

lemma store_get_update [simp]:
  "store_get i (st\<lparr>reqs := AList.update j r (reqs st)\<rparr>) = (if i = j then Inr r else store_get i st)"
  by (simp add: store_get_def update_conv')

text \<open>
  A created request is pending until it is decided, a decision is what a later read returns,
  and no other request changes.
\<close>

lemma store_decide_get:
  assumes "store_create i task step snap fp rule rsn risk st = (req, st1)"
    and "store_decide i ok st1 = (res, st2)"
  shows "ar_state req = PENDING \<and> store_get i st1 = Inr req \<and>
     res = Inr (if ok then APPROVED else REJECTED) \<and>
     store_get i st2 = Inr (req\<lparr>ar_state := (if ok then APPROVED else REJECTED)\<rparr>) \<and>
     (\<forall>j. j \<noteq> i \<longrightarrow> store_get j st2 = store_get j st)"
  using assms by (auto simp: store_create_def store_decide_def store_get_def update_conv' Let_def)

end
