(* ===== verification/Dispatcher.thy ===== *)
theory Dispatcher
  imports Tools Policy_Engine Approval
begin

text \<open>
  The tool registry (src/aegiscode/tools/registry.py), its construction (service/assembly.py) and
  the dispatcher (src/aegiscode/governance/dispatcher.py), through which every tool call passes.
  A tool is a record with its run function; the state is any extension of \<open>os_state\<close>.
\<close>

section \<open>The registry\<close>

record param_spec =
  p_type :: string
  p_required :: bool
  p_note :: string

record 's tool =
  t_name :: string
  t_description :: string
  t_parameters :: "(string \<times> param_spec) list"
  t_run :: "args \<Rightarrow> ctx \<Rightarrow> ('s, tool_result) eff"

type_synonym 's registry = "(string \<times> 's tool) list"

definition register :: "'s tool \<Rightarrow> 's registry \<Rightarrow> 's registry" where
  "register t reg = AList.update (t_name t) t reg"

definition registry_get :: "'s registry \<Rightarrow> string \<Rightarrow> 's tool option" where
  "registry_get reg name = map_of reg name"

definition registry_names :: "'s registry \<Rightarrow> string list" where
  "registry_names reg = map fst reg"

definition describe_param :: "string \<times> param_spec \<Rightarrow> string" where
  "describe_param p = (case p of (n, m) \<Rightarrow>
     ''    - '' @ n @ '' ('' @ p_type m @ '', '' @ (if p_required m then ''required'' else ''optional'') @ ''): '' @ p_note m)"

definition describe_tool :: "'s tool \<Rightarrow> string" where
  "describe_tool t = join [NL]
     ((''- '' @ t_name t @ '': '' @ t_description t) #
      (if t_parameters t = [] then [''    (no arguments)''] else []) @ map describe_param (t_parameters t))"

definition describe :: "'s registry \<Rightarrow> string" where
  "describe reg = join [NL] (map (\<lambda>(n, t). describe_tool t) reg)"

definition param :: "string \<Rightarrow> bool \<Rightarrow> string \<Rightarrow> string \<times> param_spec" where
  "param n r note = (n, \<lparr>p_type = ''string'', p_required = r, p_note = note\<rparr>)"

definition write_file_tool :: "os_env \<Rightarrow> 's os_state_scheme tool" where
  "write_file_tool E = \<lparr>t_name = ''write_file'',
     t_description = ''Overwrite a text file in the workspace with the given content (full-content write).'',
     t_parameters =
       [param ''path'' True ''workspace-relative path; no traversal/absolute/sensitive files'',
        param ''content'' True ''full new file contents (text only; size-limited)''],
     t_run = write_file_run E\<rparr>"

definition read_file_tool :: "os_env \<Rightarrow> 's os_state_scheme tool" where
  "read_file_tool E = \<lparr>t_name = ''read_file'',
     t_description = ''Read a text file from the workspace and return its contents.'',
     t_parameters = [param ''path'' True ''workspace-relative path''],
     t_run = read_file_run E\<rparr>"

definition list_files_tool :: "os_env \<Rightarrow> 's os_state_scheme tool" where
  "list_files_tool E = \<lparr>t_name = ''list_files'',
     t_description = ''List entries of a workspace directory.'',
     t_parameters = [param ''path'' False (''workspace-relative dir; defaults to '' @ SQ # ''.'' @ [SQ])],
     t_run = list_files_run E\<rparr>"

definition search_text_tool :: "os_env \<Rightarrow> 's os_state_scheme tool" where
  "search_text_tool E = \<lparr>t_name = ''search_text'',
     t_description = ''Search all text files under the workspace for a substring; returns file:line matches.'',
     t_parameters = [param ''query'' True ''substring to search for''],
     t_run = search_text_run E\<rparr>"

definition finish_tool :: "'s tool" where
  "finish_tool = \<lparr>t_name = ''finish'',
     t_description = ''Declare the task complete. Only accepted after pytest objectively passes (final verifier re-runs it).'',
     t_parameters = [], t_run = finish_run\<rparr>"

definition run_command_tool :: "os_env \<Rightarrow> int \<Rightarrow> int \<Rightarrow> 's os_state_scheme tool" where
  "run_command_tool E timeout max_bytes = \<lparr>t_name = ''run_command'',
     t_description = ''Run an allowlisted shell command (shell=False, argv, cwd locked to workspace).'',
     t_parameters = [param ''command'' True ''command string; lexed + allowlist + rule governed''],
     t_run = run_command_run E timeout max_bytes\<rparr>"

definition run_tests_tool :: "os_env \<Rightarrow> string \<Rightarrow> int \<Rightarrow> int \<Rightarrow> 's os_state_scheme tool" where
  "run_tests_tool E cmd timeout max_bytes = \<lparr>t_name = ''run_tests'',
     t_description = ''Run the project's configured test command (the objective feedback sensor).'',
     t_parameters = [], t_run = run_tests_run E cmd timeout max_bytes\<rparr>"

text \<open>\<open>_build_registry\<close>: only the enabled tools, in a fixed order\<close>

definition all_tools :: "os_env \<Rightarrow> aegis_config \<Rightarrow> 's os_state_scheme tool list" where
  "all_tools E config =
     (let l = limits_of config in
      [write_file_tool E, read_file_tool E, list_files_tool E, search_text_tool E, finish_tool,
       run_command_tool E (command_timeout_sec l) (output_max_bytes l),
       run_tests_tool E (test_command (feedback config)) (command_timeout_sec l) (output_max_bytes l)])"

definition build_registry :: "os_env \<Rightarrow> aegis_config \<Rightarrow> 's os_state_scheme registry" where
  "build_registry E config =
     fold register (filter (\<lambda>t. t_name t \<in> set (enabled (tools config))) (all_tools E config)) []"

section \<open>The dispatcher\<close>

definition FILE_TOOLS :: "string list" where
  "FILE_TOOLS = [''read_file'', ''write_file'', ''list_files'', ''search_text'']"

definition python_like :: "string \<Rightarrow> bool" where
  "python_like a \<longleftrightarrow> startswith a ''python'' \<and> list_all (\<lambda>c. is_digit c \<or> c = CHR ''.'') (drop 6 a)"

text \<open>\<open>^(python\d?[\d.]*|pytest|ruff|mypy)$\<close>\<close>

definition file_consuming :: "string \<Rightarrow> bool" where
  "file_consuming a \<longleftrightarrow> python_like (chomp a) \<or> chomp a \<in> {''pytest'', ''ruff'', ''mypy''}"

definition looks_like_path :: "string \<Rightarrow> bool" where
  "looks_like_path t \<longleftrightarrow> startswith t ''/'' \<or> startswith t ''./'' \<or> startswith t ''../'' \<or> SL \<in> set t"

definition candidate :: "string \<Rightarrow> string" where
  "candidate t = (if startswith t ''--'' \<and> CHR ''='' \<in> set t then after (CHR ''='') t else t)"

record path_config =
  pc_root :: string
  sensitive_patterns :: "string list"

record 's dispatcher =
  registry :: "'s registry"
  engine :: policy_engine
  pc :: path_config

definition is_escape :: "string \<Rightarrow> bool" where
  "is_escape r \<longleftrightarrow> str_in ''escape'' r \<or> str_in ''outside workspace'' r"

fun fence_tokens :: "fs \<Rightarrow> path \<Rightarrow> bool \<Rightarrow> string \<Rightarrow> string list \<Rightarrow> string list \<Rightarrow> string option res" where
  "fence_tokens fs cwd consuming root pats [] = Inr None"
| "fence_tokens fs cwd consuming root pats (t # ts) =
     (let c = candidate t;
          sensitive_name = list_ex (fnmatch (basename c)) pats
      in if \<not> looks_like_path c \<and> \<not> sensitive_name then fence_tokens fs cwd consuming root pats ts
         else res_bind (check_path fs cwd (JStr c) root pats) (\<lambda>pv.
           if pv_allowed pv then fence_tokens fs cwd consuming root pats ts
           else if is_escape (pv_reason pv) \<or> consuming then Inr (Some (pv_reason pv))
           else fence_tokens fs cwd consuming root pats ts))"

definition fence_command :: "fs \<Rightarrow> path \<Rightarrow> json \<Rightarrow> string \<Rightarrow> string list \<Rightarrow> string option res" where
  "fence_command fs cwd command root pats =
     res_bind (lex_command command) (\<lambda>lex.
       if \<not> lex_ok lex then Inr None
       else fence_tokens fs cwd (file_consuming (hd (lex_argv lex))) root pats (tl (lex_argv lex)))"

definition effective_root :: "'s dispatcher \<Rightarrow> ctx \<Rightarrow> string" where
  "effective_root d c = (if workspace_root c \<noteq> [] then workspace_root c else pc_root (pc d))"

definition run_command_fence :: "'t dispatcher \<Rightarrow> action \<Rightarrow> ctx \<Rightarrow> 's os_state_scheme \<Rightarrow> string option res" where
  "run_command_fence d a c s =
     (if tool_name a \<noteq> ''run_command'' then Inr None
      else (let command = get_or (arguments a) ''command'' (JStr []) in
            if \<not> truthy command then Inr None
            else fence_command (os_fs s) (os_cwd s) command (effective_root d c) (sensitive_patterns (pc d))))"

text \<open>The fence for the tools that carry a path; \<open>None\<close> when it does not apply or allows.\<close>

definition file_fence :: "'t dispatcher \<Rightarrow> action \<Rightarrow> ctx \<Rightarrow> 's os_state_scheme \<Rightarrow> string option res" where
  "file_fence d a c s =
     (if tool_name a \<in> set FILE_TOOLS
      then (case dget (arguments a) ''path'' of
              None \<Rightarrow> Inr None
            | Some p \<Rightarrow>
                res_bind (check_path (os_fs s) (os_cwd s) p (effective_root d c) (sensitive_patterns (pc d)))
                  (\<lambda>pv. Inr (if pv_allowed pv then None else Some (pv_reason pv))))
      else Inr None)"

definition denied_result :: "action \<Rightarrow> string \<Rightarrow> tool_result" where
  "denied_result a r = mk_result (tool_name a) Denied (Some POLICY_DENIED) r"

definition unknown_result :: "action \<Rightarrow> tool_result" where
  "unknown_result a = mk_result (tool_name a) Error (Some INVALID_ACTION) (''unknown tool '' @ tool_name a)"

definition dispatch :: "'s os_state_scheme dispatcher \<Rightarrow> action \<Rightarrow> ctx \<Rightarrow>
    ('s os_state_scheme, verdict \<times> tool_result option) eff" where
  "dispatch d a c s =
     (case registry_get (registry d) (tool_name a) of
        None \<Rightarrow> (Inr (mk_verdict DENY ''UNKNOWN_TOOL'' ''unknown tool'', Some (unknown_result a)), s)
      | Some tool \<Rightarrow>
          (case file_fence d a c s of
             Inl e \<Rightarrow> (Inl e, s)
           | Inr (Some r) \<Rightarrow> (Inr (mk_verdict DENY ''PATH_FENCE'' r, Some (denied_result a r)), s)
           | Inr None \<Rightarrow>
               (case run_command_fence d a c s of
                  Inl e \<Rightarrow> (Inl e, s)
                | Inr (Some r) \<Rightarrow> (Inr (mk_verdict DENY ''CMD_PATH_FENCE'' r, Some (denied_result a r)), s)
                | Inr None \<Rightarrow>
                    (case evaluate (engine d) a of
                       Inl e \<Rightarrow>
                         (Inr (mk_verdict DENY ''INTERNAL_ERROR'' (exn_msg e),
                               Some (mk_result (tool_name a) Error (Some INTERNAL_ERROR_CAT)
                                       (''policy engine error: '' @ exn_msg e))), s)
                     | Inr v \<Rightarrow>
                         if v_decision v = DENY then (Inr (v, Some (denied_result a (v_reason v))), s)
                         else if v_decision v = REQUIRE_APPROVAL then (Inr (v, None), s)
                         else (case t_run tool (arguments a) c s of
                                 (Inl e, s') \<Rightarrow> (Inl e, s')
                               | (Inr r, s') \<Rightarrow> (Inr (v, Some r), s'))))))"

definition superseded_result :: "action \<Rightarrow> exn \<Rightarrow> tool_result" where
  "superseded_result a e =
     (denied_result a (''SUPERSEDED: '' @ exn_msg e))\<lparr>artifacts := [(''superseded'', JBool True)]\<rparr>"

definition execute_approved :: "hash \<Rightarrow> 's os_state_scheme dispatcher \<Rightarrow> action \<Rightarrow> ctx \<Rightarrow> string option \<Rightarrow>
    ('s os_state_scheme, tool_result) eff" where
  "execute_approved H d a c approved_fp s =
     (case (case approved_fp of None \<Rightarrow> Inr () | Some fp \<Rightarrow> validate_resume H fp a) of
        Inl e \<Rightarrow> (Inr (superseded_result a e), s)
      | Inr _ \<Rightarrow>
          (case registry_get (registry d) (tool_name a) of
             None \<Rightarrow> (Inr (unknown_result a), s)
           | Some tool \<Rightarrow>
               (case file_fence d a c s of
                  Inl e \<Rightarrow> (Inl e, s)
                | Inr (Some r) \<Rightarrow> (Inr (denied_result a r), s)
                | Inr None \<Rightarrow>
                    (case run_command_fence d a c s of
                       Inl e \<Rightarrow> (Inl e, s)
                     | Inr (Some r) \<Rightarrow> (Inr (denied_result a r), s)
                     | Inr None \<Rightarrow> t_run tool (arguments a) c s))))"

definition build_path_config :: "aegis_config \<Rightarrow> path_config" where
  "build_path_config config = \<lparr>pc_root = ws_root (workspace config),
     sensitive_patterns = sensitive_file_patterns (governance config)\<rparr>"

definition build_dispatcher :: "aegis_config \<Rightarrow> 's registry \<Rightarrow> 's dispatcher" where
  "build_dispatcher config reg = \<lparr>registry = reg, engine = build_engine config, pc = build_path_config config\<rparr>"

section \<open>What a dispatched action can change\<close>

lemma mk_result_simps [simp]:
  "r_status (mk_result t st c sm) = st" "artifacts (mk_result t st c sm) = []" "r_category (mk_result t st c sm) = c"
  "r_tool (mk_result t st c sm) = t" "r_summary (mk_result t st c sm) = sm" "detail_for_llm (mk_result t st c sm) = []"
  by (simp_all add: mk_result_def)

lemma mk_verdict_simps [simp]: "v_decision (mk_verdict d i r) = d" "rule_id (mk_verdict d i r) = i"
  by (simp_all add: mk_verdict_def)

definition runs :: "decision \<Rightarrow> bool" where
  "runs d \<longleftrightarrow> d = ALLOW \<or> d = ALLOW_WITH_AUDIT"

lemma runs_cases: "\<not> runs d \<longleftrightarrow> d = DENY \<or> d = REQUIRE_APPROVAL"
  by (cases d) (simp_all add: runs_def)

text \<open>The gate that both entry points share: a registered tool and both fences open\<close>

definition gate_open :: "'s os_state_scheme dispatcher \<Rightarrow> action \<Rightarrow> ctx \<Rightarrow> 's os_state_scheme \<Rightarrow> 's os_state_scheme tool \<Rightarrow> bool" where
  "gate_open d a c s tool \<longleftrightarrow> registry_get (registry d) (tool_name a) = Some tool \<and>
     file_fence d a c s = Inr None \<and> run_command_fence d a c s = Inr None"

text \<open>Either the tool ran, behind the open gate and an allowing verdict, or nothing changed.\<close>

lemma dispatch_cases:
  obtains (ran) tool v where "gate_open d a c s tool" "evaluate (engine d) a = Inr v" "runs (v_decision v)"
      "dispatch d a c s = (case t_run tool (arguments a) c s of (Inl e, s') \<Rightarrow> (Inl e, s') | (Inr r, s') \<Rightarrow> (Inr (v, Some r), s'))"
    | (blocked) v r where "dispatch d a c s = (Inr (v, r), s)" "\<not> runs (v_decision v)"
        "r = None \<longleftrightarrow> v_decision v = REQUIRE_APPROVAL" "\<And>x. r = Some x \<Longrightarrow> r_status x \<in> {Denied, Error} \<and> artifacts x = [] \<and> detail_for_llm x = []"
    | (raised) e where "dispatch d a c s = (Inl e, s)"
proof (cases "registry_get (registry d) (tool_name a)")
  case None
  then show thesis
    using blocked [of "mk_verdict DENY ''UNKNOWN_TOOL'' ''unknown tool''" "Some (unknown_result a)"]
    by (simp add: dispatch_def runs_def unknown_result_def)
next
  case reg: (Some tool)
  have deny: thesis if "dispatch d a c s = (Inr (mk_verdict DENY i r, Some x), s)" "r_status x \<in> {Denied, Error}" "artifacts x = [] \<and> detail_for_llm x = []" for i r x
    using that blocked [of "mk_verdict DENY i r" "Some x"] by (simp add: runs_def)
  have dr: "r_status (denied_result a x) \<in> {Denied, Error}" "artifacts (denied_result a x) = [] \<and> detail_for_llm (denied_result a x) = []" for x
    by (simp_all add: denied_result_def)
  show thesis
  proof (cases "file_fence d a c s")
    case (Inl e)
    with reg show thesis by (intro raised [of e]) (simp add: dispatch_def)
  next
    case ff: (Inr fr)
    show thesis
    proof (cases fr)
      case (Some x)
      with reg ff show thesis by (intro deny [OF _ dr]) (simp add: dispatch_def)
    next
      case none: None
      show thesis
      proof (cases "run_command_fence d a c s")
        case (Inl e)
        with reg ff none show thesis by (intro raised [of e]) (simp add: dispatch_def)
      next
        case cf: (Inr cr)
        show thesis
        proof (cases cr)
          case (Some x)
          with reg ff none cf show thesis by (intro deny [OF _ dr]) (simp add: dispatch_def)
        next
          case none2: None
          show thesis
          proof (cases "evaluate (engine d) a")
            case (Inl e)
            with reg ff none cf none2 show thesis
              by (intro deny [of "''INTERNAL_ERROR''" "exn_msg e"]) (simp add: dispatch_def, simp, simp)
          next
            case (Inr v)
            show thesis
            proof (cases "runs (v_decision v)")
              case True
              with reg ff none cf none2 Inr show thesis
                by (intro ran [of tool v]) (auto simp: dispatch_def runs_def gate_open_def)
            next
              case False
              with reg ff none cf none2 Inr dr [of "v_reason v"] show thesis
                by (intro blocked [of v "if v_decision v = DENY then Some (denied_result a (v_reason v)) else None"])
                  (auto simp: dispatch_def runs_cases)
            qed
          qed
        qed
      qed
    qed
  qed
qed

lemma execute_approved_cases:
  obtains (ran) tool where "gate_open d a c s tool" "execute_approved H d a c fp s = t_run tool (arguments a) c s"
      "\<And>f. fp = Some f \<Longrightarrow> validate_resume H f a = Inr ()"
    | (superseded) f where "fp = Some f" "validate_resume H f a = Inl superseded_error"
        "execute_approved H d a c fp s = (Inr (superseded_result a superseded_error), s)"
    | (blocked) r where "execute_approved H d a c fp s = (Inr r, s)" "r_status r \<in> {Denied, Error}" "artifacts r = []"
    | (raised) e where "execute_approved H d a c fp s = (Inl e, s)"
proof -
  let ?v = "case fp of None \<Rightarrow> Inr () | Some fp \<Rightarrow> validate_resume H fp a"
  have dr: "r_status (denied_result a x) \<in> {Denied, Error}" "artifacts (denied_result a x) = []" for x
    by (simp_all add: denied_result_def)
  show thesis
  proof (cases ?v)
    case (Inl e)
    then obtain f where f: "fp = Some f" by (cases fp) auto
    with Inl have "e = superseded_error" by (auto simp: validate_resume_def split: if_splits)
    with f Inl show thesis by (intro superseded [of f]) (auto simp: execute_approved_def)
  next
    case ok: (Inr u)
    then have okf: "\<And>f. fp = Some f \<Longrightarrow> validate_resume H f a = Inr ()" by auto
    show thesis
    proof (cases "registry_get (registry d) (tool_name a)")
      case None
      with ok show thesis
        by (intro blocked [of "unknown_result a"]) (simp add: execute_approved_def, simp_all add: unknown_result_def)
    next
      case reg: (Some tool)
      show thesis
      proof (cases "file_fence d a c s")
        case (Inl e)
        with ok reg show thesis by (intro raised [of e]) (simp add: execute_approved_def)
      next
        case ff: (Inr fr)
        show thesis
        proof (cases fr)
          case (Some x)
          with ok reg ff show thesis by (intro blocked [OF _ dr]) (simp add: execute_approved_def)
        next
          case none: None
          show thesis
          proof (cases "run_command_fence d a c s")
            case (Inl e)
            with ok reg ff none show thesis by (intro raised [of e]) (simp add: execute_approved_def)
          next
            case cf: (Inr cr)
            show thesis
            proof (cases cr)
              case (Some x)
              with ok reg ff none cf show thesis by (intro blocked [OF _ dr]) (simp add: execute_approved_def)
            next
              case none2: None
              with ok okf reg ff none cf show thesis
                by (intro ran [of tool]) (simp_all add: execute_approved_def gate_open_def)
            qed
          qed
        qed
      qed
    qed
  qed
qed

text \<open>
  The contract of a registry: what a run of each tool may change.  The dispatcher adds nothing
  to it: under either entry point the state changes only as the contract of the named tool says,
  and only behind the open gate.
\<close>

locale tool_contract =
  fixes reg :: "'s os_state_scheme registry"
    and effect :: "string \<Rightarrow> args \<Rightarrow> ctx \<Rightarrow> 's os_state_scheme \<Rightarrow> 's os_state_scheme \<Rightarrow> bool"
  assumes run_effect: "registry_get reg n = Some tool \<Longrightarrow> effect n a c s (snd (t_run tool a c s))"
begin

lemma dispatch_effect:
  assumes "registry d = reg" and "snd (dispatch d a c s) \<noteq> s"
  shows "\<exists>tool v. gate_open d a c s tool \<and> evaluate (engine d) a = Inr v \<and> runs (v_decision v) \<and>
    effect (tool_name a) (arguments a) c s (snd (dispatch d a c s))"
proof (rule dispatch_cases [of d a c s])
  fix tool v
  assume g: "gate_open d a c s tool" "evaluate (engine d) a = Inr v" "runs (v_decision v)"
    "dispatch d a c s = (case t_run tool (arguments a) c s of (Inl e, s') \<Rightarrow> (Inl e, s') | (Inr r, s') \<Rightarrow> (Inr (v, Some r), s'))"
  then have "snd (dispatch d a c s) = snd (t_run tool (arguments a) c s)"
    by (simp split: prod.splits sum.splits)
  with g run_effect assms(1) show ?thesis unfolding gate_open_def by metis
qed (use assms in simp_all)

lemma execute_effect:
  assumes "registry d = reg" and "snd (execute_approved H d a c fp s) \<noteq> s"
  shows "\<exists>tool. gate_open d a c s tool \<and> (\<forall>f. fp = Some f \<longrightarrow> validate_resume H f a = Inr ()) \<and>
    effect (tool_name a) (arguments a) c s (snd (execute_approved H d a c fp s))"
proof (rule execute_approved_cases [of d a c s H fp])
  fix tool
  assume g: "gate_open d a c s tool" "execute_approved H d a c fp s = t_run tool (arguments a) c s"
    "\<And>f. fp = Some f \<Longrightarrow> validate_resume H f a = Inr ()"
  with run_effect assms(1) show ?thesis unfolding gate_open_def by metis
qed (use assms in simp_all)

end

text \<open>What the tools of the built registry change\<close>

definition at_most_one_process :: "'s os_state_scheme \<Rightarrow> 's os_state_scheme \<Rightarrow> bool" where
  "at_most_one_process s s' \<longleftrightarrow> s' = s \<or> os_procs s' = Suc (os_procs s)"

definition tool_effect :: "os_env \<Rightarrow> string \<Rightarrow> args \<Rightarrow> ctx \<Rightarrow> 's os_state_scheme \<Rightarrow> 's os_state_scheme \<Rightarrow> bool" where
  "tool_effect E n a c s s' \<longleftrightarrow>
     (if n = ''write_file'' then s' = snd (write_file_run E a c s)
      else if n = ''run_command'' \<or> n = ''run_tests'' then at_most_one_process s s'
      else s' = s)"

lemma run_process_procs: "os_procs (snd (run_process E argv d t s)) = Suc (os_procs s)"
  by (simp add: run_process_def split: prod.splits)

lemma run_command_snd:
  "at_most_one_process s (snd (run_command_run E t m a c s))"
  by (auto simp: at_most_one_process_def run_command_run_def andThen_def run_process_def Let_def split: sum.splits proc_result.splits prod.splits)

lemma run_tests_snd:
  "at_most_one_process s (snd (run_tests_run E cmd t m a c s))"
  by (auto simp: at_most_one_process_def run_tests_run_def andThen_def run_process_def Let_def split: sum.splits proc_result.splits prod.splits)

lemma fold_register_get:
  "registry_get (fold register ts reg) n = Some t \<Longrightarrow> t \<in> set ts \<and> t_name t = n \<or> registry_get reg n = Some t"
proof (induction ts arbitrary: reg)
  case (Cons x ts)
  from Cons.IH [of "register x reg"] Cons.prems show ?case
    by (auto simp: registry_get_def register_def update_conv' split: if_splits)
qed simp

lemma build_registry_get:
  "registry_get (build_registry E config) n = Some t \<Longrightarrow>
     t \<in> set (all_tools E config) \<and> t_name t = n \<and> n \<in> set (enabled (tools config))"
  by (auto simp: build_registry_def registry_get_def dest!: fold_register_get [unfolded registry_get_def])

lemma tool_effect_runs:
  assumes "registry_get (build_registry E config) n = Some t"
  shows "tool_effect E n a c s (snd (t_run t a c s))"
  using build_registry_get [OF assms]
  by (auto simp: run_command_snd run_tests_snd all_tools_def tool_effect_def Let_def frame_simps write_file_tool_def read_file_tool_def list_files_tool_def
      search_text_tool_def finish_tool_def run_command_tool_def run_tests_tool_def)

interpretation built: tool_contract "build_registry E config" "tool_effect E" for E config
  by unfold_locales (rule tool_effect_runs)

section \<open>Properties of the dispatcher\<close>

lemma file_fence_None:
  assumes "file_fence d a c s = Inr None" and "tool_name a \<in> set FILE_TOOLS" and "dget (arguments a) ''path'' = Some p"
  obtains v where "check_path (os_fs s) (os_cwd s) p (effective_root d c) (sensitive_patterns (pc d)) = Inr v" "pv_allowed v"
  using assms by (auto simp: file_fence_def split: if_splits elim!: res_bind_InrE)

text \<open>
  C2: A dispatched action changes the world only if its tool is registered, both fences pass and
  the policy engine answers \<open>ALLOW\<close> or \<open>ALLOW_WITH_AUDIT\<close>, which is then the verdict returned:
  a denied action, one that waits for approval and one whose evaluation fails change nothing.
\<close>

theorem dispatch_guarded:
  assumes "dispatch d a c s = (r, s')" and "s' \<noteq> s"
  shows "\<exists>tool v. gate_open d a c s tool \<and> evaluate (engine d) a = Inr v \<and> runs (v_decision v) \<and>
     s' = snd (t_run tool (arguments a) c s) \<and> (\<forall>v' x. r = Inr (v', x) \<longrightarrow> v' = v)"
proof (cases rule: dispatch_cases [of d a c s])
  case (ran tool v)
  then have "s' = snd (t_run tool (arguments a) c s) \<and> (\<forall>v' x. r = Inr (v', x) \<longrightarrow> v' = v)"
    using assms(1) by (auto split: prod.splits sum.splits)
  with ran show ?thesis by blast
qed (use assms in simp_all)

definition demo_dispatcher :: "os_state dispatcher" where
  "demo_dispatcher = build_dispatcher default_config (build_registry plain_env default_config)"

definition demo_run :: "action \<Rightarrow> (verdict \<times> tool_result option) res \<times> os_state" where
  "demo_run a = dispatch demo_dispatcher a demo_ctx demo_state"

theorem dispatch_guarded_witness:
  "\<exists>tool v. gate_open demo_dispatcher (write_action ''src/a.py'') demo_ctx demo_state tool \<and>
     evaluate (engine demo_dispatcher) (write_action ''src/a.py'') = Inr v \<and> runs (v_decision v) \<and>
     snd (demo_run (write_action ''src/a.py'')) = snd (t_run tool (arguments (write_action ''src/a.py'')) demo_ctx demo_state) \<and>
     (\<forall>v' x. fst (demo_run (write_action ''src/a.py'')) = Inr (v', x) \<longrightarrow> v' = v)"
proof (rule dispatch_guarded)
  show "dispatch demo_dispatcher (write_action ''src/a.py'') demo_ctx demo_state =
      (fst (demo_run (write_action ''src/a.py'')), snd (demo_run (write_action ''src/a.py'')))"
    by (simp add: demo_run_def)
  have "lstat (os_fs (snd (demo_run (write_action ''src/a.py'')))) [''ws'', ''src'', ''a.py''] \<noteq>
      lstat (os_fs demo_state) [''ws'', ''src'', ''a.py'']" by code_simp
  then show "snd (demo_run (write_action ''src/a.py'')) \<noteq> demo_state" by metis
qed

lemma build_dispatcher_sel [simp]:
  "registry (build_dispatcher config reg) = reg" "engine (build_dispatcher config reg) = build_engine config"
  "pc (build_dispatcher config reg) = build_path_config config"
  by (simp_all add: build_dispatcher_def)

lemma write_pathE:
  assumes "snd (write_file_run E a c s) \<noteq> s" and "lstat (os_fs s) (os_cwd s) = Some Dir"
  obtains p where "get_item a ''path'' = Inr (JStr p)"
proof -
  obtain x where x: "get_item a ''path'' = Inr x"
    using assms(1) by (cases "get_item a ''path''") (auto simp: write_file_run_def andThen_def)
  show thesis
  proof (cases "\<exists>p. x = JStr p")
    case False
    then have "\<exists>e. need_str x (not_path x) = Inl e" by (cases x) (auto simp: need_str_def)
    then have "snd (write_file_run E a c s) = s"
      using x by (auto simp: write_file_run_def andThen_def split: sum.splits)
    with assms(1) show thesis by simp
  qed (use x that in blast)
qed

lemma gate_write_contained:
  assumes "wf_fs (os_fs s)" and "lstat (os_fs s) (os_cwd s) = Some Dir" and "workspace_root c \<noteq> []"
    and "gate_open d a c s tool" and "tool_effect E (tool_name a) (arguments a) c s s'"
    and "tool_name a \<notin> {''run_command'', ''run_tests''}"
  shows "same_but_fs s s' \<and> (fs_written {} (os_fs s) (os_fs s') \<or>
     tool_name a = ''write_file'' \<and> (\<exists>p. get_item (arguments a) ''path'' = Inr (JStr p) \<and> one_file_written p c s s' (arguments a)))"
proof (cases "s' = s")
  case True
  then show ?thesis by (simp add: fs_written_def)
next
  case False
  then have w: "tool_name a = ''write_file''" and s': "s' = snd (write_file_run E (arguments a) c s)"
    using assms(5,6) by (auto simp: tool_effect_def split: if_splits)
  from False s' obtain p where p: "get_item (arguments a) ''path'' = Inr (JStr p)"
    using write_pathE assms(2) by metis
  then have "dget (arguments a) ''path'' = Some (JStr p)" by (auto simp: get_item_def split: option.splits)
  then obtain v where v: "check_path (os_fs s) (os_cwd s) (JStr p) (workspace_root c) (sensitive_patterns (pc d)) = Inr v"
    "pv_allowed v"
    using file_fence_None [of d a c s "JStr p"] assms(3,4) w
    by (auto simp: gate_open_def FILE_TOOLS_def effective_root_def)
  obtain r where r: "write_file_run E (arguments a) c s = (r, s')"
    using s' by (metis prod.collapse)
  from write_file_contained [OF assms(1,2) p v r] p w show ?thesis by (auto split: if_splits)
qed

text \<open>
  C1: End to end, through the built registry and under either entry point (dispatch, or execution
  after an approval), an action other than running a process changes at most one file, and this only
  by \<open>write_file\<close>: the one that the path of the action leads to, in the real workspace root, which then
  holds the content of the action, within the size limit.  Nothing is removed, besides it only empty
  directories appear, and no process is started.
\<close>

theorem dispatch_contained:
  assumes "wf_fs (os_fs s)" and "lstat (os_fs s) (os_cwd s) = Some Dir" and "workspace_root c \<noteq> []"
    and "d = build_dispatcher config (build_registry E config)"
    and "s' = snd (dispatch d a c s) \<or> s' = snd (execute_approved H d a c fp s)"
    and "tool_name a \<notin> {''run_command'', ''run_tests''}"
  shows "same_but_fs s s' \<and> (fs_written {} (os_fs s) (os_fs s') \<or>
     tool_name a = ''write_file'' \<and> (\<exists>p. get_item (arguments a) ''path'' = Inr (JStr p) \<and> one_file_written p c s s' (arguments a)))"
proof (cases "s' = s")
  case True
  then show ?thesis by (simp add: fs_written_def)
next
  case False
  then obtain tool where "gate_open d a c s tool" "tool_effect E (tool_name a) (arguments a) c s s'"
    using assms(4,5) built.dispatch_effect [of d E config a c s] built.execute_effect [of d E config H a c fp s]
    by auto
  from gate_write_contained [OF assms(1-3) this assms(6)] show ?thesis .
qed

theorem dispatch_contained_witness:
  "one_file_written ''l/a.py'' demo_ctx demo_state (snd (execute_approved (\<lambda>t. t)
     (build_dispatcher default_config (build_registry plain_env default_config)) (write_action ''l/a.py'') demo_ctx None demo_state)) (arguments (write_action ''l/a.py''))"
proof -
  let ?d = "build_dispatcher default_config (build_registry plain_env default_config)" and ?a = "write_action ''l/a.py''"
  let ?s = "snd (execute_approved (\<lambda>t. t) ?d ?a demo_ctx None demo_state)"
  have "lstat (os_fs ?s) [''ws'', ''src'', ''a.py''] = Some (File ''x'')" "lstat (os_fs demo_state) [''ws'', ''src'', ''a.py''] = None"
    by code_simp+
  then have "\<not> fs_written {} (os_fs demo_state) (os_fs ?s)"
    by (auto simp: fs_written_def intro!: exI [of _ "[''ws'', ''src'', ''a.py'']"])
  moreover have "get_item (arguments ?a) ''path'' = Inr (JStr ''l/a.py'')" by (simp add: get_item_def write_action_def)
  ultimately show ?thesis
    using dispatch_contained [OF demo_state_ok _ refl, of demo_ctx ?s default_config plain_env ?a "\<lambda>t. t" None]
    by (auto simp: demo_ctx_def write_action_def)
qed

text \<open>
  C4: Text that \<open>read_file\<close> returns through the dispatcher is the decoded content of a file below
  the real workspace root whose real path matches no sensitive pattern.
\<close>

theorem dispatch_read_contained:
  assumes "wf_fs (os_fs s)" and "lstat (os_fs s) (os_cwd s) = Some Dir" and "workspace_root c \<noteq> []"
    and "NUL \<notin> set (realpath (os_fs s) (os_cwd s) (workspace_root c))"
    and "d = build_dispatcher config (build_registry E config)"
    and "dispatch d a c s = (Inr (v, Some r), s')" and "tool_name a = ''read_file''"
    and "detail_for_llm r \<noteq> []"
  shows "\<exists>q b. lstat (os_fs s) q = Some (File b) \<and> detail_for_llm r = decode_replace b \<and>
     prefix (realpath_segs (os_fs s) (os_cwd s) (workspace_root c)) q \<and>
     \<not> matches_sensitive (abs_str q) (sensitive_file_patterns (governance config))"
proof (cases rule: dispatch_cases [of d a c s])
  case (ran tool v')
  then have t: "t_run tool (arguments a) c s = (Inr r, s')"
    using assms(6) by (auto split: prod.splits sum.splits)
  have "tool = read_file_tool E"
    using ran(1) assms(5,7) build_registry_get [of E config "tool_name a" tool]
    by (auto simp: gate_open_def all_tools_def Let_def write_file_tool_def list_files_tool_def
        search_text_tool_def finish_tool_def run_command_tool_def run_tests_tool_def)
  with t have run: "read_file_run E (arguments a) c s = (Inr r, s')" by (simp add: read_file_tool_def)
  obtain p where p: "get_item (arguments a) ''path'' = Inr (JStr p)"
    using run by (auto simp: read_file_run_def andThen_def need_str_def split: sum.splits json.splits)
  obtain q b where q: "NUL \<notin> set (ctx_resolve (workspace_root c) p)"
    "resolve (os_fs s) (os_cwd s) (ctx_resolve (workspace_root c) p) = Some q"
    "lstat (os_fs s) q = Some (File b)" "detail_for_llm r = decode_replace b"
    using run p assms(8)
    by (auto simp: read_file_run_def andThen_def need_str_def except_os_def catch_def read_bytes_def tool_error_def Let_def
        split: sum.splits if_splits option.splits node.splits)
  have "dget (arguments a) ''path'' = Some (JStr p)" using p by (auto simp: get_item_def split: option.splits)
  then obtain pv where pv: "check_path (os_fs s) (os_cwd s) (JStr p) (workspace_root c) (sensitive_patterns (pc d)) = Inr pv"
    "pv_allowed pv"
    using file_fence_None [of d a c s "JStr p"] assms(3,7) ran(1)
    by (auto simp: gate_open_def FILE_TOOLS_def effective_root_def)
  have "NUL \<notin> set (path_join (realpath (os_fs s) (os_cwd s) (workspace_root c)) p)"
    using q(1) assms(4) by (auto simp: ctx_resolve_def path_join_def isabs_def split: if_splits)
  from fence_guarantee [OF assms(1,2) pv this] q assms(5) show ?thesis by (auto simp: build_path_config_def)
next
  case (blocked v' r')
  then have "r' = Some r" using assms(6) by simp
  then show ?thesis using blocked(4) assms(8) by auto
next
  case (raised e)
  then show ?thesis using assms(6) by simp
qed

definition read_src :: "string \<Rightarrow> action" where
  "read_src p = \<lparr>tool_name = ''read_file'', arguments = [(''path'', JStr p)], thought = None, expectation = None\<rparr>"

definition readable_state :: os_state where
  "readable_state = demo_state\<lparr>os_fs := os_fs demo_state @ [([''ws'', ''src'', ''m.py''], File ''print'')]\<rparr>"

definition read_out :: tool_result where
  "read_out = (mk_result ''read_file'' Success None ''read 1 lines'')\<lparr>detail_for_llm := ''print''\<rparr>"

definition read_verdict :: verdict where
  "read_verdict = mk_verdict ALLOW ''TIER_READONLY''
     (''readonly tool '' @ py_repr ''read_file'' @ '' '' @ ARROW @ '' ALLOW'')"

theorem dispatch_read_contained_witness:
  "\<exists>q b. lstat (os_fs readable_state) q = Some (File b) \<and> detail_for_llm read_out = decode_replace b \<and>
     prefix (realpath_segs (os_fs readable_state) (os_cwd readable_state) (workspace_root demo_ctx)) q \<and>
     \<not> matches_sensitive (abs_str q) (sensitive_file_patterns (governance default_config))"
proof (rule dispatch_read_contained [where config = default_config and E = plain_env])
  let ?d = "build_dispatcher default_config (build_registry plain_env default_config)"
  have "fst (dispatch ?d (read_src ''l/m.py'') demo_ctx readable_state) = Inr (read_verdict, Some read_out)" by code_simp
  then show "dispatch ?d (read_src ''l/m.py'') demo_ctx readable_state =
      (Inr (read_verdict, Some read_out), snd (dispatch ?d (read_src ''l/m.py'') demo_ctx readable_state))"
    by (simp add: prod_eq_iff)
  show "wf_fs (os_fs readable_state)" "lstat (os_fs readable_state) (os_cwd readable_state) = Some Dir" by code_simp+
  show "NUL \<notin> set (realpath (os_fs readable_state) (os_cwd readable_state) (workspace_root demo_ctx))" by code_simp
qed (simp_all add: demo_ctx_def read_src_def read_out_def)

text \<open>
  C3: An approval executes the approved action or nothing: when an execution under the fingerprint
  of one action changes the world, the executed action is that action (up to key order) or the two
  encodings collide; a changed action is reported as superseded and leaves the world as it was.
\<close>

theorem execute_approved_bound:
  assumes "action_wf a0" and "action_wf a" and "\<not> collision H (fp_text a0) (fp_text a)"
    and "execute_approved H d a c (Some (fingerprint H a0)) s = (r, s')"
  shows "(s' \<noteq> s \<longrightarrow> same_action a0 a \<and> (\<exists>tool. gate_open d a c s tool \<and> (r, s') = t_run tool (arguments a) c s)) \<and>
     (\<not> same_action a0 a \<longrightarrow> s' = s \<and> r = Inr (superseded_result a superseded_error))"
proof -
  have bind: "validate_resume H (fingerprint H a0) a = Inr () \<longleftrightarrow> same_action a0 a"
    using resume_iff [OF assms(1,2), of H] assms(3) by blast
  have "(if same_action a0 a then validate_resume H (fingerprint H a0) a = Inr ()
      else validate_resume H (fingerprint H a0) a = Inl superseded_error)"
    using bind by (auto simp: validate_resume_def split: if_splits)
  then show ?thesis
    using assms(4) bind
    by (cases rule: execute_approved_cases [of d a c s H "Some (fingerprint H a0)"])
      (auto simp: execute_approved_def split: if_splits)
qed

theorem execute_approved_bound_witness:
  "\<exists>r s'. execute_approved (\<lambda>t. t) demo_dispatcher (write_action ''src/b'') demo_ctx
      (Some (fingerprint (\<lambda>t. t) (write_action ''src/a''))) demo_state = (r, s') \<and> s' = demo_state \<and>
    r = Inr (superseded_result (write_action ''src/b'') superseded_error)"
proof -
  obtain r s' where e: "execute_approved (\<lambda>t. t) demo_dispatcher (write_action ''src/b'') demo_ctx
      (Some (fingerprint (\<lambda>t. t) (write_action ''src/a''))) demo_state = (r, s')" by fastforce
  have wf: "action_wf (write_action ''src/a'')" "action_wf (write_action ''src/b'')"
    by (simp_all add: action_wf_def fp_value_def write_action_def str_ok_ascii)
  have col: "\<not> collision (\<lambda>t. t) (fp_text (write_action ''src/a'')) (fp_text (write_action ''src/b''))"
    by (simp add: collision_def)
  have "\<not> same_action (write_action ''src/a'') (write_action ''src/b'')" by code_simp
  with execute_approved_bound [OF wf col e] e show ?thesis by blast
qed

section \<open>The command fence\<close>

lemma fence_tokens_None:
  "fence_tokens fs cwd consuming root pats ts = Inr None \<Longrightarrow> t \<in> set ts \<Longrightarrow> looks_like_path (candidate t) \<Longrightarrow>
   \<exists>v. check_path fs cwd (JStr (candidate t)) root pats = Inr v \<and>
     (pv_allowed v \<or> \<not> is_escape (pv_reason v) \<and> \<not> consuming)"
  by (induction ts) (auto simp: Let_def split: if_splits elim!: res_bind_InrE)

lemma escape_reasons_escape: "r \<in> set escape_reasons \<Longrightarrow> is_escape r"
proof -
  have "list_all is_escape escape_reasons" by code_simp
  then show "r \<in> set escape_reasons \<Longrightarrow> is_escape r" by (simp add: list_all_iff)
qed

text \<open>
  When a command runs, every one of its arguments that looks like a path (after a leading
  \<open>--opt=\<close> is removed) and that the process could open leads below the real workspace root.
\<close>

theorem command_arguments_contained:
  assumes "wf_fs (os_fs s)" and "lstat (os_fs s) (os_cwd s) = Some Dir" and "workspace_root c \<noteq> []"
    and "gate_open d a c s tool" and "tool_name a = ''run_command''"
    and "get_or (arguments a) ''command'' (JStr []) = JStr cmd" and "lex_str cmd = lr" and "lex_ok lr"
    and "t \<in> set (tl (lex_argv lr))" and "looks_like_path (candidate t)"
    and "NUL \<notin> set (path_join (realpath (os_fs s) (os_cwd s) (workspace_root c)) (candidate t))"
    and "resolve (os_fs s) (os_cwd s) (ctx_resolve (workspace_root c) (candidate t)) = Some q"
  shows "prefix (realpath_segs (os_fs s) (os_cwd s) (workspace_root c)) q"
proof -
  have "cmd \<noteq> []" using assms(7,8) lex_str_okD(1,2) [of cmd] by (auto simp: shlex_split_def)
  then have "fence_tokens (os_fs s) (os_cwd s) (file_consuming (hd (lex_argv lr))) (workspace_root c)
      (sensitive_patterns (pc d)) (tl (lex_argv lr)) = Inr None"
    using assms(3-8) by (simp add: gate_open_def run_command_fence_def fence_command_def lex_command_def effective_root_def)
  from fence_tokens_None [OF this assms(9,10)] obtain v
    where v: "check_path (os_fs s) (os_cwd s) (JStr (candidate t)) (workspace_root c) (sensitive_patterns (pc d)) = Inr v"
      "pv_allowed v \<or> \<not> is_escape (pv_reason v)" by blast
  have ne: "candidate t \<noteq> []" using assms(10) by (auto simp: looks_like_path_def startswith_def)
  then have "check_path_str (os_fs s) (os_cwd s) (candidate t) (workspace_root c) (sensitive_patterns (pc d)) = Inr v"
    using v(1) by (cases "candidate t") (auto simp: check_path_def)
  moreover have "pv_reason v \<notin> set escape_reasons"
    using v allowed_no_escape [OF v(1)] escape_reasons_escape by blast
  ultimately show ?thesis using fence_contains [OF assms(1,2) ne _ _ assms(11)] assms(12) by blast
qed

definition command_action :: "string \<Rightarrow> action" where
  "command_action cmd = \<lparr>tool_name = ''run_command'', arguments = [(''command'', JStr cmd)], thought = None, expectation = None\<rparr>"

theorem command_arguments_contained_witness:
  "prefix (realpath_segs (os_fs demo_state) (os_cwd demo_state) (workspace_root demo_ctx)) [''ws'', ''src'']"
proof (rule command_arguments_contained)
  let ?t = "run_command_tool plain_env 30 65536 :: os_state tool"
  show "wf_fs (os_fs demo_state)" "lstat (os_fs demo_state) (os_cwd demo_state) = Some Dir" by (rule demo_state_ok)+
  have "lex_str ''pytest --rootdir=./l'' = \<lparr>lex_ok = True, lex_argv = [''pytest'', ''--rootdir=./l''], lex_reason = ''ok'',
      has_metastructure = False\<rparr>" by code_simp
  then show "lex_str ''pytest --rootdir=./l'' = \<lparr>lex_ok = True, lex_argv = [''pytest'', ''--rootdir=./l''], lex_reason = ''ok'',
      has_metastructure = False\<rparr>" .
  have "run_command_fence demo_dispatcher (command_action ''pytest --rootdir=./l'') demo_ctx demo_state = Inr None" by code_simp
  moreover have "map_option t_name (registry_get (registry demo_dispatcher) ''run_command'') = Some ''run_command''" by code_simp
  ultimately show "gate_open demo_dispatcher (command_action ''pytest --rootdir=./l'') demo_ctx demo_state
      (the (registry_get (registry demo_dispatcher) ''run_command''))"
    by (auto simp: gate_open_def command_action_def file_fence_def FILE_TOOLS_def)
  show "looks_like_path (candidate ''--rootdir=./l'')" by code_simp
  show "NUL \<notin> set (path_join (realpath (os_fs demo_state) (os_cwd demo_state) (workspace_root demo_ctx)) (candidate ''--rootdir=./l''))"
    by code_simp
  show "resolve (os_fs demo_state) (os_cwd demo_state) (ctx_resolve (workspace_root demo_ctx) (candidate ''--rootdir=./l'')) =
      Some [''ws'', ''src'']" by code_simp
qed (simp_all add: demo_ctx_def command_action_def get_or_def)

definition short_config :: aegis_config where
  "short_config = default_config\<lparr>limits_of := default_limits\<lparr>output_max_bytes := 10\<rparr>\<rparr>"

definition command_run :: "string \<Rightarrow> (verdict \<times> tool_result option) res \<times> os_state" where
  "command_run cmd = dispatch (build_dispatcher short_config (build_registry plain_env short_config))
     (command_action cmd) demo_ctx demo_state"

definition command_verdict :: "string \<Rightarrow> decision option" where
  "command_verdict cmd = (case fst (command_run cmd) of Inr (v, _) \<Rightarrow> Some (v_decision v) | Inl _ \<Rightarrow> None)"

text \<open>
  Only \<open>--opt=\<close> is removed before the test: a path attached to a short option is taken for a
  name in the workspace, so \<open>git -C/etc log\<close> is allowed and runs.
\<close>

theorem short_option_path_runs:
  "command_verdict ''git -C/etc log'' = Some ALLOW \<and> os_procs (snd (command_run ''git -C/etc log'')) = 1 \<and>
   command_verdict ''git -C /etc log'' = Some DENY"
proof (intro conjI)
  show "command_verdict ''git -C/etc log'' = Some ALLOW" by code_simp
  show "os_procs (snd (command_run ''git -C/etc log'')) = 1" by code_simp
  show "command_verdict ''git -C /etc log'' = Some DENY" by code_simp
qed

end
