(* ===== verification/Feedback.thy ===== *)
theory Feedback
  imports Dispatcher
begin

text \<open>
  What the loop decides from: the classification of a tool result, the tracker of repeated actions
  and the summary of a test run (src/aegiscode/feedback), and the stop conditions
  (loop/termination.py).  Clock readings are whole milliseconds.
\<close>

section \<open>Classification\<close>

definition classify :: "tool_result \<Rightarrow> category option" where
  "classify tr =
     (if r_category tr \<in> Some ` {POLICY_DENIED, INVALID_ACTION, TIMEOUT_CAT, TOOL_ERROR, APPROVAL_REJECTED,
          INTERNAL_ERROR_CAT, NO_PROGRESS_CAT}
      then r_category tr
      else if r_tool tr = ''run_tests'' \<and> r_status tr = Failure then Some TEST_FAILURE
      else if r_status tr \<in> {Failure, Error} then Some TOOL_ERROR
      else None)"

section \<open>Repeated actions\<close>

text \<open>A bounded queue of fingerprints, oldest first: \<open>deque(maxlen=window)\<close>\<close>

record tracker =
  window :: nat
  recent :: "string list"

definition new_tracker :: "int \<Rightarrow> tracker res" where
  "new_tracker w =
     (if w < 0 then Inl (exc ''ValueError'' ''maxlen must be non-negative'')
      else Inr \<lparr>window = nat w, recent = []\<rparr>)"

definition tracker_add :: "string \<Rightarrow> tracker \<Rightarrow> tracker" where
  "tracker_add fp t =
     (let q = recent t @ [fp] in t\<lparr>recent := drop (length q - window t) q\<rparr>)"

definition seen :: "string \<Rightarrow> tracker \<Rightarrow> bool \<times> tracker" where
  "seen fp t = (fp \<in> set (recent t), tracker_add fp t)"

section \<open>Summary of a test run\<close>

text \<open>\<open>list(dict.fromkeys(xs))\<close>: the first occurrence of every element\<close>

definition dedupe :: "'a list \<Rightarrow> 'a list" where
  "dedupe xs = rev (remdups (rev xs))"

definition summarize_pytest :: "string \<Rightarrow> string" where
  "summarize_pytest raw =
     (let ls = splitlines raw;
          failed = filter (\<lambda>l. str_in ''FAILED'' l \<or> startswith (strip l) ''E '') ls;
          tail = drop (length ls - 20) ls
      in join [NL] (take 40 (dedupe (failed @ tail))))"

section \<open>Stop conditions\<close>

datatype termination_reason =
    COMPLETED | FINISH_REJECTED | MAX_STEPS | CONSECUTIVE_FAILURES | NO_PROGRESS
  | INVALID_ACTION_LIMIT | LLM_ERROR | INTERNAL_ERROR | CANCELLED | TIMEOUT

fun reason_value :: "termination_reason \<Rightarrow> string" where
  "reason_value COMPLETED = ''COMPLETED''"
| "reason_value FINISH_REJECTED = ''FINISH_REJECTED''"
| "reason_value MAX_STEPS = ''MAX_STEPS''"
| "reason_value CONSECUTIVE_FAILURES = ''CONSECUTIVE_FAILURES''"
| "reason_value NO_PROGRESS = ''NO_PROGRESS''"
| "reason_value INVALID_ACTION_LIMIT = ''INVALID_ACTION_LIMIT''"
| "reason_value LLM_ERROR = ''LLM_ERROR''"
| "reason_value INTERNAL_ERROR = ''INTERNAL_ERROR''"
| "reason_value CANCELLED = ''CANCELLED''"
| "reason_value TIMEOUT = ''TIMEOUT''"

record counters =
  step :: int
  consecutive_failures :: int
  invalid_actions :: int
  no_progress_hits :: int

definition decide_termination :: "counters \<Rightarrow> limits \<Rightarrow> int \<Rightarrow> termination_reason option" where
  "decide_termination c l elapsed_ms =
     (if 1000 * wall_clock_timeout_sec l \<le> elapsed_ms then Some TIMEOUT
      else if action_retry_limit l \<le> invalid_actions c then Some INVALID_ACTION_LIMIT
      else if max_consecutive_failures l \<le> consecutive_failures c then Some CONSECUTIVE_FAILURES
      else if no_progress_repeat_limit l \<le> no_progress_hits c then Some NO_PROGRESS
      else if max_steps l \<le> step c then Some MAX_STEPS
      else None)"

section \<open>Facts\<close>

lemma decide_None:
  "decide_termination c l e = None \<longleftrightarrow>
     e < 1000 * wall_clock_timeout_sec l \<and> invalid_actions c < action_retry_limit l \<and>
     consecutive_failures c < max_consecutive_failures l \<and> no_progress_hits c < no_progress_repeat_limit l \<and>
     step c < max_steps l"
  by (auto simp: decide_termination_def not_le)

lemma decide_range: "decide_termination c l e = Some r \<Longrightarrow>
    r \<in> {TIMEOUT, INVALID_ACTION_LIMIT, CONSECUTIVE_FAILURES, NO_PROGRESS, MAX_STEPS}"
  by (auto simp: decide_termination_def split: if_splits)

lemma recent_bound: "length (recent t) \<le> window t \<Longrightarrow> length (recent (tracker_add fp t)) \<le> window (tracker_add fp t)"
  by (simp add: tracker_add_def Let_def)

lemma window_add [simp]: "window (tracker_add fp t) = window t"
  by (simp add: tracker_add_def Let_def)

text \<open>The queue holds the last \<open>window\<close> fingerprints of the run.\<close>

lemma recent_run:
  assumes "recent t = drop (length fs - window t) fs"
  shows "recent (fold tracker_add gs t) = drop (length (fs @ gs) - window t) (fs @ gs)"
  using assms
proof (induction gs arbitrary: t fs)
  case (Cons g gs)
  let ?w = "window t"
  have "recent (tracker_add g t) = drop (length (fs @ [g]) - ?w) (fs @ [g])"
  proof (cases "length fs \<le> ?w")
    case True
    then show ?thesis using Cons.prems by (simp add: tracker_add_def Let_def)
  next
    case False
    then have "recent t @ [g] = drop (length fs - ?w) (fs @ [g])" using Cons.prems by simp
    moreover have "length (recent t @ [g]) = Suc ?w" using False Cons.prems by simp
    ultimately show ?thesis using False by (simp add: tracker_add_def Let_def Suc_diff_le del: drop_append)
  qed
  from Cons.IH [of "tracker_add g t" "fs @ [g]"] this show ?case by simp
qed simp

text \<open>The outcome of a run of fingerprints: how many of them were hits\<close>

fun hits :: "string list \<Rightarrow> tracker \<Rightarrow> nat" where
  "hits [] t = 0"
| "hits (f # fs) t = (let (b, t') = seen f t in (if b then 1 else 0) + hits fs t')"

section \<open>Properties\<close>

text \<open>
  the tracker flags a fingerprint exactly when it is among the last \<open>window\<close> fingerprints that
  were shown to it, and never remembers more than that.
\<close>

theorem tracker_window:
  assumes "new_tracker w = Inr t0" and "t = fold tracker_add fs t0"
  shows "fst (seen fp t) = (fp \<in> set (drop (length fs - nat w) fs)) \<and> int (length (recent t)) \<le> w"
proof -
  have t0: "window t0 = nat w" "recent t0 = []" "0 \<le> w" using assms(1) by (auto simp: new_tracker_def split: if_splits)
  then have "recent t = drop (length fs - nat w) fs" unfolding assms(2) using recent_run [of t0 "[]" fs] by simp
  then show ?thesis using t0(3) by (simp add: seen_def)
qed

theorem tracker_window_witness:
  "fst (seen ''a'' (fold tracker_add [''a'', ''b'', ''c''] \<lparr>window = 2, recent = []\<rparr>)) =
     (''a'' \<in> set (drop (length [''a'', ''b'', ''c''] - nat 2) [''a'', ''b'', ''c''])) \<and>
   int (length (recent (fold tracker_add [''a'', ''b'', ''c''] \<lparr>window = 2, recent = []\<rparr>))) \<le> 2"
  by (rule tracker_window [OF _ refl]) (simp add: new_tracker_def)

text \<open>
  the stop conditions have a fixed priority: the time limit comes before the counters, then
  come invalid actions, failures, repetitions and the number of steps; the loop goes on exactly
  when every counter is below its limit, and completion, cancellation and errors are never decided
  here.
\<close>

theorem decide_termination_priority:
  "decide_termination c l e =
     map_option fst (find snd
       [(TIMEOUT, 1000 * wall_clock_timeout_sec l \<le> e), (INVALID_ACTION_LIMIT, action_retry_limit l \<le> invalid_actions c),
        (CONSECUTIVE_FAILURES, max_consecutive_failures l \<le> consecutive_failures c),
        (NO_PROGRESS, no_progress_repeat_limit l \<le> no_progress_hits c), (MAX_STEPS, max_steps l \<le> step c)]) \<and>
   (decide_termination c l e = None) =
     (e < 1000 * wall_clock_timeout_sec l \<and> invalid_actions c < action_retry_limit l \<and>
      consecutive_failures c < max_consecutive_failures l \<and> no_progress_hits c < no_progress_repeat_limit l \<and>
      step c < max_steps l)"
  by (rule conjI, simp add: decide_termination_def, rule decide_None)

text \<open>
  the ordinary way of working is taken for lack of progress: three rounds of a new edit
  followed by the same test run, after a first round, give three hits, the limit of the default
  configuration, although every edit is different.
\<close>

theorem edit_test_rounds_stop:
  "hits [''e1'', ''t'', ''e2'', ''t'', ''e3'', ''t'', ''e4'', ''t''] \<lparr>window = 3, recent = []\<rparr> = 3 \<and>
   decide_termination \<lparr>step = 8, consecutive_failures = 0, invalid_actions = 0, no_progress_hits = 3\<rparr> default_limits 0 =
     Some NO_PROGRESS"
  by (rule conjI; code_simp)

text \<open>
  a result is counted as a failure exactly when it is marked with a failure category or its
  status is failure or error; a denied result without a category is not.
\<close>

theorem classify_failure:
  "(classify tr \<noteq> None) =
     (r_status tr \<in> {Failure, Error} \<or> (\<exists>k. r_category tr = Some k \<and> k \<noteq> TEST_FAILURE)) \<and>
   (classify tr = Some TEST_FAILURE) =
     (r_tool tr = ''run_tests'' \<and> r_status tr = Failure \<and> r_category tr \<in> {None, Some TEST_FAILURE})"
proof -
  have marked: "r_category tr \<in> Some ` {POLICY_DENIED, INVALID_ACTION, TIMEOUT_CAT, TOOL_ERROR, APPROVAL_REJECTED,
          INTERNAL_ERROR_CAT, NO_PROGRESS_CAT} \<longleftrightarrow> (\<exists>k. r_category tr = Some k \<and> k \<noteq> TEST_FAILURE)" (is "?m \<longleftrightarrow> ?x")
  proof
    assume ?x
    then obtain k where "r_category tr = Some k" "k \<noteq> TEST_FAILURE" by blast
    then show ?m by (cases k) simp_all
  qed auto
  show ?thesis
  proof (cases ?x)
    case True
    then have "classify tr = r_category tr" using marked by (simp only: classify_def if_True)
    with True show ?thesis by auto
  next
    case False
    then have "r_category tr \<in> {None, Some TEST_FAILURE}" by (cases "r_category tr") auto
    moreover have "classify tr = (if r_tool tr = ''run_tests'' \<and> r_status tr = Failure then Some TEST_FAILURE
      else if r_status tr \<in> {Failure, Error} then Some TOOL_ERROR else None)"
      using marked False by (simp only: classify_def if_False)
    ultimately show ?thesis using False by (auto split: if_splits)
  qed
qed

end
