(* ===== verification/Redactor.thy ===== *)
theory Redactor
  imports Tools
begin

text \<open>
  The redactor and the secret scanner (src/aegiscode/security/redactor.py,
  credentials/scanner.py, scripts/ci_secret_scan.py).  The three patterns are matchers that return
  the length of the match at the start of a text; none of them needs to backtrack, because the
  parts of a pattern have no character in common with what follows.  Letters are the ASCII ones
  and white space the one-byte one.
\<close>

section \<open>The patterns\<close>

definition is_upper :: "char \<Rightarrow> bool" where "is_upper c \<longleftrightarrow> CHR ''A'' \<le> c \<and> c \<le> CHR ''Z''"
definition is_lower :: "char \<Rightarrow> bool" where "is_lower c \<longleftrightarrow> CHR ''a'' \<le> c \<and> c \<le> CHR ''z''"

definition alnum :: "char \<Rightarrow> bool" where
  "alnum c \<longleftrightarrow> is_upper c \<or> is_lower c \<or> is_digit c"

definition key_char :: "char \<Rightarrow> bool" where
  "key_char c \<longleftrightarrow> alnum c \<or> c = CHR ''_'' \<or> c = CHR ''-''"

definition aws_char :: "char \<Rightarrow> bool" where
  "aws_char c \<longleftrightarrow> is_digit c \<or> is_upper c"

definition value_char :: "char \<Rightarrow> bool" where
  "value_char c \<longleftrightarrow> key_char c \<or> c \<in> set ''+/=''"

definition match_openai :: "string \<Rightarrow> nat option" where
  "match_openai s =
     (let n = length (takeWhile key_char (drop 3 s))
      in if startswith s ''sk-'' \<and> 20 \<le> n then Some (3 + n) else None)"

definition match_aws :: "string \<Rightarrow> nat option" where
  "match_aws s =
     (if startswith s ''AKIA'' \<and> 16 \<le> length (takeWhile aws_char (drop 4 s)) then Some 20 else None)"

definition upcase :: "char \<Rightarrow> char" where
  "upcase c = (if is_lower c then char_of (of_char c - (32::nat)) else c)"

definition secret_words :: "string list" where
  "secret_words = [''KEY'', ''TOKEN'', ''PASSWORD'', ''SECRET'']"

definition match_value :: "string \<Rightarrow> nat option" where
  "match_value s =
     (let n = length (takeWhile value_char s) in if 16 \<le> n then Some n else None)"

definition spaces :: "string \<Rightarrow> nat" where
  "spaces s = length (takeWhile (\<lambda>c. c \<in> set py_space) s)"

definition match_quoted :: "string \<Rightarrow> nat option" where
  "match_quoted s =
     (case s of
        c # s' \<Rightarrow> if c = SQ \<or> c = DQ then map_option Suc (match_value s') else match_value s
      | [] \<Rightarrow> None)"

definition match_assign :: "string \<Rightarrow> nat option" where
  "match_assign s =
     (let a = spaces s; r = drop a s in
      if startswith r ''=''
      then (let b = spaces (tl r) in map_option (\<lambda>n. a + 1 + b + n) (match_quoted (drop b (tl r))))
      else None)"

definition match_generic :: "string \<Rightarrow> nat option" where
  "match_generic s =
     (case find (\<lambda>k. map upcase (take (length k) s) = k) secret_words of
        None \<Rightarrow> None
      | Some k \<Rightarrow> map_option (\<lambda>n. length k + n) (match_assign (drop (length k) s)))"

definition KEY_PATTERNS :: "(string \<Rightarrow> nat option) list" where
  "KEY_PATTERNS = [match_openai, match_aws, match_generic]"

section \<open>Substitution\<close>

definition MARK :: string where "MARK = ''[REDACTED]''"

function gsub :: "(string \<Rightarrow> nat option) \<Rightarrow> string \<Rightarrow> string \<Rightarrow> string" where
  "gsub m rep [] = []"
| "gsub m rep (c # s) =
     (case m (c # s) of
        Some (Suc n) \<Rightarrow> rep @ gsub m rep (drop n s)
      | _ \<Rightarrow> c # gsub m rep s)"
  by pat_completeness auto
termination by (relation "measure (\<lambda>(m, rep, s). length s)") auto

definition match_text :: "string \<Rightarrow> string \<Rightarrow> nat option" where
  "match_text t s = (if startswith s t then Some (length t) else None)"

definition match_boundary :: "string \<Rightarrow> string \<Rightarrow> nat option" where
  "match_boundary t s =
     (if startswith s t \<and>
         (case drop (length t) s of [] \<Rightarrow> True | c # _ \<Rightarrow> c \<in> set (''/:'' @ py_space))
      then Some (length t) else None)"

definition redact_secrets :: "string \<Rightarrow> string" where
  "redact_secrets text = fold (\<lambda>p out. gsub p MARK out) KEY_PATTERNS text"

definition redact :: "string \<Rightarrow> string option \<Rightarrow> string" where
  "redact text ws_dir =
     (let out = redact_secrets text in
      case ws_dir of
        None \<Rightarrow> out
      | Some w \<Rightarrow>
          if w = [] then out
          else (let root = rstrip_chars ''/'' w
                in gsub (match_boundary root) [] (gsub (match_text (root @ ''/'')) [] out)))"

section \<open>The scanner\<close>

record finding =
  f_path :: string
  f_line :: nat
  f_pattern :: nat   \<comment> \<open>the index of the pattern\<close>

definition has_match :: "(string \<Rightarrow> nat option) \<Rightarrow> string \<Rightarrow> bool" where
  "has_match m s \<longleftrightarrow> list_ex (\<lambda>i. m (drop i s) \<noteq> None) [0..<Suc (length s)]"

definition scan_line :: "string \<Rightarrow> nat \<Rightarrow> string \<Rightarrow> finding list" where
  "scan_line path i line =
     map (\<lambda>(k, p). \<lparr>f_path = path, f_line = i, f_pattern = k\<rparr>)
       (filter (\<lambda>(k, p). has_match p line) (enumerate 0 KEY_PATTERNS))"

definition scan_text :: "string \<Rightarrow> string \<Rightarrow> finding list" where
  "scan_text text path = concat (map (\<lambda>(i, l). scan_line path i l) (enumerate 1 (splitlines text)))"

text \<open>\<open>scan_paths\<close>: the files that can be read, as pairs of name and text.\<close>

definition scan_paths :: "(string \<times> string option) list \<Rightarrow> finding list" where
  "scan_paths files =
     concat (map (\<lambda>(p, t). case t of None \<Rightarrow> [] | Some text \<Rightarrow> scan_text text p) files)"

text \<open>The gate of the build: findings that are not in the allow-list fail it.\<close>

definition ALLOWLIST :: "(string \<times> nat) list" where
  "ALLOWLIST = [(''aegiscode/service/assembly.py'', 45)]"

definition is_allowlisted :: "finding \<Rightarrow> bool" where
  "is_allowlisted f \<longleftrightarrow>
     list_ex (\<lambda>(suffix, n). endswith (map (\<lambda>c. if c = BSL then SL else c) (f_path f)) suffix \<and> f_line f = n) ALLOWLIST"

definition remaining_findings :: "(string \<times> string option) list \<Rightarrow> finding list" where
  "remaining_findings files = filter (\<lambda>f. \<not> is_allowlisted f) (scan_paths files)"

definition scan_exit_code :: "(string \<times> string option) list \<Rightarrow> int" where
  "scan_exit_code files = (if remaining_findings files \<noteq> [] then 1 else 0)"

section \<open>Secret patterns\<close>

text \<open>
  The contract of a pattern: a match is at least ten characters long, none of them a bracket, and
  the matched text is matched wherever it stands.
\<close>

definition brackets :: "char set" where "brackets = {CHR ''['', CHR '']''}"

locale secret_pattern =
  fixes m :: "string \<Rightarrow> nat option"
  assumes match_len: "m s = Some n \<Longrightarrow> 10 \<le> n \<and> n \<le> length s"
    and match_chars: "m s = Some n \<Longrightarrow> set (take n s) \<inter> brackets = {}"
    and match_anywhere: "m s = Some n \<Longrightarrow> m (take n s @ t) \<noteq> None"
begin

definition clean :: "string \<Rightarrow> bool" where
  "clean s \<longleftrightarrow> (\<forall>i. m (drop i s) = None)"

lemma clean_Cons: "clean (c # s) \<longleftrightarrow> m (c # s) = None \<and> clean s"
  unfolding clean_def by (metis drop0 drop_Suc_Cons not0_implies_Suc)

lemma clean_Nil: "clean []"
  using match_len by (auto simp: clean_def) (metis not_None_eq le_zero_eq list.size(3) not_numeral_le_zero order_trans)

lemma clean_drop: "clean s \<Longrightarrow> clean (drop k s)"
  by (auto simp: clean_def)

lemma no_match_bracket:
  assumes "i < 10" and "c \<in> brackets" and "i < length s" and "s ! i = c"
  shows "m s = None"
proof (rule ccontr)
  assume "m s \<noteq> None"
  then obtain n where n: "m s = Some n" by blast
  with match_len assms(1,3) have "s ! i \<in> set (take n s)"
    by (fastforce simp: in_set_conv_nth intro: exI [of _ i])
  with match_chars [OF n] assms(2,4) show False by blast
qed

lemma clean_append: "clean s \<Longrightarrow> \<forall>i < length r. m (drop i r @ s) = None \<Longrightarrow> clean (r @ s)"
proof (induction r)
  case (Cons x r)
  then have "m (x # r @ s) = None" by (metis append_Cons drop0 length_greater_0_conv list.distinct(1))
  moreover have "\<forall>i < length r. m (drop i r @ s) = None" using Cons.prems(2) by fastforce
  ultimately show ?case using Cons by (simp add: clean_Cons)
qed simp

lemma mark_bracket: "i < length MARK \<Longrightarrow> i < 10 \<and> 9 - i < length (drop i MARK) \<and> drop i MARK ! (9 - i) = CHR '']''"
proof -
  have "list_all (\<lambda>i. i < 10 \<and> 9 - i < length (drop i MARK) \<and> drop i MARK ! (9 - i) = CHR '']'') [0..<length MARK]"
    by code_simp
  then show "i < length MARK \<Longrightarrow> ?thesis" by (simp add: list_all_iff)
qed

lemma clean_mark:
  assumes "clean s"
  shows "clean (MARK @ s)"
proof (rule clean_append [OF assms], intro allI impI)
  fix i assume "i < length MARK"
  from mark_bracket [OF this] show "m (drop i MARK @ s) = None"
    by (intro no_match_bracket [of "9 - i" "CHR '']''"]) (simp_all add: brackets_def nth_append)
qed

text \<open>Text of a substituted string without a bracket was there before, at the same place.\<close>

lemma gsub_prefix:
  "set w \<inter> brackets = {} \<Longrightarrow> gsub p MARK s = w @ t \<Longrightarrow> prefix w s"
proof (induction p MARK s arbitrary: w t rule: gsub.induct)
  case (2 p c s)
  show ?case
  proof (cases w)
    case (Cons d w')
    show ?thesis
    proof (cases "\<exists>k. p (c # s) = Some (Suc k)")
      case True
      then have "d = CHR ''[''" using "2.prems"(2) Cons by (auto simp: MARK_def)
      then show ?thesis using "2.prems"(1) Cons by (simp add: brackets_def)
    next
      case False
      then have g: "gsub p MARK (c # s) = c # gsub p MARK s" by (auto split: option.splits nat.splits)
      then have "d = c" "gsub p MARK s = w' @ t" using "2.prems"(2) Cons by auto
      moreover have "prefix w' s"
        using "2.hyps" "2.prems"(1) Cons False calculation by (cases "p (c # s)"; cases "the (p (c # s))") auto
      ultimately show ?thesis using Cons by simp
    qed
  qed simp
qed simp

text \<open>Substitution of any pattern keeps a text clean, and that of the pattern itself makes it so.\<close>

lemma clean_step:
  assumes "m (c # s) = None" and "clean (gsub p MARK s)"
  shows "clean (c # gsub p MARK s)"
proof -
  have "m (c # gsub p MARK s) = None"
  proof (rule ccontr)
    assume "m (c # gsub p MARK s) \<noteq> None"
    then obtain n where n: "m (c # gsub p MARK s) = Some n" by blast
    then obtain k where k: "n = Suc k" using match_len by (cases n) fastforce+
    let ?w = "take k (gsub p MARK s)"
    have w: "take n (c # gsub p MARK s) = c # ?w" using k by simp
    have "set ?w \<inter> brackets = {}" using match_chars [OF n] w by auto
    then have "prefix ?w s" using gsub_prefix [of ?w p s "drop k (gsub p MARK s)"] by simp
    then obtain t where "s = ?w @ t" by (auto simp: prefix_def)
    then have "m (c # s) \<noteq> None" using match_anywhere [OF n, of t] w by simp
    with assms(1) show False by simp
  qed
  with assms(2) show ?thesis by (simp add: clean_Cons)
qed

lemma gsub_keeps_clean: "clean s \<Longrightarrow> clean (gsub p MARK s)"
proof (induction p MARK s rule: gsub.induct)
  case (2 p c s)
  show ?case
  proof (cases "\<exists>k. p (c # s) = Some (Suc k)")
    case True
    then obtain k where k: "p (c # s) = Some (Suc k)" by blast
    with 2 clean_mark clean_drop [of "c # s" "Suc k"] show ?thesis by simp
  next
    case False
    then have g: "gsub p MARK (c # s) = c # gsub p MARK s" by (auto split: option.splits nat.splits)
    have "clean (gsub p MARK s)"
      using 2 False by (cases "p (c # s)"; cases "the (p (c # s))") (auto simp: clean_Cons)
    with clean_step [of c s p] 2 g show ?thesis by (simp add: clean_Cons)
  qed
qed (simp add: clean_Nil)

lemma clean_sublist:
  assumes "clean (u @ l @ v)"
  shows "clean l"
  unfolding clean_def
proof (intro allI, rule ccontr)
  fix i assume "m (drop i l) \<noteq> None"
  then obtain n where n: "m (drop i l) = Some n" by blast
  have i: "i \<le> length l" using match_len [OF n] by (simp, linarith)
  have "m (take n (drop i l) @ drop n (drop i l) @ v) \<noteq> None" by (rule match_anywhere [OF n])
  then have "m (drop i l @ v) \<noteq> None" unfolding append_assoc [symmetric] append_take_drop_id .
  then have "m (drop (length u + i) (u @ l @ v)) \<noteq> None" using i by simp
  moreover have "m (drop (length u + i) (u @ l @ v)) = None" using assms unfolding clean_def by (rule spec)
  ultimately show False by (rule notE)
qed

lemma clean_no_match: "clean l \<Longrightarrow> \<not> has_match m l"
  by (auto simp: clean_def has_match_def list_ex_iff)

lemma gsub_clean: "clean (gsub m MARK s)"
proof (induction s rule: length_induct)
  case (1 s)
  show ?case
  proof (cases s)
    case (Cons c s')
    show ?thesis
    proof (cases "m s")
      case None
      with Cons 1 clean_step [of c s' m] show ?thesis by simp
    next
      case (Some n)
      then obtain k where "n = Suc k" using match_len by (cases n) fastforce+
      with Some Cons 1 show ?thesis by (simp add: clean_mark)
    qed
  qed (simp add: clean_Nil)
qed

end

section \<open>The three patterns keep the contract\<close>

lemma value_char_code: "value_char c \<Longrightarrow> 33 \<le> (of_char c :: nat) \<and> of_char c \<notin> {34 :: nat, 39, 91, 93}"
  by (auto simp: value_char_def key_char_def alnum_def is_upper_def is_lower_def is_digit_def less_eq_char_def)

lemma space_code: "c \<in> set py_space \<Longrightarrow> (of_char c :: nat) < 33"
  by (auto simp: py_space_def)

lemma value_char_props:
  assumes "value_char c"
  shows "c \<notin> set py_space" "c \<noteq> SQ" "c \<noteq> DQ" "c \<notin> brackets" "c \<noteq> CHR '' ''"
  using value_char_code [OF assms] space_code [of c] by (auto simp: brackets_def)

lemma upcase_bracket: "c \<in> brackets \<Longrightarrow> upcase c = c"
  by (auto simp: brackets_def upcase_def is_lower_def less_eq_char_def)

lemma aws_value: "aws_char c \<longrightarrow> value_char c"
  by (auto simp: aws_char_def value_char_def key_char_def alnum_def)

lemma key_value: "key_char c \<longrightarrow> value_char c"
  by (simp add: value_char_def)

lemma takeWhile_app: "list_all P w \<Longrightarrow> takeWhile P (w @ t) = w @ takeWhile P t"
  by (simp add: list_all_iff takeWhile_append2)

lemma list_all_takeWhile: "list_all P (takeWhile P s)"
  by (auto simp: list_all_iff dest: set_takeWhileD)

lemma startswithE: "startswith s p \<Longrightarrow> \<exists>r. s = p @ r"
  by (auto simp: startswith_iff_prefix prefix_def)

lemma openai_shape:
  "match_openai s = Some n \<longleftrightarrow>
     (\<exists>w r. s = ''sk-'' @ w @ r \<and> list_all key_char w \<and> 20 \<le> length w \<and> takeWhile key_char r = [] \<and> n = 3 + length w)"
proof
  assume "match_openai s = Some n"
  then have p: "startswith s ''sk-''" "20 \<le> length (takeWhile key_char (drop 3 s))" "n = 3 + length (takeWhile key_char (drop 3 s))"
    by (auto simp: match_openai_def Let_def split: if_splits)
  then obtain r where r: "s = ''sk-'' @ r" using startswithE by blast
  have "takeWhile key_char (dropWhile key_char r) = []"
  proof (cases "dropWhile key_char r")
    case (Cons c t)
    then show ?thesis using hd_dropWhile [of key_char r] by simp
  qed (metis takeWhile.simps(1))
  then show "\<exists>w r. s = ''sk-'' @ w @ r \<and> list_all key_char w \<and> 20 \<le> length w \<and> takeWhile key_char r = [] \<and> n = 3 + length w"
    using p r by (intro exI [of _ "takeWhile key_char r"] exI [of _ "dropWhile key_char r"]) (simp add: list_all_takeWhile)
next
  assume "\<exists>w r. s = ''sk-'' @ w @ r \<and> list_all key_char w \<and> 20 \<le> length w \<and> takeWhile key_char r = [] \<and> n = 3 + length w"
  then show "match_openai s = Some n"
    by (auto simp: match_openai_def takeWhile_app startswith_def)
qed

lemma value_no_brackets: "list_all value_char w \<Longrightarrow> set w \<inter> brackets = {}"
  using value_char_props by (auto simp: list_all_iff)

lemma list_all_mono': "list_all P w \<Longrightarrow> (\<And>c. P c \<longrightarrow> Q c) \<Longrightarrow> list_all Q w"
  by (auto simp: list_all_iff)

interpretation openai: secret_pattern match_openai
proof
  fix s n t
  assume "match_openai s = Some n"
  then obtain w r where s: "s = ''sk-'' @ w @ r" "list_all key_char w" "20 \<le> length w" "n = 3 + length w"
    unfolding openai_shape by blast
  have tk: "take n s = ''sk-'' @ w" using s(1,4) by (simp add: numeral_3_eq_3)
  have "set w \<inter> brackets = {}" using value_no_brackets list_all_mono' [OF s(2) key_value] by blast
  then show "set (take n s) \<inter> brackets = {}" unfolding tk by (auto simp: brackets_def)
  show "10 \<le> n \<and> n \<le> length s" using s by simp
  show "match_openai (take n s @ t) \<noteq> None"
    unfolding tk using s by (simp add: match_openai_def takeWhile_app startswith_def)
qed

interpretation aws: secret_pattern match_aws
proof
  fix s n t
  assume "match_aws s = Some n"
  then have p: "startswith s ''AKIA''" "16 \<le> length (takeWhile aws_char (drop 4 s))" "n = 20"
    by (auto simp: match_aws_def split: if_splits)
  then obtain r where r: "s = ''AKIA'' @ r" using startswithE by blast
  let ?w = "take 16 (takeWhile aws_char r)"
  have w: "list_all aws_char ?w" "length ?w = 16"
    using p r list_all_takeWhile [of aws_char r] by (auto simp: list_all_iff dest: in_set_takeD)
  have l16: "16 \<le> length (takeWhile aws_char r)" using p(2) r by simp
  have "take 16 (takeWhile aws_char r @ dropWhile aws_char r) = ?w"
    unfolding take_append using l16 by (simp del: takeWhile_dropWhile_id)
  then have "take 16 r = ?w" by (simp only: takeWhile_dropWhile_id)
  then have tk: "take n s = ''AKIA'' @ ?w" using p r by simp
  have "set ?w \<inter> brackets = {}" using value_no_brackets list_all_mono' [OF w(1) aws_value] by blast
  then show "set (take n s) \<inter> brackets = {}" unfolding tk by (auto simp: brackets_def)
  have "length (takeWhile aws_char r) \<le> length r" by (rule length_takeWhile_le)
  then show "10 \<le> n \<and> n \<le> length s" using p r by simp
  show "match_aws (take n s @ t) \<noteq> None"
    unfolding tk using takeWhile_app [OF w(1), of t] w(2) by (simp add: match_aws_def startswith_def)
qed


text \<open>The generic assignment: keyword, spaces, equals sign, spaces, an optional quote, the value.\<close>

definition generic_shape :: "string \<Rightarrow> string \<Rightarrow> string \<Rightarrow> string \<Rightarrow> string \<Rightarrow> bool" where
  "generic_shape k a b q w \<longleftrightarrow> map upcase k \<in> set secret_words \<and> list_all (\<lambda>c. c \<in> set py_space) a \<and>
     list_all (\<lambda>c. c \<in> set py_space) b \<and> q \<in> {[], [SQ], [DQ]} \<and> list_all value_char w \<and> 16 \<le> length w"

lemma take_drop_takeWhile: "s = take (length (takeWhile P s)) s @ dropWhile P s" "take (length (takeWhile P s)) s = takeWhile P s"
  by (metis takeWhile_dropWhile_id takeWhile_eq_take)+

lemma match_quoted_shape:
  assumes "match_quoted s = Some n"
  shows "\<exists>q w r. s = q @ w @ r \<and> q \<in> {[], [SQ], [DQ]} \<and> list_all value_char w \<and> 16 \<le> length w \<and> n = length q + length w"
proof (cases s)
  case (Cons c s')
  have val: "\<exists>w r. t = w @ r \<and> list_all value_char w \<and> 16 \<le> length w \<and> k = length w"
    if "match_value t = Some k" for t k
    using that by (intro exI [of _ "takeWhile value_char t"] exI [of _ "dropWhile value_char t"])
      (auto simp: match_value_def Let_def list_all_takeWhile split: if_splits)
  show ?thesis
  proof (cases "c = SQ \<or> c = DQ")
    case True
    then obtain k where "match_value s' = Some k" "n = Suc k" using assms Cons by (auto simp: match_quoted_def)
    with val [of s' k] obtain w r where "s' = w @ r" "list_all value_char w" "16 \<le> length w" "k = length w" by blast
    with True Cons \<open>n = Suc k\<close> show ?thesis by (intro exI [of _ "[c]"] exI [of _ w] exI [of _ r]) auto
  next
    case False
    then have "match_value s = Some n" using assms Cons by (simp add: match_quoted_def)
    from val [OF this] obtain w r where "s = w @ r" "list_all value_char w" "16 \<le> length w" "n = length w" by blast
    then show ?thesis by (intro exI [of _ "[]"] exI [of _ w] exI [of _ r]) auto
  qed
qed (use assms in \<open>simp add: match_quoted_def\<close>)

lemma spaces_split: "\<exists>a r. s = a @ r \<and> list_all (\<lambda>c. c \<in> set py_space) a \<and> spaces s = length a \<and> drop (spaces s) s = r"
  by (intro exI [of _ "takeWhile (\<lambda>c. c \<in> set py_space) s"] exI [of _ "dropWhile (\<lambda>c. c \<in> set py_space) s"])
    (simp add: spaces_def list_all_takeWhile flip: dropWhile_eq_drop)

lemma match_generic_shape:
  assumes "match_generic s = Some n"
  shows "\<exists>k a b q w r. s = k @ a @ ''='' @ b @ q @ w @ r \<and> generic_shape k a b q w \<and>
    n = length k + length a + 1 + length b + length q + length w"
proof -
  obtain k0 where k0: "find (\<lambda>k. map upcase (take (length k) s) = k) secret_words = Some k0"
    and m: "map_option (\<lambda>n. length k0 + n) (match_assign (drop (length k0) s)) = Some n"
    using assms by (auto simp: match_generic_def split: option.splits)
  have k: "k0 \<in> set secret_words" "map upcase (take (length k0) s) = k0"
    using k0 by (auto simp: find_Some_iff)
  then have klen: "length (take (length k0) s) = length k0" by (metis length_map)
  obtain n1 where n1: "match_assign (drop (length k0) s) = Some n1" "n = length k0 + n1" using m by auto
  obtain a r where a: "drop (length k0) s = a @ r" "list_all (\<lambda>c. c \<in> set py_space) a"
    "spaces (drop (length k0) s) = length a" "drop (spaces (drop (length k0) s)) (drop (length k0) s) = r"
    using spaces_split by metis
  have eq: "startswith r ''=''" using n1(1) a(3,4) by (auto simp: match_assign_def Let_def split: if_splits)
  then obtain r' where r': "r = CHR ''='' # r'" using startswithE by fastforce
  obtain b u where b: "r' = b @ u" "list_all (\<lambda>c. c \<in> set py_space) b" "spaces r' = length b" "drop (spaces r') r' = u"
    using spaces_split by metis
  obtain n2 where n2: "match_quoted u = Some n2" "n1 = length a + 1 + length b + n2"
    using n1(1) a(3,4) r' b(3,4) by (auto simp: match_assign_def Let_def startswith_def split: if_splits)
  obtain q w t where q: "u = q @ w @ t" "q \<in> {[], [SQ], [DQ]}" "list_all value_char w" "16 \<le> length w" "n2 = length q + length w"
    using match_quoted_shape [OF n2(1)] by blast
  have "s = take (length k0) s @ a @ ''='' @ b @ q @ w @ t"
    using a(1) r' b(1) q(1) append_take_drop_id [of "length k0" s] by simp
  moreover have "generic_shape (take (length k0) s) a b q w"
    using k a b q by (simp add: generic_shape_def)
  ultimately show ?thesis using klen n1(2) n2(2) q(5)
    by (intro exI [of _ "take (length k0) s"] exI [of _ a] exI [of _ b] exI [of _ q] exI [of _ w] exI [of _ t]) simp
qed

lemma spaces_app: "list_all (\<lambda>c. c \<in> set py_space) a \<Longrightarrow> c \<notin> set py_space \<Longrightarrow> spaces (a @ c # t) = length a"
  by (simp add: spaces_def takeWhile_app)

lemma equals_not_space: "CHR ''='' \<notin> set py_space" "SQ \<notin> set py_space" "DQ \<notin> set py_space"
  by (simp_all add: py_space_def)

lemma match_value_app: "list_all value_char w \<Longrightarrow> 16 \<le> length w \<Longrightarrow> match_value (w @ t) \<noteq> None"
  by (simp add: match_value_def takeWhile_app)

lemma find_unique: "y \<in> set xs \<Longrightarrow> P y \<Longrightarrow> \<forall>x \<in> set xs. P x \<longrightarrow> x = y \<Longrightarrow> find P xs = Some y"
proof (induction xs)
  case (Cons a xs)
  show ?case
  proof (cases "P a")
    case False
    then have "y \<in> set xs" using Cons.prems by auto
    with False Cons.IH Cons.prems(2,3) show ?thesis by (metis find.simps(2) list.set_intros(2))
  qed (use Cons.prems(3) in \<open>metis find.simps(2) list.set_intros(1)\<close>)
qed simp

lemma secret_words_hd: "inj_on hd (set secret_words)" "[] \<notin> set secret_words"
proof -
  have "distinct (map hd secret_words)" by code_simp
  then show "inj_on hd (set secret_words)" by (simp add: distinct_map)
qed (simp add: secret_words_def)

lemma find_word:
  assumes "map upcase k \<in> set secret_words"
  shows "find (\<lambda>x. map upcase (take (length x) (k @ t)) = x) secret_words = Some (map upcase k)"
proof (rule find_unique [OF assms], goal_cases)
  case 2
  show ?case
  proof (intro ballI impI)
    fix x assume x: "x \<in> set secret_words" "map upcase (take (length x) (k @ t)) = x"
    have "k \<noteq> []" "x \<noteq> []" using assms x(1) secret_words_hd(2) by auto
    then have "hd x = hd (map upcase k)" using x(2) by (cases x; cases k) auto
    then show "x = map upcase k" using secret_words_hd(1) x(1) assms by (auto dest: inj_onD)
  qed
qed simp

lemma match_generic_app:
  assumes "generic_shape k a b q w"
  shows "match_generic (k @ a @ ''='' @ b @ q @ w @ t) \<noteq> None"
proof -
  have g: "map upcase k \<in> set secret_words" "list_all (\<lambda>c. c \<in> set py_space) a" "list_all (\<lambda>c. c \<in> set py_space) b"
    "q \<in> {[], [SQ], [DQ]}" "list_all value_char w" "16 \<le> length w" using assms by (auto simp: generic_shape_def)
  obtain c w' where w: "w = c # w'" using g(6) by (cases w) auto
  then have c: "c \<notin> set py_space" "c \<noteq> SQ" "c \<noteq> DQ" using g(5) value_char_props by auto
  have mq: "match_quoted (q @ w @ t) \<noteq> None"
    using g(4) match_value_app [OF g(5,6), of t] c w by (auto simp: match_quoted_def)
  obtain d v where d: "q @ w @ t = d # v" "d \<notin> set py_space"
    using g(4) c w equals_not_space by auto
  have "match_assign (a @ ''='' @ b @ q @ w @ t) \<noteq> None"
    using spaces_app [OF g(2), of "CHR ''=''" "b @ q @ w @ t"] equals_not_space(1)
      spaces_app [OF g(3) d(2), of v] d(1) mq
    by (simp add: match_assign_def startswith_def Let_def)
  then show ?thesis using find_word [OF g(1), of "a @ ''='' @ b @ q @ w @ t"] by (simp add: match_generic_def)
qed

lemma take_own: "take (length u) (u @ r) = u"
  by simp

lemma generic_shape_length: "generic_shape k a b q w \<Longrightarrow> 16 \<le> length w"
  by (simp add: generic_shape_def)

lemma secret_words_brackets:
  assumes "k \<in> set secret_words"
  shows "set k \<inter> brackets = {}"
proof -
  have "list_all (list_all (\<lambda>c. c \<notin> {CHR ''['', CHR '']''})) secret_words" by code_simp
  with assms show ?thesis by (auto simp: list_all_iff brackets_def)
qed

lemma spaces_brackets: "list_all (\<lambda>c. c \<in> set py_space) a \<Longrightarrow> set a \<inter> brackets = {}"
  using space_code by (fastforce simp: list_all_iff brackets_def)

lemma generic_shape_brackets:
  assumes "generic_shape k a b q w"
  shows "set (k @ a @ ''='' @ b @ q @ w) \<inter> brackets = {}"
proof -
  have g: "map upcase k \<in> set secret_words" "list_all (\<lambda>c. c \<in> set py_space) a" "list_all (\<lambda>c. c \<in> set py_space) b"
    "q \<in> {[], [SQ], [DQ]}" "list_all value_char w" using assms by (simp_all add: generic_shape_def)
  have "c \<notin> brackets" if "c \<in> set k" for c
  proof
    assume "c \<in> brackets"
    then have "c \<in> set (map upcase k)" using that upcase_bracket [of c] by force
    then show False using secret_words_brackets [OF g(1)] \<open>c \<in> brackets\<close> by blast
  qed
  then have "set k \<inter> brackets = {}" by blast
  moreover have "set q \<inter> brackets = {}" "CHR ''='' \<notin> brackets" using g(4) by (auto simp: brackets_def)
  ultimately show ?thesis
    using spaces_brackets [OF g(2)] spaces_brackets [OF g(3)] value_no_brackets [OF g(5)] by (simp add: Int_Un_distrib2)
qed

interpretation generic: secret_pattern match_generic
proof
  fix s n t
  assume "match_generic s = Some n"
  then obtain k a b q w r where s: "s = k @ a @ ''='' @ b @ q @ w @ r" "generic_shape k a b q w"
    "n = length k + length a + 1 + length b + length q + length w"
    using match_generic_shape [OF \<open>match_generic s = Some n\<close>] by (elim exE conjE)
  have "n = length (k @ a @ ''='' @ b @ q @ w)" using s(3) by simp
  then have tk: "take n s = k @ a @ ''='' @ b @ q @ w" unfolding s(1)
    using take_own [of "k @ a @ ''='' @ b @ q @ w" r] by (simp only: append_assoc)
  show "set (take n s) \<inter> brackets = {}" unfolding tk by (rule generic_shape_brackets [OF s(2)])
  show "10 \<le> n \<and> n \<le> length s" using s(1,3) generic_shape_length [OF s(2)] by simp
  show "match_generic (take n s @ t) \<noteq> None"
    unfolding tk using match_generic_app [OF s(2), of t] by (simp only: append_assoc not_False_eq_True)
qed

section \<open>What redaction guarantees\<close>

lemma sublist_skip: "sublist l s \<Longrightarrow> sublist l (u @ s)"
  by (metis sublist_def append_assoc)

lemma splitlines_from_sublist: "l \<in> set (splitlines_from acc s) \<Longrightarrow> sublist l (acc @ s)"
proof (induction acc s rule: splitlines_from.induct)
  case (2 acc c s)
  show ?case
  proof (cases "c \<in> set line_ends")
    case True
    let ?rest = "case s of [] \<Rightarrow> [] | d # s' \<Rightarrow> if c = CHR 0x0D \<and> d = CHR 0x0A then splitlines_from [] s' else splitlines_from [] s"
    have "l = acc \<or> l \<in> set ?rest" using "2.prems" True by simp
    moreover have "sublist l (acc @ c # s)" if "l = acc" using that by (simp only: sublist_appendI sublist_append_rightI)
    moreover have "sublist l (acc @ c # s)" if "l \<in> set ?rest"
    proof (cases s)
      case (Cons d s')
      show ?thesis
      proof (cases "c = CHR 0x0D \<and> d = CHR 0x0A")
        case crlf: True
        then have "l \<in> set (splitlines_from [] s')" using that unfolding Cons by simp
        with "2.IH"(1) [OF True Cons crlf] have "sublist l s'" by simp
        from sublist_skip [OF this, of "acc @ [c, d]"] show ?thesis unfolding Cons by simp
      next
        case other: False
        then have "l \<in> set (splitlines_from [] s)" using that unfolding Cons by (simp only: list.case if_False)
        with "2.IH"(2) [OF True Cons other] have "sublist l s" by simp
        from sublist_skip [OF this, of "acc @ [c]"] show ?thesis by simp
      qed
    qed (use that in simp)
    ultimately show ?thesis by blast
  next
    case False
    then have "l \<in> set (splitlines_from (acc @ [c]) s)" using "2.prems" by simp
    from "2.IH"(3) [OF False this] show ?thesis by simp
  qed
qed (simp split: if_splits)

lemma splitlines_sublist: "l \<in> set (splitlines s) \<Longrightarrow> sublist l s"
  using splitlines_from_sublist [of l "[]" s] by (simp add: splitlines_def)

lemma redact_secrets_eq:
  "redact_secrets s = gsub match_generic MARK (gsub match_aws MARK (gsub match_openai MARK s))"
  by (simp add: redact_secrets_def KEY_PATTERNS_def)

lemma redact_secrets_clean:
  "openai.clean (redact_secrets s)" "aws.clean (redact_secrets s)" "generic.clean (redact_secrets s)"
  unfolding redact_secrets_eq
  by (intro openai.gsub_keeps_clean openai.gsub_clean aws.gsub_keeps_clean aws.gsub_clean generic.gsub_clean)+

lemma line_clean:
  assumes "l \<in> set (splitlines (redact_secrets s))" and "p \<in> set KEY_PATTERNS"
  shows "\<not> has_match p l"
proof -
  obtain u v where "redact_secrets s = u @ l @ v"
    using splitlines_sublist [OF assms(1)] by (auto simp: sublist_def)
  then show ?thesis
    using assms(2) redact_secrets_clean [of s] openai.clean_sublist openai.clean_no_match aws.clean_sublist
      aws.clean_no_match generic.clean_sublist generic.clean_no_match
    by (auto simp: KEY_PATTERNS_def)
qed

section \<open>Claims\<close>

lemma gsub_id: "(\<And>i. m (drop i t) = None) \<Longrightarrow> gsub m rep t = t"
proof (induction t)
  case (Cons c s)
  from Cons.prems [of 0] have "m (c # s) = None" by simp
  moreover have "gsub m rep s = s" using Cons.prems [of "Suc _"] by (intro Cons.IH) simp
  ultimately show ?case by simp
qed simp

lemma in_drop: "startswith (drop i t) p \<Longrightarrow> str_in p t"
  unfolding startswith_iff_prefix str_in_iff_sublist
  by (metis prefix_imp_sublist sublist_drop sublist_order.order_trans)

text \<open>A root that does not occur in the text is not removed.\<close>

lemma redact_root_absent:
  assumes "\<not> str_in (rstrip_chars ''/'' w) (redact_secrets s)"
  shows "redact s (Some w) = redact_secrets s"
proof -
  let ?root = "rstrip_chars ''/'' w" and ?t = "redact_secrets s"
  have "match_text (?root @ ''/'') (drop i ?t) = None" "match_boundary ?root (drop i ?t) = None" for i
    using assms in_drop [of i ?t ?root] in_drop [of i ?t "?root @ ''/''"]
    by (auto simp: match_text_def match_boundary_def startswith_iff_prefix dest: append_prefixD)
  then show ?thesis by (simp add: redact_def gsub_id Let_def)
qed

text \<open>
  C13: Redaction leaves no secret behind: at no position of the redacted text does any of the three
  patterns match, although each pattern is substituted once only and the later substitutions
  change the text around the earlier ones.  This holds without a workspace root, as the audit log
  calls it, and with a root that does not occur in the redacted text; a root that occurs is removed
  afterwards, which can join two pieces into a key (\<open>redact_root_joins_key\<close>).
\<close>

theorem redact_no_match:
  assumes "\<And>w. root = Some w \<Longrightarrow> w = [] \<or> \<not> str_in (rstrip_chars ''/'' w) (redact s None)"
  shows "match_openai (drop i (redact s root)) = None \<and> match_aws (drop i (redact s root)) = None \<and>
    match_generic (drop i (redact s root)) = None"
proof -
  have "redact s root = redact_secrets s"
  proof (cases root)
    case (Some w)
    with assms [OF Some] redact_root_absent [of w s] show ?thesis by (auto simp: redact_def Let_def)
  qed (simp add: redact_def)
  then show ?thesis
    using redact_secrets_clean [of s] by (simp add: openai.clean_def aws.clean_def generic.clean_def)
qed

theorem redact_no_match_witness:
  "match_openai (drop 3 (redact ''a=sk-aaaaaaaaaabbbbbbbbbb'' (Some ''/w/''))) = None"
proof -
  have "\<not> str_in (rstrip_chars ''/'' ''/w/'') (redact ''a=sk-aaaaaaaaaabbbbbbbbbb'' None)" by code_simp
  with redact_no_match [of "Some ''/w/''" "''a=sk-aaaaaaaaaabbbbbbbbbb''" 3] show ?thesis by simp
qed

text \<open>
  the redactor and the scanner agree: the scanner of the build finds nothing in any text that
  went through the redactor, whatever the file is called.
\<close>

theorem scan_redacted: "scan_text (redact s None) path = []"
proof -
  have "scan_line path i l = []" if "(i, l) \<in> set (enumerate 1 (splitlines (redact_secrets s)))" for i l
  proof -
    from that have "l \<in> set (splitlines (redact_secrets s))" by (auto simp: enumerate_eq_zip dest: set_zip_rightD)
    from line_clean [OF this] show ?thesis
      by (auto simp: scan_line_def filter_empty_conv enumerate_eq_zip dest: set_zip_rightD)
  qed
  then show ?thesis by (auto simp: scan_text_def redact_def)
qed

text \<open>
  stripping the workspace root comes after the substitution of the secrets and joins what
  stood around the root: with the workspace /w a text that held no secret becomes one that
  matches the pattern of an API key.
\<close>

theorem redact_root_joins_key:
  "redact ''sk-aaaaaaaaaa/w/bbbbbbbbbb'' None = ''sk-aaaaaaaaaa/w/bbbbbbbbbb'' \<and>
   redact ''sk-aaaaaaaaaa/w/bbbbbbbbbb'' (Some ''/w'') = ''sk-aaaaaaaaaabbbbbbbbbb'' \<and>
   match_openai ''sk-aaaaaaaaaabbbbbbbbbb'' \<noteq> None"
proof (intro conjI)
  let ?t = "''sk-aaaaaaaaaa/w/bbbbbbbbbb''"
  have "gsub match_openai MARK ?t = ?t" "gsub match_aws MARK ?t = ?t" "gsub match_generic MARK ?t = ?t"
    by code_simp+
  then have r: "redact_secrets ?t = ?t" by (simp only: redact_secrets_eq)
  then show "redact ?t None = ?t" by (simp only: redact_def Let_def option.case)
  have "rstrip_chars ''/'' ''/w'' = ''/w''" "''/w'' @ ''/'' = ''/w/''" "gsub (match_text ''/w/'') [] ?t = ''sk-aaaaaaaaaabbbbbbbbbb''"
    "gsub (match_boundary ''/w'') [] ''sk-aaaaaaaaaabbbbbbbbbb'' = ''sk-aaaaaaaaaabbbbbbbbbb''"
    by code_simp+
  then show "redact ?t (Some ''/w'') = ''sk-aaaaaaaaaabbbbbbbbbb''"
    using r by (simp only: redact_def Let_def option.case list.distinct if_False)
  show "match_openai ''sk-aaaaaaaaaabbbbbbbbbb'' \<noteq> None" by code_simp
qed

definition quoted_secret :: string where
  "quoted_secret = ''KEY='' @ [DQ] @ ''0123456789abcdef'' @ [DQ]"

text \<open>
  the audit log redacts the JSON encoding of a payload, where a quote is written with a
  backslash: the assignment of a quoted secret, which the redactor removes from the plain text,
  stays in the log as it is.
\<close>

theorem redact_misses_escaped_quote:
  "redact quoted_secret None = MARK @ [DQ] \<and>
   redact (dumps True (JObj [(''o'', JStr quoted_secret)])) None = dumps True (JObj [(''o'', JStr quoted_secret)])"
proof
  show "redact quoted_secret None = MARK @ [DQ]" by code_simp
  let ?t = "dumps True (JObj [(''o'', JStr quoted_secret)])"
  have "gsub match_openai MARK ?t = ?t" "gsub match_aws MARK ?t = ?t" "gsub match_generic MARK ?t = ?t"
    by code_simp+
  then show "redact ?t None = ?t" by (simp only: redact_def redact_secrets_eq Let_def option.case)
qed

end
