(* ===== verification/Database.thy ===== *)
theory Database
  imports Approval Redactor
begin

text \<open>
  The sqlite database and what is kept in it: the repositories (src/aegiscode/persistence), the
  audit log (audit/chain.py, events.py) and the memory store (memory/store.py).  A table is the
  list of its rows in the order of their insertion; an AUTOINCREMENT key is a counter of the
  table.  The arguments \<open>uid\<close> and \<open>now\<close> stand for the fresh \<open>uuid4\<close> and the clock reading that the
  code takes itself, \<open>H\<close> for SHA-256 in hexadecimal digits.  Errors of sqlite other than a
  violated primary key (a locked or damaged file) are not modelled.
\<close>

section \<open>Rows\<close>

record task_row =
  tk_id :: string
  tk_workspace_path :: string
  tk_workspace_hash :: string
  tk_description :: string
  tk_state :: string
  tk_termination_reason :: "string option"
  tk_step_count :: int
  tk_created_at :: string
  tk_updated_at :: string

record step_row =
  st_id :: nat
  st_task_id :: string
  st_step_index :: int
  st_action_json :: string
  st_governance_decision :: json
  st_triggered_rule_id :: json
  st_tool_result_json :: string
  st_feedback_category :: json
  st_created_at :: string

record approval_row =
  ap_id :: string
  ap_task_id :: string
  ap_step_index :: int
  ap_action_snapshot_json :: string
  ap_action_fingerprint :: string
  ap_governance_decision :: string
  ap_triggered_rule_id :: string
  ap_reason :: string
  ap_risk_explanation :: string
  ap_state :: string
  ap_remember_choice :: int
  ap_created_at :: string
  ap_decided_at :: "string option"
  ap_decided_by :: "string option"

record audit_row =
  ev_id :: nat
  ev_task_id :: string
  ev_step_index :: int
  ev_timestamp :: string
  ev_type :: string
  ev_payload_json :: string
  ev_prev_hash :: string
  ev_hash :: string

record memory_row =
  me_id :: string
  me_project_id :: string
  me_type :: string
  me_key :: string
  me_value :: string
  me_tags_json :: string
  me_source :: string
  me_confirmed :: int
  me_created_at :: string
  me_last_used_at :: string
  me_use_count :: int

record database =
  tasks :: "task_row list"
  steps :: "step_row list"
  approval_requests :: "approval_row list"
  audit_events :: "audit_row list"
  memories :: "memory_row list"
  step_seq :: nat    \<comment> \<open>the last key given to a row of \<open>steps\<close>\<close>
  event_seq :: nat   \<comment> \<open>the last key given to a row of \<open>audit_events\<close>\<close>

definition empty_db :: database where
  "empty_db = \<lparr>tasks = [], steps = [], approval_requests = [], audit_events = [], memories = [],
     step_seq = 0, event_seq = 0\<rparr>"

definition integrity_error :: exn where
  "integrity_error = exc ''IntegrityError'' ''UNIQUE constraint failed''"

definition key_error :: "string \<Rightarrow> exn" where
  "key_error m = exc ''KeyError'' (py_repr m)"

section \<open>Repositories\<close>

definition task_insert :: "string \<Rightarrow> string \<Rightarrow> string \<Rightarrow> string \<Rightarrow> string \<Rightarrow> (database, string) eff" where
  "task_insert uid now workspace_path workspace_hash description db =
     (if uid \<in> tk_id ` set (tasks db) then (Inl integrity_error, db)
      else (Inr uid, db\<lparr>tasks := tasks db @
        [\<lparr>tk_id = uid, tk_workspace_path = workspace_path, tk_workspace_hash = workspace_hash,
          tk_description = description, tk_state = ''RUNNING'', tk_termination_reason = None,
          tk_step_count = 0, tk_created_at = now, tk_updated_at = now\<rparr>]\<rparr>))"

definition task_get :: "string \<Rightarrow> database \<Rightarrow> task_row res" where
  "task_get i db =
     (case find (\<lambda>r. tk_id r = i) (tasks db) of
        None \<Rightarrow> Inl (key_error (''task not found: '' @ i))
      | Some r \<Rightarrow> Inr r)"

definition task_update_state ::
  "string \<Rightarrow> string \<Rightarrow> string \<Rightarrow> string option \<Rightarrow> int option \<Rightarrow> database \<Rightarrow> database" where
  "task_update_state now i state reason step_count db =
     db\<lparr>tasks := map (\<lambda>r. if tk_id r = i
        then (let r' = r\<lparr>tk_state := state, tk_termination_reason := reason, tk_updated_at := now\<rparr>
              in case step_count of None \<Rightarrow> r' | Some n \<Rightarrow> r'\<lparr>tk_step_count := n\<rparr>)
        else r) (tasks db)\<rparr>"

definition step_insert ::
  "string \<Rightarrow> string \<Rightarrow> int \<Rightarrow> string \<Rightarrow> json \<Rightarrow> json \<Rightarrow> string \<Rightarrow> json \<Rightarrow> database \<Rightarrow> database" where
  "step_insert now i step_index act decision rule tool_result_json fb db =
     db\<lparr>step_seq := Suc (step_seq db), steps := steps db @
       [\<lparr>st_id = Suc (step_seq db), st_task_id = i, st_step_index = step_index, st_action_json = act,
         st_governance_decision = decision, st_triggered_rule_id = rule,
         st_tool_result_json = tool_result_json, st_feedback_category = fb, st_created_at = now\<rparr>]\<rparr>"

definition step_list_for_task :: "string \<Rightarrow> database \<Rightarrow> step_row list" where
  "step_list_for_task i db = sort_key st_step_index (filter (\<lambda>r. st_task_id r = i) (steps db))"

definition approval_insert ::
  "string \<Rightarrow> string \<Rightarrow> string \<Rightarrow> int \<Rightarrow> json \<Rightarrow> string \<Rightarrow> string \<Rightarrow> string \<Rightarrow> string \<Rightarrow> string \<Rightarrow>
   (database, string) eff" where
  "approval_insert uid now i step_index snapshot fp decision rule reason risk db =
     (if uid \<in> ap_id ` set (approval_requests db) then (Inl integrity_error, db)
      else (Inr uid, db\<lparr>approval_requests := approval_requests db @
        [\<lparr>ap_id = uid, ap_task_id = i, ap_step_index = step_index,
          ap_action_snapshot_json = dumps True snapshot, ap_action_fingerprint = fp,
          ap_governance_decision = decision, ap_triggered_rule_id = rule, ap_reason = reason,
          ap_risk_explanation = risk, ap_state = ''PENDING'', ap_remember_choice = 0,
          ap_created_at = now, ap_decided_at = None, ap_decided_by = None\<rparr>]\<rparr>))"

definition approval_get :: "string \<Rightarrow> database \<Rightarrow> approval_row res" where
  "approval_get i db =
     (case find (\<lambda>r. ap_id r = i) (approval_requests db) of
        None \<Rightarrow> Inl (key_error (''approval not found: '' @ i))
      | Some r \<Rightarrow> Inr r)"

definition approval_update_state :: "string \<Rightarrow> string \<Rightarrow> string \<Rightarrow> string \<Rightarrow> database \<Rightarrow> database" where
  "approval_update_state now i state decided_by db =
     db\<lparr>approval_requests := map (\<lambda>r. if ap_id r = i
        then r\<lparr>ap_state := state, ap_decided_at := Some now, ap_decided_by := Some decided_by\<rparr>
        else r) (approval_requests db)\<rparr>"

definition approval_list_for_task :: "string \<Rightarrow> database \<Rightarrow> approval_row list" where
  "approval_list_for_task i db =
     sort_key ap_created_at (filter (\<lambda>r. ap_task_id r = i) (approval_requests db))"

text \<open>\<open>WHERE task_id=? ORDER BY event_id\<close>\<close>

definition task_events :: "string \<Rightarrow> database \<Rightarrow> audit_row list" where
  "task_events i db = sort_key ev_id (filter (\<lambda>r. ev_task_id r = i) (audit_events db))"

definition latest_action_step_index :: "string \<Rightarrow> database \<Rightarrow> int" where
  "latest_action_step_index i db =
     (case filter (\<lambda>r. ev_type r = ''ACTION_PROPOSED'') (task_events i db) of
        [] \<Rightarrow> 0
      | r # rs \<Rightarrow> ev_step_index (last (r # rs)))"

definition list_since :: "string \<Rightarrow> int \<Rightarrow> database \<Rightarrow> audit_row list" where
  "list_since i since db = filter (\<lambda>r. since < int (ev_id r)) (task_events i db)"

section \<open>The audit log\<close>

datatype event_type =
    ACTION_PROPOSED | GOVERNANCE_DECISION | APPROVAL_REQUESTED | APPROVAL_DECIDED
  | TOOL_EXECUTED | FEEDBACK | TERMINATION

fun event_value :: "event_type \<Rightarrow> string" where
  "event_value ACTION_PROPOSED = ''ACTION_PROPOSED''"
| "event_value GOVERNANCE_DECISION = ''GOVERNANCE_DECISION''"
| "event_value APPROVAL_REQUESTED = ''APPROVAL_REQUESTED''"
| "event_value APPROVAL_DECIDED = ''APPROVAL_DECIDED''"
| "event_value TOOL_EXECUTED = ''TOOL_EXECUTED''"
| "event_value FEEDBACK = ''FEEDBACK''"
| "event_value TERMINATION = ''TERMINATION''"

text \<open>\<open>str(e)\<close> of a member of a class that derives from \<open>str\<close> and \<open>Enum\<close>\<close>

definition event_str :: "event_type \<Rightarrow> string" where
  "event_str e = ''EventType.'' @ event_value e"

definition GENESIS :: string where
  "GENESIS = replicate 64 CHR ''0''"

text \<open>The hashed text without the hash of the previous row\<close>

definition event_body :: "string \<Rightarrow> int \<Rightarrow> string \<Rightarrow> string \<Rightarrow> string \<Rightarrow> string" where
  "event_body i step_index et ts payload_json =
     dumps True (JObj [(''task_id'', JStr i), (''step_index'', JInt step_index), (''event_type'', JStr et),
       (''timestamp'', JStr ts), (''payload_json'', JStr payload_json)])"

definition row_body :: "string \<Rightarrow> audit_row \<Rightarrow> string" where
  "row_body i r = event_body i (ev_step_index r) (ev_type r) (ev_timestamp r) (ev_payload_json r)"

definition prev_hash :: "string \<Rightarrow> database \<Rightarrow> string" where
  "prev_hash i db = (case task_events i db of [] \<Rightarrow> GENESIS | r # rs \<Rightarrow> ev_hash (last (r # rs)))"

definition audit_append :: "hash \<Rightarrow> string \<Rightarrow> string \<Rightarrow> int \<Rightarrow> event_type \<Rightarrow> args \<Rightarrow> database \<Rightarrow>
    string \<times> database" where
  "audit_append H now i step_index et payload db =
     (let payload_json = redact (dumps True (JObj payload)) None;
          prev = prev_hash i db;
          h = H (prev @ event_body i step_index (event_str et) now payload_json)
      in (h, db\<lparr>event_seq := Suc (event_seq db), audit_events := audit_events db @
           [\<lparr>ev_id = Suc (event_seq db), ev_task_id = i, ev_step_index = step_index, ev_timestamp = now,
             ev_type = event_str et, ev_payload_json = payload_json, ev_prev_hash = prev, ev_hash = h\<rparr>]\<rparr>))"

text \<open>The walk of \<open>verify_chain\<close> over the rows: the step index of the first bad row\<close>

fun walk_chain :: "hash \<Rightarrow> string \<Rightarrow> string \<Rightarrow> audit_row list \<Rightarrow> int option" where
  "walk_chain H i prev [] = None"
| "walk_chain H i prev (r # rs) =
     (if ev_prev_hash r \<noteq> prev \<or> ev_hash r \<noteq> H (prev @ row_body i r) then Some (ev_step_index r)
      else walk_chain H i (ev_hash r) rs)"

definition verify_chain :: "hash \<Rightarrow> string \<Rightarrow> int option \<Rightarrow> database \<Rightarrow> bool \<times> int option" where
  "verify_chain H i expected_count db =
     (let rows = task_events i db in
      case walk_chain H i GENESIS rows of
        Some s \<Rightarrow> (False, Some s)
      | None \<Rightarrow>
          (case expected_count of
             None \<Rightarrow> (True, None)
           | Some n \<Rightarrow> if int (length rows) \<noteq> n then (False, Some (int (length rows))) else (True, None)))"

section \<open>The memory store\<close>

definition has_secret :: "string \<Rightarrow> bool" where
  "has_secret t \<longleftrightarrow> scan_text t ''<text>'' \<noteq> []"

definition memory_write :: "string \<Rightarrow> string \<Rightarrow> string \<Rightarrow> string \<Rightarrow> string \<Rightarrow> string \<Rightarrow> string list option \<Rightarrow>
    string \<Rightarrow> bool option \<Rightarrow> (database, string option) eff" where
  "memory_write uid now project type key val tags source confirmed db =
     (if has_secret val \<or> has_secret key \<or> has_secret (join '' '' (case tags of None \<Rightarrow> [] | Some ts \<Rightarrow> ts))
      then (Inr None, db)
      else (let confirmed' = (if source = ''agent'' then False
                             else (case confirmed of None \<Rightarrow> True | Some b \<Rightarrow> b))
            in if uid \<in> me_id ` set (memories db) then (Inl integrity_error, db)
               else (Inr (Some uid), db\<lparr>memories := memories db @
                 [\<lparr>me_id = uid, me_project_id = project, me_type = type, me_key = key, me_value = val,
                   me_tags_json = dumps False (case tags of None \<Rightarrow> JNull | Some ts \<Rightarrow> JList (map JStr ts)),
                   me_source = source, me_confirmed = (if confirmed' then 1 else 0),
                   me_created_at = now, me_last_used_at = now, me_use_count = 0\<rparr>]\<rparr>)))"

text \<open>The operator LIKE of sqlite: per cent is any text, underscore any character, ASCII case ignored\<close>

definition fold_case :: "nat \<Rightarrow> nat" where
  "fold_case c = (if 65 \<le> c \<and> c \<le> 90 then c + 32 else c)"

fun like :: "nat list \<Rightarrow> nat list \<Rightarrow> bool" where
  "like [] t = (t = [])"
| "like (p # ps) [] = (p = 37 \<and> like ps [])"
| "like (p # ps) (c # t) =
     (if p = 37 then like ps (c # t) \<or> like (p # ps) t
      else (p = 95 \<or> fold_case p = fold_case c) \<and> like ps t)"

definition sql_like :: "string \<Rightarrow> string \<Rightarrow> bool" where
  "sql_like text pattern \<longleftrightarrow> like (cps pattern) (cps text)"

definition memory_selected :: "string \<Rightarrow> string option \<Rightarrow> string option \<Rightarrow> memory_row \<Rightarrow> bool" where
  "memory_selected project query type r \<longleftrightarrow>
     me_project_id r = project \<and>
     (case query of
        None \<Rightarrow> True
      | Some q \<Rightarrow> q = [] \<or> (let p = ''%'' @ q @ ''%'' in
          sql_like (me_key r) p \<or> sql_like (me_value r) p \<or> sql_like (me_tags_json r) p)) \<and>
     (case type of None \<Rightarrow> True | Some t \<Rightarrow> me_type r = t)"

definition sql_limit :: "int \<Rightarrow> 'a list \<Rightarrow> 'a list" where
  "sql_limit n rows = (if n < 0 then rows else take (nat n) rows)"

text \<open>\<open>ORDER BY last_used_at DESC\<close>; rows of one time keep the order of their insertion.\<close>

definition newest_first :: "memory_row list \<Rightarrow> memory_row list" where
  "newest_first rows = rev (sort_key me_last_used_at (rev rows))"

definition memory_retrieve :: "string \<Rightarrow> string \<Rightarrow> string option \<Rightarrow> int \<Rightarrow> string option \<Rightarrow> database \<Rightarrow>
    memory_row list \<times> database" where
  "memory_retrieve now project query top_k type db =
     (let rows = sql_limit top_k (newest_first (filter (memory_selected project query type) (memories db)))
      in (rows, db\<lparr>memories := map (\<lambda>r. if me_id r \<in> me_id ` set rows
            then r\<lparr>me_use_count := me_use_count r + 1, me_last_used_at := now\<rparr> else r) (memories db)\<rparr>))"

definition is_governance_usable :: "memory_row \<Rightarrow> bool" where
  "is_governance_usable r \<longleftrightarrow> me_source r \<noteq> ''agent''"

section \<open>Facts about the audit log\<close>

definition ids_ok :: "database \<Rightarrow> bool" where
  "ids_ok db \<longleftrightarrow> sorted_wrt (<) (map ev_id (audit_events db)) \<and> (\<forall>r \<in> set (audit_events db). ev_id r \<le> event_seq db)"

lemma sorted_filter_map: "sorted_wrt (<) (map f xs) \<Longrightarrow> sorted_wrt (<) (map f (filter P xs))" for f :: "'a \<Rightarrow> nat"
  by (induction xs) auto

lemma task_events_filter: "ids_ok db \<Longrightarrow> task_events i db = filter (\<lambda>r. ev_task_id r = i) (audit_events db)"
  unfolding task_events_def ids_ok_def
  by (intro sort_key_id_if_sorted strict_sorted_imp_sorted sorted_filter_map) simp

definition appended_row :: "hash \<Rightarrow> string \<Rightarrow> string \<Rightarrow> int \<Rightarrow> event_type \<Rightarrow> args \<Rightarrow> database \<Rightarrow> audit_row" where
  "appended_row H now i step_index et payload db =
     (let pj = redact (dumps True (JObj payload)) None in
      \<lparr>ev_id = Suc (event_seq db), ev_task_id = i, ev_step_index = step_index, ev_timestamp = now,
       ev_type = event_str et, ev_payload_json = pj, ev_prev_hash = prev_hash i db,
       ev_hash = H (prev_hash i db @ event_body i step_index (event_str et) now pj)\<rparr>)"

lemma audit_append_snd:
  "snd (audit_append H now i st et p db) =
     db\<lparr>event_seq := Suc (event_seq db), audit_events := audit_events db @ [appended_row H now i st et p db]\<rparr>"
  by (simp add: audit_append_def appended_row_def Let_def)

lemma ids_ok_empty [simp]: "ids_ok empty_db"
  by (simp add: ids_ok_def empty_db_def)

lemma appended_row_sel [simp]:
  "ev_id (appended_row H now i st et p db) = Suc (event_seq db)" "ev_task_id (appended_row H now i st et p db) = i"
  "ev_step_index (appended_row H now i st et p db) = st" "ev_type (appended_row H now i st et p db) = event_str et"
  "ev_prev_hash (appended_row H now i st et p db) = prev_hash i db" "ev_timestamp (appended_row H now i st et p db) = now"
  "ev_payload_json (appended_row H now i st et p db) = redact (dumps True (JObj p)) None"
  "ev_hash (appended_row H now i st et p db) =
     H (prev_hash i db @ row_body i (appended_row H now i st et p db))"
  by (simp_all add: appended_row_def Let_def row_body_def)

lemma ids_ok_append: "ids_ok db \<Longrightarrow> ids_ok (snd (audit_append H now i st et p db))"
  by (auto simp: ids_ok_def audit_append_snd sorted_wrt_append less_Suc_eq_le intro: le_SucI)

lemma task_events_append:
  "ids_ok db \<Longrightarrow> task_events j (snd (audit_append H now i st et p db)) =
     task_events j db @ (if i = j then [appended_row H now i st et p db] else [])"
  using ids_ok_append [of db H now i st et p] by (simp add: task_events_filter) (simp add: audit_append_snd)

definition last_hash :: "string \<Rightarrow> audit_row list \<Rightarrow> string" where
  "last_hash p rs = (if rs = [] then p else ev_hash (last rs))"

lemma last_hash_simps [simp]: "last_hash p [] = p" "last_hash p (rs @ [r]) = ev_hash r"
  "last_hash p (r # rs) = last_hash (ev_hash r) rs"
  by (auto simp: last_hash_def)

lemma prev_hash_last: "prev_hash i db = last_hash GENESIS (task_events i db)"
  by (simp add: prev_hash_def last_hash_def split: list.splits)

lemma walk_chain_snoc:
  "walk_chain H i p (rs @ [r]) = None \<longleftrightarrow> walk_chain H i p rs = None \<and>
     ev_prev_hash r = last_hash p rs \<and> ev_hash r = H (last_hash p rs @ row_body i r)"
  by (induction rs arbitrary: p) auto

lemma walk_chain_prefix: "walk_chain H i p (rs @ ts) = None \<Longrightarrow> walk_chain H i p rs = None"
  by (induction rs arbitrary: p) (auto split: if_splits)

text \<open>The database is consistent: every chain verifies.\<close>

definition chain_ok :: "hash \<Rightarrow> database \<Rightarrow> bool" where
  "chain_ok H db \<longleftrightarrow> ids_ok db \<and> (\<forall>i. walk_chain H i GENESIS (task_events i db) = None)"

lemma chain_ok_verify: "chain_ok H db \<Longrightarrow> verify_chain H i None db = (True, None)"
  by (simp add: chain_ok_def verify_chain_def)

lemma chain_ok_verify_count: "chain_ok H db \<Longrightarrow> verify_chain H i (Some n) db =
    (if n = int (length (task_events i db)) then (True, None) else (False, Some (int (length (task_events i db)))))"
  by (simp add: chain_ok_def verify_chain_def)

lemma chain_ok_ids: "chain_ok H db \<Longrightarrow> ids_ok db"
  by (simp add: chain_ok_def)

lemma chain_ok_empty: "chain_ok H empty_db"
  by (simp add: chain_ok_def task_events_def empty_db_def ids_ok_def)

lemma chain_ok_append: "chain_ok H db \<Longrightarrow> chain_ok H (snd (audit_append H now i st et p db))"
  by (auto simp: chain_ok_def ids_ok_append task_events_append walk_chain_snoc prev_hash_last)

text \<open>Operations on the other tables\<close>

lemma chain_ok_cong: "audit_events db' = audit_events db \<Longrightarrow> event_seq db' = event_seq db \<Longrightarrow> chain_ok H db' = chain_ok H db"
  by (simp add: chain_ok_def ids_ok_def task_events_def)

subsection \<open>The contract of an audit log\<close>

locale audit_sink =
  fixes ok :: "'s \<Rightarrow> bool" and put :: "string \<Rightarrow> string \<Rightarrow> int \<Rightarrow> event_type \<Rightarrow> args \<Rightarrow> 's \<Rightarrow> 's"
    and trail :: "string \<Rightarrow> 's \<Rightarrow> audit_row list"
  assumes put_ok: "ok s \<Longrightarrow> ok (put now i st et p s)"
    and put_trail: "ok s \<Longrightarrow> \<exists>r. trail i (put now i st et p s) = trail i s @ [r] \<and> ev_step_index r = st \<and>
      ev_type r = event_str et \<and> ev_payload_json r = redact (dumps True (JObj p)) None"
    and put_other: "ok s \<Longrightarrow> j \<noteq> i \<Longrightarrow> trail j (put now i st et p s) = trail j s"
begin

text \<open>A run of appends: what was there stays as a prefix, each append adds one row.\<close>

fun put_all :: "string \<Rightarrow> (string \<times> int \<times> event_type \<times> args) list \<Rightarrow> 's \<Rightarrow> 's" where
  "put_all i [] s = s"
| "put_all i ((now, st, et, p) # es) s = put_all i es (put now i st et p s)"

lemma put_all_ok: "ok s \<Longrightarrow> ok (put_all i es s)"
  by (induction i es s rule: put_all.induct) (auto simp: put_ok)

lemma put_all_trail:
  "ok s \<Longrightarrow> \<exists>rs. trail i (put_all i es s) = trail i s @ rs \<and>
     map (\<lambda>r. (ev_step_index r, ev_type r)) rs = map (\<lambda>(now, st, et, p). (st, event_str et)) es"
proof (induction i es s rule: put_all.induct)
  case (2 i now st et p es s)
  from put_trail [OF 2(2)] obtain r where r: "trail i (put now i st et p s) = trail i s @ [r]" "ev_step_index r = st" "ev_type r = event_str et"
    by blast
  from 2(1) [OF put_ok [OF 2(2)]] obtain rs where "trail i (put_all i es (put now i st et p s)) = trail i (put now i st et p s) @ rs"
    "map (\<lambda>r. (ev_step_index r, ev_type r)) rs = map (\<lambda>(now, st, et, p). (st, event_str et)) es" by blast
  with r show ?case by (intro exI [of _ "r # rs"]) simp
qed simp

end

interpretation log: audit_sink "chain_ok H" "\<lambda>now i st et p db. snd (audit_append H now i st et p db)" task_events for H
  by unfold_locales (auto simp: chain_ok_append task_events_append chain_ok_ids)


section \<open>Properties of the audit log\<close>

text \<open>
  C14: appending keeps every hash chain of the database valid: if the chains of all tasks verify,
  then after one more event they all verify again, the chain of the task with its count one
  higher, and the events of the other tasks are what they were.
\<close>

theorem audit_append_verifies:
  assumes "chain_ok H db" and "db' = snd (audit_append H now i st et p db)"
  shows "chain_ok H db' \<and> verify_chain H i (Some (int (length (task_events i db)) + 1)) db' = (True, None) \<and>
    (\<forall>j. j \<noteq> i \<longrightarrow> task_events j db' = task_events j db)"
proof -
  have "chain_ok H db'" unfolding assms(2) by (rule log.put_ok [OF assms(1)])
  moreover obtain r where "task_events i db' = task_events i db @ [r]"
    using log.put_trail [OF assms(1), of i now st et p] assms(2) by blast
  moreover have "task_events j db' = task_events j db" if "j \<noteq> i" for j
    unfolding assms(2) by (rule log.put_other [OF assms(1) that])
  ultimately show ?thesis by (simp add: chain_ok_verify_count)
qed

definition demo_events :: database where
  "demo_events = snd (audit_append (\<lambda>t. ''h'') ''t0'' ''task'' 0 FEEDBACK [] empty_db)"

theorem audit_append_verifies_witness:
  "chain_ok (\<lambda>t. ''h'') demo_events \<and> verify_chain (\<lambda>t. ''h'') ''task'' (Some (int (length (task_events ''task'' empty_db)) + 1)) demo_events = (True, None) \<and>
    task_events ''other'' demo_events = task_events ''other'' empty_db"
  using audit_append_verifies [OF chain_ok_empty demo_events_def] by simp

fun hash_inputs :: "string \<Rightarrow> string \<Rightarrow> audit_row list \<Rightarrow> string list" where
  "hash_inputs i p [] = []"
| "hash_inputs i p (r # rs) = (p @ row_body i r) # hash_inputs i (ev_hash r) rs"

definition row_content :: "audit_row \<Rightarrow> int \<times> string \<times> string \<times> string \<times> string \<times> string" where
  "row_content r = (ev_step_index r, ev_timestamp r, ev_type r, ev_payload_json r, ev_prev_hash r, ev_hash r)"

definition row_wf :: "audit_row \<Rightarrow> bool" where
  "row_wf r \<longleftrightarrow> jwf (JInt (ev_step_index r)) \<and> str_ok (ev_timestamp r) \<and> str_ok (ev_type r) \<and> str_ok (ev_payload_json r)"

lemma event_body_inj:
  assumes "row_wf r" "row_wf s" "str_ok i" "row_body i r = row_body i s"
  shows "ev_step_index r = ev_step_index s \<and> ev_timestamp r = ev_timestamp s \<and> ev_type r = ev_type s \<and>
    ev_payload_json r = ev_payload_json s"
proof -
  let ?o = "\<lambda>r. JObj [(''task_id'', JStr i), (''step_index'', JInt (ev_step_index r)), (''event_type'', JStr (ev_type r)),
       (''timestamp'', JStr (ev_timestamp r)), (''payload_json'', JStr (ev_payload_json r))]"
  have keys: "str_ok ''task_id''" "str_ok ''step_index''" "str_ok ''event_type''" "str_ok ''timestamp''" "str_ok ''payload_json''"
    by (simp_all add: str_ok_ascii)
  have "jwf (?o r)" "jwf (?o s)" using assms(1,2,3) keys by (simp_all add: row_wf_def)
  moreover have "dumps True (?o r) = dumps True (?o s)" using assms(4) by (simp only: row_body_def event_body_def)
  ultimately have "canon (?o r) = canon (?o s)" by (rule dumps_sorted_inj)
  then show ?thesis by simp
qed


lemma hash_inputs_snoc: "hash_inputs i p (rs @ [r]) = hash_inputs i p rs @ [last_hash p rs @ row_body i r]"
  by (induction rs arbitrary: p) auto

lemma hash_inputs_length [simp]: "length (hash_inputs i p rs) = length rs"
  by (induction rs arbitrary: p) auto

lemma last_hash_length:
  assumes "walk_chain H i GENESIS rs = None" and "\<And>t. length (H t) = 64"
  shows "length (last_hash GENESIS rs) = 64"
  using assms by (cases rs rule: rev_cases) (simp_all add: GENESIS_def walk_chain_snoc)

lemma tamper_evident_core:
  assumes "length rs = length ts" and "walk_chain H i GENESIS rs = None" and "walk_chain H i GENESIS ts = None"
    and "last_hash GENESIS rs = last_hash GENESIS ts" and "str_ok i" and "\<And>t. length (H t) = 64"
    and "list_all row_wf rs" and "list_all row_wf ts"
  shows "map row_content rs = map row_content ts \<or>
    (\<exists>(x, y) \<in> set (zip (hash_inputs i GENESIS rs) (hash_inputs i GENESIS ts)). collision H x y)"
  using assms
proof (induction rs arbitrary: ts rule: rev_induct)
  case (snoc r rs)
  obtain ts' t where ts: "ts = ts' @ [t]" using snoc.prems(1) by (cases ts rule: rev_cases) auto
  have len: "length rs = length ts'" using snoc.prems(1) ts by simp
  have w: "walk_chain H i GENESIS rs = None" "walk_chain H i GENESIS ts' = None"
    and p: "ev_prev_hash r = last_hash GENESIS rs" "ev_prev_hash t = last_hash GENESIS ts'"
    and h: "ev_hash r = H (last_hash GENESIS rs @ row_body i r)" "ev_hash t = H (last_hash GENESIS ts' @ row_body i t)"
    using snoc.prems(2,3) ts by (simp_all add: walk_chain_snoc)
  have eq: "H (last_hash GENESIS rs @ row_body i r) = H (last_hash GENESIS ts' @ row_body i t)"
    using snoc.prems(4) h ts by simp
  have z: "zip (hash_inputs i GENESIS (rs @ [r])) (hash_inputs i GENESIS ts) =
      zip (hash_inputs i GENESIS rs) (hash_inputs i GENESIS ts') @
        [(last_hash GENESIS rs @ row_body i r, last_hash GENESIS ts' @ row_body i t)]"
    using len ts by (simp add: hash_inputs_snoc)
  show ?case
  proof (cases "last_hash GENESIS rs @ row_body i r = last_hash GENESIS ts' @ row_body i t")
    case False
    with eq z show ?thesis by (simp add: collision_def)
  next
    case True
    then have l: "last_hash GENESIS rs = last_hash GENESIS ts'" and b: "row_body i r = row_body i t"
      using last_hash_length [OF w(1) snoc.prems(6)] last_hash_length [OF w(2) snoc.prems(6)] by auto
    have c: "row_content r = row_content t"
      using event_body_inj [OF _ _ snoc.prems(5) b] snoc.prems(4,7,8) ts p l by (simp add: row_content_def)
    have "map row_content rs = map row_content ts' \<or>
      (\<exists>(x, y) \<in> set (zip (hash_inputs i GENESIS rs) (hash_inputs i GENESIS ts')). collision H x y)"
      using snoc.IH [OF len w l snoc.prems(5,6)] snoc.prems(7,8) ts by simp
    with c ts z show ?thesis by auto
  qed
qed simp

text \<open>
  C15: the chain shows tampering: when the rows of a task and another list of as many rows of the
  same task both verify and end in the same hash, either every field that is read back is the
  same in both, or two of the texts that were hashed at the same place are a collision of the
  hash.  (A hash has 64 digits; the texts of the rows encode as UTF-8.)
\<close>

theorem audit_tamper_evident:
  assumes "verify_chain H i (Some n) db = (True, None)" and "verify_chain H i (Some n) db' = (True, None)"
    and "prev_hash i db = prev_hash i db'" and "str_ok i" and "\<And>t. length (H t) = 64"
    and "list_all row_wf (task_events i db)" and "list_all row_wf (task_events i db')"
  shows "map row_content (task_events i db) = map row_content (task_events i db') \<or>
    (\<exists>(x, y) \<in> set (zip (hash_inputs i GENESIS (task_events i db)) (hash_inputs i GENESIS (task_events i db'))).
        collision H x y)"
proof (rule tamper_evident_core)
  have *: "walk_chain H i GENESIS (task_events i d) = None \<and> int (length (task_events i d)) = n"
    if "verify_chain H i (Some n) d = (True, None)" for d
    using that by (auto simp: verify_chain_def Let_def split: option.splits if_splits)
  show "length (task_events i db) = length (task_events i db')"
    "walk_chain H i GENESIS (task_events i db) = None" "walk_chain H i GENESIS (task_events i db') = None"
    using * [OF assms(1)] * [OF assms(2)] by simp_all
  show "last_hash GENESIS (task_events i db) = last_hash GENESIS (task_events i db')"
    using assms(3) by (simp only: prev_hash_last)
qed (use assms in auto)

text \<open>The hash of the examples: every text has the hash of the first row.\<close>

definition flat_hash :: hash where "flat_hash t = GENESIS"

definition demo_log :: "int \<Rightarrow> database" where
  "demo_log st = snd (audit_append flat_hash ''t0'' ''task'' st FEEDBACK [] empty_db)"

lemma demo_log_events:
  "task_events ''task'' (demo_log st) = [appended_row flat_hash ''t0'' ''task'' st FEEDBACK [] empty_db]"
  unfolding demo_log_def task_events_append [OF ids_ok_empty] by (simp add: task_events_def empty_db_def)

lemma demo_log_verify: "verify_chain flat_hash ''task'' (Some 1) (demo_log st) = (True, None)"
  using chain_ok_verify_count [OF chain_ok_append [OF chain_ok_empty], of flat_hash "''task''" 1 "''t0''" "''task''" st FEEDBACK "[]"]
  by (simp add: demo_log_events flip: demo_log_def)

lemma demo_log_wf:
  assumes "length (digits (nat \<bar>st\<bar>)) \<le> 4300"
  shows "list_all row_wf (task_events ''task'' (demo_log st))"
proof -
  have "redact (dumps True (JObj [])) None = ''{}''" by code_simp
  then show ?thesis using assms by (simp add: demo_log_events row_wf_def event_str_def str_ok_ascii)
qed

lemma demo_log_prev: "prev_hash ''task'' (demo_log st) = GENESIS"
  by (simp add: prev_hash_last demo_log_events flat_hash_def)

theorem audit_tamper_evident_witness:
  "\<exists>x y. (map row_content (task_events ''task'' (demo_log 0)) = map row_content (task_events ''task'' (demo_log 1)) \<or>
    (x, y) \<in> set (zip (hash_inputs ''task'' GENESIS (task_events ''task'' (demo_log 0)))
        (hash_inputs ''task'' GENESIS (task_events ''task'' (demo_log 1)))) \<and> collision flat_hash x y)"
proof -
  have p: "prev_hash ''task'' (demo_log 0) = prev_hash ''task'' (demo_log 1)" by (simp only: demo_log_prev)
  have l: "length (flat_hash t) = 64" for t by (simp add: flat_hash_def GENESIS_def)
  have w: "list_all row_wf (task_events ''task'' (demo_log 0))" "list_all row_wf (task_events ''task'' (demo_log 1))"
    by (rule demo_log_wf, simp add: digits.simps)+
  have i: "str_ok ''task''" by (simp add: str_ok_ascii)
  show ?thesis
    using audit_tamper_evident [OF demo_log_verify demo_log_verify p i l w] by auto
qed

text \<open>
  removing rows from the end of a chain is found only by the count: the rest still verifies
  without an expected count, and with the count of the full chain the answer is the number of
  rows that are left.
\<close>

theorem audit_truncation:
  assumes "chain_ok H db" and "task_events i db' = take k (task_events i db)" and "k \<le> length (task_events i db)"
  shows "verify_chain H i None db' = (True, None) \<and>
    verify_chain H i (Some (int (length (task_events i db)))) db' =
      (if k = length (task_events i db) then (True, None) else (False, Some (int k)))"
proof -
  have "walk_chain H i GENESIS (take k (task_events i db) @ drop k (task_events i db)) = None"
    using assms(1) by (simp add: chain_ok_def)
  from walk_chain_prefix [OF this] assms(2,3) show ?thesis by (auto simp: verify_chain_def)
qed

theorem audit_truncation_witness:
  "verify_chain flat_hash ''task'' None empty_db = (True, None) \<and>
    verify_chain flat_hash ''task'' (Some (int (length (task_events ''task'' (demo_log 0))))) empty_db =
      (if 0 = length (task_events ''task'' (demo_log 0)) then (True, None) else (False, Some (int 0)))"
  by (rule audit_truncation [where k = 0])
    (simp_all add: demo_log_def chain_ok_append chain_ok_empty, simp add: task_events_def empty_db_def)

text \<open>What the types of the events look like to those who read them\<close>

definition events_typed :: "database \<Rightarrow> bool" where
  "events_typed db \<longleftrightarrow> (\<forall>r \<in> set (audit_events db). \<exists>e. ev_type r = event_str e)"

lemma events_typed_empty [simp]: "events_typed empty_db"
  by (simp add: events_typed_def empty_db_def)

lemma events_typed_append: "events_typed db \<Longrightarrow> events_typed (snd (audit_append H now i st et p db))"
  by (auto simp: events_typed_def audit_append_snd)

lemma event_str_not_value: "event_str e \<noteq> event_value e'"
  by (cases e') (simp_all add: event_str_def)

lemma set_task_events: "set (task_events i db) = {r \<in> set (audit_events db). ev_task_id r = i}"
  by (auto simp: task_events_def)

lemma latest_action_step_index_typed:
  assumes "events_typed db"
  shows "latest_action_step_index i db = 0"
proof -
  have "filter (\<lambda>r. ev_type r = ''ACTION_PROPOSED'') (task_events i db) = []"
    using assms event_str_not_value [of _ ACTION_PROPOSED] by (auto simp: filter_empty_conv events_typed_def set_task_events)
  then show ?thesis by (simp add: latest_action_step_index_def)
qed

section \<open>Rows found by their key\<close>

locale keyed_rows =
  fixes key :: "'r \<Rightarrow> string" and upd :: "'r \<Rightarrow> 'r"
  assumes upd_key: "key (upd r) = key r"
begin

definition update_rows :: "string \<Rightarrow> 'r list \<Rightarrow> 'r list" where
  "update_rows k rows = map (\<lambda>r. if key r = k then upd r else r) rows"

lemma find_update:
  "find (\<lambda>r. key r = k) (update_rows k' rows) =
     map_option (\<lambda>r. if k = k' then upd r else r) (find (\<lambda>r. key r = k) rows)"
  by (induction rows) (auto simp: update_rows_def upd_key)

lemma find_inserted: "k \<notin> key ` set rows \<Longrightarrow> key r = k \<Longrightarrow> find (\<lambda>r. key r = k) (rows @ [r]) = Some r"
  by (induction rows) auto

lemma find_kept: "key r \<noteq> k \<Longrightarrow> find (\<lambda>r. key r = k) (rows @ [r]) = find (\<lambda>r. key r = k) rows"
  by (induction rows) auto

lemma update_keys: "map key (update_rows k rows) = map key rows"
  by (induction rows) (auto simp: update_rows_def upd_key)

end

definition set_task_state :: "string \<Rightarrow> string \<Rightarrow> string option \<Rightarrow> int option \<Rightarrow> task_row \<Rightarrow> task_row" where
  "set_task_state now state reason n r =
     (let r' = r\<lparr>tk_state := state, tk_termination_reason := reason, tk_updated_at := now\<rparr>
      in case n of None \<Rightarrow> r' | Some n \<Rightarrow> r'\<lparr>tk_step_count := n\<rparr>)"

interpretation task_rows: keyed_rows tk_id "set_task_state now state reason n" for now state reason n
  by unfold_locales (simp add: set_task_state_def Let_def split: option.splits)

definition set_approval_state :: "string \<Rightarrow> string \<Rightarrow> string \<Rightarrow> approval_row \<Rightarrow> approval_row" where
  "set_approval_state now state by_whom r = r\<lparr>ap_state := state, ap_decided_at := Some now, ap_decided_by := Some by_whom\<rparr>"

interpretation approval_rows: keyed_rows ap_id "set_approval_state now state by_whom" for now state by_whom
  by unfold_locales (simp add: set_approval_state_def)

lemma task_update_state_rows:
  "task_update_state now i state reason n db = db\<lparr>tasks := task_rows.update_rows now state reason n i (tasks db)\<rparr>"
  by (simp add: task_update_state_def task_rows.update_rows_def set_task_state_def)

lemma approval_update_state_rows:
  "approval_update_state now i state w db =
     db\<lparr>approval_requests := approval_rows.update_rows now state w i (approval_requests db)\<rparr>"
  by (simp add: approval_update_state_def approval_rows.update_rows_def set_approval_state_def)

lemma task_get_update:
  "task_get j (task_update_state now i state reason n db) =
     (case task_get j db of Inl e \<Rightarrow> Inl e | Inr r \<Rightarrow> Inr (if j = i then set_task_state now state reason n r else r))"
  unfolding task_get_def task_update_state_rows
  by (simp add: task_rows.find_update split: option.splits)

lemma approval_get_update:
  "approval_get j (approval_update_state now i state w db) =
     (case approval_get j db of Inl e \<Rightarrow> Inl e | Inr r \<Rightarrow> Inr (if j = i then set_approval_state now state w r else r))"
  unfolding approval_get_def approval_update_state_rows
  by (simp add: approval_rows.find_update split: option.splits)

lemma task_insert_get:
  assumes "task_insert uid now w h d db = (Inr i, db')"
  shows "i = uid" "task_get i db' = Inr \<lparr>tk_id = uid, tk_workspace_path = w, tk_workspace_hash = h,
          tk_description = d, tk_state = ''RUNNING'', tk_termination_reason = None,
          tk_step_count = 0, tk_created_at = now, tk_updated_at = now\<rparr>"
  using assms by (auto simp: task_insert_def task_get_def task_rows.find_inserted split: if_splits)

lemma approval_insert_get:
  assumes "approval_insert uid now t st snap fp dec rl rsn risk db = (Inr i, db')"
  shows "i = uid" "\<exists>r. approval_get i db' = Inr r \<and> ap_state r = ''PENDING'' \<and> ap_task_id r = t \<and> ap_action_fingerprint r = fp \<and>
    ap_step_index r = st \<and> ap_action_snapshot_json r = dumps True snap"
  using assms by (auto simp: approval_insert_def approval_get_def approval_rows.find_inserted split: if_splits)

section \<open>The memory store\<close>

text \<open>No row holds a secret, an agent's memory is unconfirmed, and the keys are distinct.\<close>

definition tags_text :: "string list option \<Rightarrow> string" where
  "tags_text tags = dumps False (case tags of None \<Rightarrow> JNull | Some ts \<Rightarrow> JList (map JStr ts))"

definition memory_ok :: "memory_row \<Rightarrow> bool" where
  "memory_ok r \<longleftrightarrow> \<not> has_secret (me_key r) \<and> \<not> has_secret (me_value r) \<and>
     (\<exists>tags. me_tags_json r = tags_text tags \<and> (\<forall>ts. tags = Some ts \<longrightarrow> \<not> has_secret (join '' '' ts))) \<and>
     (me_source r = ''agent'' \<longrightarrow> me_confirmed r = 0) \<and> 0 \<le> me_use_count r"

definition memories_ok :: "database \<Rightarrow> bool" where
  "memories_ok db \<longleftrightarrow> distinct (map me_id (memories db)) \<and> list_all memory_ok (memories db)"

lemma memories_ok_write:
  "memories_ok db \<Longrightarrow> memories_ok (snd (memory_write uid now p ty k v tags src conf db))"
  by (auto simp: memories_ok_def memory_write_def memory_ok_def tags_text_def Let_def intro!: exI [of _ tags])

definition touch :: "string \<Rightarrow> memory_row list \<Rightarrow> memory_row \<Rightarrow> memory_row" where
  "touch now rows r = (if me_id r \<in> me_id ` set rows
     then r\<lparr>me_use_count := me_use_count r + 1, me_last_used_at := now\<rparr> else r)"

lemma touch_id [simp]: "me_id (touch now rows r) = me_id r"
  by (simp add: touch_def)

lemma touch_ok: "memory_ok r \<Longrightarrow> memory_ok (touch now rows r)"
  by (simp add: touch_def memory_ok_def)

lemma memory_retrieve_snd:
  "snd (memory_retrieve now p q k ty db) = db\<lparr>memories := map (touch now (fst (memory_retrieve now p q k ty db))) (memories db)\<rparr>"
  by (simp add: memory_retrieve_def Let_def touch_def [abs_def])

lemma memories_ok_retrieve: "memories_ok db \<Longrightarrow> memories_ok (snd (memory_retrieve now p q k ty db))"
  by (auto simp: memories_ok_def memory_retrieve_snd comp_def list_all_iff touch_ok)

text \<open>
  C16: the memory store keeps its invariant: whatever is written or retrieved, no row holds a
  secret in its key, its value or its tags, a memory written by the agent is never confirmed,
  whatever the caller asks for, and no two rows share an identifier.
\<close>

theorem memory_store_invariant:
  assumes "memories_ok db"
  shows "memories_ok (snd (memory_write uid now p ty k v tags src conf db)) \<and>
    memories_ok (snd (memory_retrieve now p q n ty' db))"
  using memories_ok_write [OF assms] memories_ok_retrieve [OF assms] by blast

definition demo_memory :: database where
  "demo_memory = snd (memory_write ''m1'' ''t0'' ''p'' ''note'' ''k'' ''v'' None ''agent'' (Some True) empty_db)"

theorem memory_store_invariant_witness:
  "memories_ok demo_memory \<and> memories_ok (snd (memory_retrieve ''t0'' ''p'' None 8 None empty_db))"
  unfolding demo_memory_def
  by (rule memory_store_invariant) (simp add: memories_ok_def empty_db_def)

lemma newest_first_props: "set (newest_first rows) = set rows" "sorted (rev (map me_last_used_at (newest_first rows)))"
  by (simp_all add: newest_first_def rev_map)

lemma sql_limit_props: "set (sql_limit n rows) \<subseteq> set rows" "0 \<le> n \<Longrightarrow> int (length (sql_limit n rows)) \<le> n"
  by (auto simp: sql_limit_def dest: in_set_takeD)

lemma sql_limit_sorted: "sorted (rev (map f xs)) \<Longrightarrow> sorted (rev (map f (sql_limit n xs)))"
  by (auto simp: sql_limit_def take_map [symmetric] rev_take sorted_wrt_drop)

text \<open>
  what a retrieval returns and does: at most \<open>top_k\<close> rows of the project, each of which matches
  the query and the type, the most recently used first; every returned row has its use counter
  raised by one in the table and every other row stays as it was.
\<close>

theorem memory_retrieve_spec:
  assumes "memory_retrieve now project query k type db = (rows, db')" and "0 \<le> k"
  shows "int (length rows) \<le> k \<and> list_all (memory_selected project query type) rows \<and> set rows \<subseteq> set (memories db) \<and>
    sorted (rev (map me_last_used_at rows)) \<and>
    map me_use_count (memories db') =
      map (\<lambda>r. if me_id r \<in> me_id ` set rows then me_use_count r + 1 else me_use_count r) (memories db) \<and>
    filter (\<lambda>r. me_id r \<notin> me_id ` set rows) (memories db') = filter (\<lambda>r. me_id r \<notin> me_id ` set rows) (memories db)"
proof -
  let ?sel = "filter (memory_selected project query type) (memories db)"
  have rows: "rows = sql_limit k (newest_first ?sel)" using assms(1) by (simp add: memory_retrieve_def Let_def)
  have "set rows \<subseteq> set ?sel" unfolding rows
    by (rule sql_limit_props(1) [of k "newest_first ?sel", unfolded newest_first_props(1)])
  moreover have "int (length rows) \<le> k" unfolding rows by (rule sql_limit_props(2) [OF assms(2)])
  moreover have "sorted (rev (map me_last_used_at rows))"
    unfolding rows by (rule sql_limit_sorted [OF newest_first_props(2)])
  moreover have db': "memories db' = map (touch now rows) (memories db)"
    using arg_cong [OF memory_retrieve_snd [of now project query k type db], of memories] unfolding assms(1) by simp
  moreover have "filter (\<lambda>r. me_id r \<notin> me_id ` set rows) (map (touch now rows) ms) = filter (\<lambda>r. me_id r \<notin> me_id ` set rows) ms" for ms
    by (induction ms) (auto simp: touch_def)
  moreover have "map me_use_count (map (touch now rows) ms) =
      map (\<lambda>r. if me_id r \<in> me_id ` set rows then me_use_count r + 1 else me_use_count r) ms" for ms
    by (induction ms) (auto simp: touch_def)
  moreover have "set ?sel \<subseteq> set (memories db)" "list_all (memory_selected project query type) ?sel"
    by (auto simp: list_all_iff)
  ultimately show ?thesis unfolding list_all_iff by (simp only:) blast
qed

theorem memory_retrieve_spec_witness:
  "\<exists>rows db'. memory_retrieve ''t1'' ''p'' None 8 None demo_memory = (rows, db') \<and> rows \<noteq> [] \<and> int (length rows) \<le> 8 \<and>
    map me_use_count (memories db') = [1]"
proof -
  obtain rows db' where r: "memory_retrieve ''t1'' ''p'' None 8 None demo_memory = (rows, db')" by fastforce
  have m: "map me_id (memories demo_memory) = [''m1'']" "map me_use_count (memories demo_memory) = [0]" by code_simp+
  then obtain x where x: "memories demo_memory = [x]" "me_id x = ''m1''" "me_use_count x = 0" by auto
  have "map me_id (fst (memory_retrieve ''t1'' ''p'' None 8 None demo_memory)) = [''m1'']" by code_simp
  then have ids: "map me_id rows = [''m1'']" using r by simp
  then have "me_id x \<in> me_id ` set rows" "rows \<noteq> []" using x by (auto simp flip: list.set_map)
  then show ?thesis using memory_retrieve_spec [OF r] r x by auto
qed

section \<open>The search pattern\<close>

lemma like_literal:
  "37 \<notin> set q \<Longrightarrow> 95 \<notin> set q \<Longrightarrow> like (q @ [37]) t \<longleftrightarrow> prefix (map fold_case q) (map fold_case t)"
proof (induction q arbitrary: t)
  case Nil
  show ?case by (induction t) simp_all
next
  case (Cons c q)
  then show ?case by (cases t) auto
qed

lemma like_percent: "like (37 # ps) t \<longleftrightarrow> (\<exists>u v. t = u @ v \<and> like ps v)"
proof (induction t)
  case (Cons c t)
  have "(\<exists>u v. c # t = u @ v \<and> like ps v) \<longleftrightarrow> like ps (c # t) \<or> (\<exists>u v. t = u @ v \<and> like ps v)"
    by (metis append_Cons append_Nil list.exhaust list.inject)
  with Cons show ?case by simp
qed simp

lemma percent_code: "of_char c = (37::nat) \<longleftrightarrow> c = CHR ''%''" "of_char c = (95::nat) \<longleftrightarrow> c = CHR ''_''"
  using of_char_eq_iff [of c "CHR ''%''", where ?'a = nat] of_char_eq_iff [of c "CHR ''_''", where ?'a = nat] by simp_all

text \<open>
  a query without wildcard characters selects by containment: the pattern that the store
  builds from it matches exactly the texts that contain the query, up to the case of ASCII
  letters.
\<close>

theorem like_contains:
  assumes "CHR ''%'' \<notin> set q" and "CHR ''_'' \<notin> set q" and "ascii q" and "ascii t"
  shows "sql_like t (''%'' @ q @ ''%'') \<longleftrightarrow> sublist (map fold_case (cps q)) (map fold_case (cps t))"
proof -
  have c: "cps (''%'' @ q @ ''%'') = 37 # cps q @ [37]" using assms(3) by (simp add: cps_ascii)
  have n: "37 \<notin> set (cps q)" "95 \<notin> set (cps q)"
  proof -
    have "of_char c \<noteq> (37::nat) \<and> of_char c \<noteq> (95::nat)" if "c \<in> set q" for c
      using that assms(1,2) percent_code by metis
    then show "37 \<notin> set (cps q)" "95 \<notin> set (cps q)" using assms(3) by (fastforce simp: cps_ascii)+
  qed
  have "sql_like t (''%'' @ q @ ''%'') \<longleftrightarrow>
      (\<exists>u v. cps t = u @ v \<and> prefix (map fold_case (cps q)) (map fold_case v))"
    unfolding sql_like_def c like_percent like_literal [OF n] ..
  also have "\<dots> \<longleftrightarrow> sublist (map fold_case (cps q)) (map fold_case (cps t))"
    unfolding sublist_altdef' suffix_def by (metis map_append append_eq_map_conv map_eq_append_conv)
  finally show ?thesis .
qed

theorem like_contains_witness:
  "sql_like ''My Note'' (''%'' @ ''note'' @ ''%'') \<longleftrightarrow> sublist (map fold_case (cps ''note'')) (map fold_case (cps ''My Note''))"
  by (rule like_contains) simp_all

end
