(* ===== verification/Context.thy ===== *)
theory Context
  imports Dispatcher Database
begin

text \<open>
  What the model is told: the context under a budget of characters
  (src/aegiscode/memory/context_builder.py) and the texts of the prompt (prompt/builder.py).
\<close>

section \<open>The context\<close>

record message =
  role :: string
  content :: string

definition msg :: "string \<Rightarrow> string \<Rightarrow> message" where
  "msg r c = \<lparr>role = r, content = c\<rparr>"

record step_record =
  sr_tool :: string
  sr_decision :: string
  sr_category :: string
  sr_detail :: string

definition summarize_step :: "step_record \<Rightarrow> string" where
  "summarize_step s = ''[step tool='' @ sr_tool s @ '' decision='' @ sr_decision s @ '' feedback='' @ sr_category s @ '']''"

definition msgs_len :: "message list \<Rightarrow> nat" where
  "msgs_len msgs = sum_list (map (\<lambda>m. ulen (content m)) msgs)"

definition head_messages :: "string \<Rightarrow> string \<Rightarrow> string \<Rightarrow> message list" where
  "head_messages system_text protocol task =
     [msg ''system'' (system_text @ [NL] @ protocol), msg ''user'' (''TASK: '' @ task)]"

definition tail_messages :: "string \<Rightarrow> memory_row list \<Rightarrow> message list" where
  "tail_messages last_feedback mems =
     (let mem_txt = join [NL] (map (\<lambda>m. ''- '' @ me_key m @ '': '' @ me_value m) mems) in
      (if last_feedback \<noteq> [] then [msg ''user'' (''FEEDBACK:'' @ [NL] @ last_feedback)] else []) @
      (if mem_txt \<noteq> [] then [msg ''system'' (''MEMORY:'' @ [NL] @ mem_txt)] else []))"

definition detail_message :: "nat \<Rightarrow> step_record \<Rightarrow> message" where
  "detail_message i s = msg ''assistant''
     (''step '' @ digits i @ '': '' @ sr_tool s @ '' -> '' @ sr_category s @ [NL] @ sr_detail s)"

definition detailed_steps :: "step_record list \<Rightarrow> message list" where
  "detailed_steps recent_steps = map (\<lambda>(i, s). detail_message i s) (enumerate 0 recent_steps)"

function shrink :: "message list \<Rightarrow> message list \<Rightarrow> int \<Rightarrow> step_record list \<Rightarrow> message list \<Rightarrow> nat \<Rightarrow> message list" where
  "shrink hd_msgs tl_msgs budget recent_steps detailed idx =
     (if budget < int (msgs_len (hd_msgs @ detailed @ tl_msgs)) \<and> idx < length detailed
      then shrink hd_msgs tl_msgs budget recent_steps
             (detailed[idx := msg ''assistant'' (summarize_step (recent_steps ! idx))]) (idx + 1)
      else hd_msgs @ detailed @ tl_msgs)"
  by pat_completeness auto
termination by (relation "measure (\<lambda>(h, t, b, s, d, i). length d - i)") auto

definition build_context ::
  "string \<Rightarrow> string \<Rightarrow> string \<Rightarrow> step_record list \<Rightarrow> string \<Rightarrow> memory_row list \<Rightarrow> int \<Rightarrow> message list" where
  "build_context system_text protocol task recent_steps last_feedback mems budget_chars =
     shrink (head_messages system_text protocol task) (tail_messages last_feedback mems) budget_chars
       recent_steps (detailed_steps recent_steps) 0"

declare shrink.simps [simp del]

section \<open>The prompt\<close>

definition rule_text :: "command_rule \<Rightarrow> string" where
  "rule_text r = rule_argv0 r @ '' '' @ join '' '' (args_contain r) @ '' -> '' @ decision_value (rule_decision r)"

definition system_prompt :: "aegis_config \<Rightarrow> int \<Rightarrow> string" where
  "system_prompt config remaining_steps =
     (let g = governance config;
          sensitive = join '', '' (sensitive_file_patterns g);
          allowlist = join '', '' (command_allowlist g);
          rules = join ''; '' (map rule_text (command_rules g))
      in
     ''You are AegisCode, a coding agent running INSIDE the AegisCode harness. You '' @
     ''have NO direct access to the file system or the shell. Every effect happens '' @
     ''ONLY through a tool call, which is parameter-validated, governed, executed, and '' @
     ''audited by the harness.'' @ [NL, NL] @ ''Rules you must follow:'' @ [NL] @
     ''- Return EXACTLY ONE structured action per turn (see the tool protocol). Never '' @
     ''describe multiple actions.'' @ [NL] @
     ''- Use only the tools listed in the tool protocol; no other tool exists for you.'' @
     [NL] @ ''- Operate only within the current workspace. Do NOT use path traversal ('' @
     [SQ] @ ''..'' @ [SQ] @ ''), absolute paths, or touch sensitive files ('' @ sensitive @
     '').'' @ [NL] @ ''- Command allowlist: '' @ allowlist @ ''. Governed command rules: '' @
     rules @ ''.'' @ [NL] @
     ''- After any tool failure, governance denial, parse error, or pytest failure, '' @
     ''read the feedback and change your next action accordingly.'' @ [NL] @
     ''- Never claim you performed an action you did not actually emit as a tool call.'' @
     [NL] @
     ''- Emit the `finish` action ONLY after the tests objectively pass (pytest exit '' @
     ''code 0); the harness independently re-runs pytest before accepting completion.'' @
     [NL] @
     ''- Do NOT repeat an action that already succeeded: if a file is already written '' @
     ''correctly or a command already succeeded, do not send it again '' @
     [CHR 0xE2, CHR 0x80, CHR 0x94] @
     '' the harness flags a repeated identical action as NO_PROGRESS and stops the run.'' @
     [NL] @
     ''- As soon as the tests objectively pass (pytest exit code 0), your next action '' @
     ''MUST be `finish` '' @ [CHR 0xE2, CHR 0x80, CHR 0x94] @
     '' do not rewrite files that are already correct.'' @ [NL] @ ''- You have '' @
     str_of_int remaining_steps @ '' step(s) remaining.'')"

definition tool_protocol :: "'s registry \<Rightarrow> string" where
  "tool_protocol reg =
     ''TOOL PROTOCOL '' @ [CHR 0xE2, CHR 0x80, CHR 0x94] @
     '' respond with a SINGLE JSON object in a ```json fenced block, and nothing else '' @
     ''that could be mistaken for JSON:'' @ [NL] @ ''```json'' @ [NL] @ ''{'' @ [DQ] @
     ''thought'' @ [DQ] @ '': '' @ [DQ] @ ''<your reasoning>'' @ [DQ] @ '', '' @ [DQ] @
     ''tool'' @ [DQ] @ '': '' @ [DQ] @ ''<tool name>'' @ [DQ] @ '', '' @ [DQ] @
     ''arguments'' @ [DQ] @ '': {<tool arguments>}, '' @ [DQ] @ ''expectation'' @ [DQ] @
     '': '' @ [DQ] @ ''<what you expect>'' @ [DQ] @ ''}'' @ [NL] @ ''```'' @ [NL] @
     ''`thought` and `expectation` are optional; `tool` and `arguments` are required. '' @
     ''`arguments` must match the selected tool'' @ [SQ] @ ''s schema below.'' @ [NL, NL] @
     ''Available tools:'' @ [NL] @
     describe reg"

section \<open>Facts about the context\<close>

text \<open>The steps with the first \<open>k\<close> of them summarised\<close>

definition summarised :: "nat \<Rightarrow> step_record list \<Rightarrow> message list" where
  "summarised k ss = map (\<lambda>s. msg ''assistant'' (summarize_step s)) (take k ss) @ drop k (detailed_steps ss)"

lemma detailed_steps_length [simp]: "length (detailed_steps ss) = length ss"
  by (simp add: detailed_steps_def)

lemma summarised_simps [simp]: "summarised 0 ss = detailed_steps ss" "length (summarised k ss) = length ss"
  by (simp_all add: summarised_def)

lemma summarised_Suc:
  assumes "k < length ss"
  shows "(summarised k ss)[k := msg ''assistant'' (summarize_step (ss ! k))] = summarised (Suc k) ss"
proof -
  have "drop k (detailed_steps ss) = (detailed_steps ss ! k) # drop (Suc k) (detailed_steps ss)"
    using assms by (intro Cons_nth_drop_Suc [symmetric]) simp
  moreover have "take (Suc k) ss = take k ss @ [ss ! k]" using assms by (rule take_Suc_conv_app_nth)
  ultimately show ?thesis using assms by (simp add: summarised_def list_update_append)
qed

lemma shrink_summarised:
  assumes "i \<le> length ss"
  shows "\<exists>k. i \<le> k \<and> k \<le> length ss \<and> shrink h t b ss (summarised i ss) i = h @ summarised k ss @ t \<and>
    (int (msgs_len (h @ summarised k ss @ t)) \<le> b \<or> k = length ss) \<and>
    (\<forall>j. i \<le> j \<and> j < k \<longrightarrow> b < int (msgs_len (h @ summarised j ss @ t)))"
  using assms
proof (induction "length ss - i" arbitrary: i)
  case 0
  then show ?case by (intro exI [of _ i]) (auto simp: shrink.simps)
next
  case (Suc n)
  then have i: "i < length ss" by simp
  show ?case
  proof (cases "b < int (msgs_len (h @ summarised i ss @ t))")
    case False
    then show ?thesis using i by (intro exI [of _ i]) (auto simp: shrink.simps)
  next
    case True
    have eq: "shrink h t b ss (summarised i ss) i = shrink h t b ss (summarised (Suc i) ss) (Suc i)"
      using True i by (subst shrink.simps) (simp add: summarised_Suc)
    have "n = length ss - Suc i" "Suc i \<le> length ss" using Suc.hyps(2) i by simp_all
    from Suc.hyps(1) [OF this] obtain k where k: "Suc i \<le> k" "k \<le> length ss"
      "shrink h t b ss (summarised (Suc i) ss) (Suc i) = h @ summarised k ss @ t"
      "int (msgs_len (h @ summarised k ss @ t)) \<le> b \<or> k = length ss"
      "\<forall>j. Suc i \<le> j \<and> j < k \<longrightarrow> b < int (msgs_len (h @ summarised j ss @ t))" by blast
    have "\<forall>j. i \<le> j \<and> j < k \<longrightarrow> b < int (msgs_len (h @ summarised j ss @ t))"
      using k(5) True by (metis le_antisym not_less_eq_eq)
    with k eq show ?thesis by (intro exI [of _ k]) auto
  qed
qed

section \<open>Properties\<close>

text \<open>
  C17: the context under a budget: the task, the last feedback and the memories are always there;
  of the steps the oldest ones are replaced by their summaries, as few as make the context fit,
  and the context exceeds the budget only when every step is a summary.
\<close>

theorem build_context_budget:
  "\<exists>k \<le> length ss. let ctx_of = (\<lambda>j. head_messages sp tp task @ summarised j ss @ tail_messages fb mems) in
     build_context sp tp task ss fb mems budget = ctx_of k \<and>
     (int (msgs_len (ctx_of k)) \<le> budget \<or> k = length ss) \<and>
     (\<forall>j < k. budget < int (msgs_len (ctx_of j)))"
  using shrink_summarised [of 0 ss "head_messages sp tp task" "tail_messages fb mems" budget]
  unfolding build_context_def Let_def summarised_simps by blast

theorem build_context_budget_witness:
  "\<exists>k \<le> 1. build_context ''s'' ''p'' ''t'' [\<lparr>sr_tool = ''x'', sr_decision = ''ALLOW'', sr_category = ''SUCCESS'', sr_detail = ''d''\<rparr>] [] [] 0 =
     head_messages ''s'' ''p'' ''t'' @
       summarised k [\<lparr>sr_tool = ''x'', sr_decision = ''ALLOW'', sr_category = ''SUCCESS'', sr_detail = ''d''\<rparr>] @ tail_messages [] []"
  using build_context_budget [of "[\<lparr>sr_tool = ''x'', sr_decision = ''ALLOW'', sr_category = ''SUCCESS'', sr_detail = ''d''\<rparr>]"
    "''s''" "''p''" "''t''" "[]" "[]" 0]
  unfolding Let_def by auto

lemma fold_register_names:
  "distinct (map t_name ts) \<Longrightarrow> set (map t_name ts) \<inter> set (map fst reg) = {} \<Longrightarrow>
   fold register ts reg = reg @ map (\<lambda>t. (t_name t, t)) ts"
proof (induction ts arbitrary: reg)
  case (Cons t ts)
  have "AList.update (t_name t) t reg = reg @ [(t_name t, t)]"
    using Cons.prems(2) by (induction reg) auto
  then have "register t reg = reg @ [(t_name t, t)]" by (simp add: register_def)
  with Cons show ?case by auto
qed simp

text \<open>
  a tool that is not enabled is absent from the protocol: the registry that is described to the
  model holds exactly the enabled tools among the seven known ones, in a fixed order, whatever else
  the configuration lists.
\<close>

theorem protocol_tools:
  "registry_names (build_registry E config :: 's os_state_scheme registry) =
     filter (\<lambda>n. n \<in> set (enabled (tools config)))
       [''write_file'', ''read_file'', ''list_files'', ''search_text'', ''finish'', ''run_command'', ''run_tests'']"
proof -
  let ?ts = "all_tools E config :: 's os_state_scheme tool list"
  let ?known = "[''write_file'', ''read_file'', ''list_files'', ''search_text'', ''finish'', ''run_command'', ''run_tests'']"
  have names: "map t_name ?ts = ?known"
    by (simp add: all_tools_def Let_def write_file_tool_def read_file_tool_def list_files_tool_def search_text_tool_def
        finish_tool_def run_command_tool_def run_tests_tool_def)
  have "distinct ?known" by code_simp
  then have "distinct (map t_name (filter (\<lambda>t. t_name t \<in> set (enabled (tools config))) ?ts))"
    unfolding names [symmetric] by (rule distinct_map_filter)
  then have "registry_names (build_registry E config :: 's os_state_scheme registry) =
      map t_name (filter (\<lambda>t. t_name t \<in> set (enabled (tools config))) ?ts)"
    unfolding build_registry_def registry_names_def by (subst fold_register_names) (simp_all add: comp_def)
  also have "\<dots> = filter (\<lambda>n. n \<in> set (enabled (tools config))) (map t_name ?ts)"
    by (simp add: filter_map comp_def)
  finally show ?thesis by (simp only: names)
qed

end
