(* ===== verification/Harness.thy ===== *)
theory Harness
  imports Feedback Context
begin

text \<open>
  The agent loop (src/aegiscode/loop/harness.py).  The world that a run changes is the operating
  system of the tools, the database and the positions in the streams of the environment: clock
  readings, fresh identifiers, polls of the cancel flag, calls of the model and questions to a counting resolver.  The model is a
  function of the number of the call and the messages, so a scripted and a real model are both
  instances.  \<open>run\<close> is a recursive function whose termination is proved, so every run returns.
\<close>

section \<open>World, environment, harness\<close>

record world = os_state +
  w_db :: database
  w_ticks :: nat
  w_uuids :: nat
  w_polls :: nat
  w_llm :: nat
  w_asks :: nat

record env =
  e_os :: os_env
  e_now :: "nat \<Rightarrow> string"      \<comment> \<open>the wall clock as ISO 8601 text\<close>
  e_mono :: "nat \<Rightarrow> int"        \<comment> \<open>the monotonic clock in milliseconds\<close>
  e_uuid :: "nat \<Rightarrow> string"
  e_hash :: hash
  e_diag :: "string \<Rightarrow> string"  \<comment> \<open>the text of a decoder error\<close>

definition read_now :: "env \<Rightarrow> world \<Rightarrow> string \<times> world" where
  "read_now E w = (e_now E (w_ticks w), w\<lparr>w_ticks := Suc (w_ticks w)\<rparr>)"

definition read_mono :: "env \<Rightarrow> world \<Rightarrow> int \<times> world" where
  "read_mono E w = (e_mono E (w_ticks w), w\<lparr>w_ticks := Suc (w_ticks w)\<rparr>)"

record harness =
  h_llm :: "nat \<Rightarrow> message list \<Rightarrow> string res"
  h_dispatcher :: "world dispatcher"
  h_config :: aegis_config
  h_ctx :: ctx
  h_verifier :: "(world, bool) eff"
  h_resolver :: "(action \<Rightarrow> verdict \<Rightarrow> (world, bool \<times> action) eff) option"
  h_cancel :: "(nat \<Rightarrow> bool) option"
  h_memory :: bool                         \<comment> \<open>a memory store is wired\<close>
  h_project :: "string option"
  h_prompt :: "world registry option"      \<comment> \<open>the registry of the prompt builder\<close>

record loop_state =
  ls_c :: counters
  ls_feedback :: string
  ls_steps :: "step_record list"
  ls_tracker :: tracker

datatype outcome = Next loop_state | Done termination_reason

declare outcome.case_cong [fundef_cong]

abbreviation h_limits :: "harness \<Rightarrow> limits" where
  "h_limits h \<equiv> limits_of (h_config h)"

section \<open>Helpers\<close>

text \<open>\<open>self.audit.append(self.ctx.task_id, step, type, payload)\<close>\<close>

definition audit :: "env \<Rightarrow> harness \<Rightarrow> int \<Rightarrow> event_type \<Rightarrow> args \<Rightarrow> world \<Rightarrow> world" where
  "audit E h st et payload w =
     (let (now, w1) = read_now E w
      in w1\<lparr>w_db := snd (audit_append (e_hash E) now (task_id (h_ctx h)) st et payload (w_db w1))\<rparr>)"

definition audit_term :: "env \<Rightarrow> harness \<Rightarrow> counters \<Rightarrow> termination_reason \<Rightarrow> world \<Rightarrow> world" where
  "audit_term E h c r = audit E h (step c) TERMINATION [(''reason'', JStr (reason_value r))]"

definition stop_with :: "env \<Rightarrow> harness \<Rightarrow> counters \<Rightarrow> termination_reason \<Rightarrow> world \<Rightarrow> outcome \<times> world" where
  "stop_with E h c r w = (Done r, audit_term E h c r w)"

definition format_feedback :: "string \<Rightarrow> tool_result \<Rightarrow> string" where
  "format_feedback cat r =
     (if detail_for_llm r \<noteq> [] then cat @ '': '' @ detail_for_llm r else cat @ '': '' @ r_summary r)"

definition append_step ::
  "step_record list \<Rightarrow> action \<Rightarrow> verdict \<Rightarrow> string option \<Rightarrow> string \<Rightarrow> limits \<Rightarrow> step_record list" where
  "append_step recent_steps a v cat summary l =
     (let updated = recent_steps @ [\<lparr>sr_tool = tool_name a, sr_decision = decision_value (v_decision v),
            sr_category = (case cat of None \<Rightarrow> ''SUCCESS'' | Some c \<Rightarrow> c), sr_detail = summary\<rparr>];
          k = max_steps l
      in if 0 < k then drop (length updated - nat k) updated else drop (nat (- k)) updated)"

definition retrieve_memories :: "env \<Rightarrow> harness \<Rightarrow> world \<Rightarrow> memory_row list \<times> world" where
  "retrieve_memories E h w =
     (case h_project h of
        None \<Rightarrow> ([], w)
      | Some p \<Rightarrow>
          if \<not> h_memory h then ([], w)
          else (let (now, w1) = read_now E w;
                    (rows, db) = memory_retrieve now p None (retrieval_top_k (memory (h_config h))) None (w_db w1)
                in (filter is_governance_usable rows, w1\<lparr>w_db := db\<rparr>)))"

definition build :: "env \<Rightarrow> harness \<Rightarrow> string \<Rightarrow> loop_state \<Rightarrow> world \<Rightarrow> message list \<times> world" where
  "build E h task ls w =
     (let (sys_text, protocol) =
            (case h_prompt h of
               None \<Rightarrow> ([], [])
             | Some reg \<Rightarrow>
                 (system_prompt (h_config h) (max 0 (max_steps (h_limits h) - step (ls_c ls))), tool_protocol reg));
          (mems, w1) = retrieve_memories E h w
      in (build_context sys_text protocol task (ls_steps ls) (ls_feedback ls) mems
            (context_budget_chars (memory (h_config h))), w1))"

definition call_llm :: "harness \<Rightarrow> message list \<Rightarrow> (world, string) eff" where
  "call_llm h msgs w = (h_llm h (w_llm w) msgs, w\<lparr>w_llm := Suc (w_llm w)\<rparr>)"

fun complete_attempts :: "nat \<Rightarrow> harness \<Rightarrow> message list \<Rightarrow> (world, string) eff" where
  "complete_attempts 0 h msgs w =
     (Inl (exc ''RuntimeError'' (''LLM failed after '' @ str_of_int (llm_max_retries (h_limits h)) @ '' attempts'')), w)"
| "complete_attempts (Suc n) h msgs w =
     (case call_llm h msgs w of
        (Inr text, w1) \<Rightarrow> (Inr text, w1)
      | (Inl _, w1) \<Rightarrow> complete_attempts n h msgs w1)"

definition complete_with_retry :: "harness \<Rightarrow> message list \<Rightarrow> (world, string) eff" where
  "complete_with_retry h msgs = complete_attempts (nat (llm_max_retries (h_limits h))) h msgs"

definition failed_step :: "counters \<Rightarrow> counters" where
  "failed_step c = c\<lparr>step := step c + 1, consecutive_failures := consecutive_failures c + 1\<rparr>"

definition feedback_payload :: "string \<Rightarrow> string \<Rightarrow> args" where
  "feedback_payload cat detail = [(''category'', JStr cat), (''detail'', JStr detail)]"

definition decided_payload :: "action \<Rightarrow> string \<Rightarrow> args" where
  "decided_payload a state = [(''tool'', JStr (tool_name a)), (''state'', JStr state)]"

section \<open>The branches of a turn\<close>

text \<open>The reply is not an action.\<close>

definition invalid_turn :: "env \<Rightarrow> harness \<Rightarrow> string \<Rightarrow> exn \<Rightarrow> loop_state \<Rightarrow> world \<Rightarrow> outcome \<times> world" where
  "invalid_turn E h raw e ls w =
     (let c = ls_c ls; fb = ''PARSE_ERROR: '' @ exn_msg e
      in (Next (ls\<lparr>ls_c := c\<lparr>invalid_actions := invalid_actions c + 1\<rparr>, ls_feedback := fb\<rparr>),
          audit E h (step c) FEEDBACK (feedback_payload ''INVALID_ACTION'' fb)
            (audit E h (step c) ACTION_PROPOSED [(''raw'', JStr raw), (''error'', JStr (exn_msg e))] w)))"

text \<open>A result that is fed back as a policy denial: the step counts as a failure.\<close>

definition denied_turn ::
  "env \<Rightarrow> harness \<Rightarrow> action \<Rightarrow> verdict \<Rightarrow> tool_result \<Rightarrow> loop_state \<Rightarrow> world \<Rightarrow> outcome \<times> world" where
  "denied_turn E h a v r ls w =
     (let c = ls_c ls; fb = format_feedback ''POLICY_DENIED'' r
      in (Next (ls\<lparr>ls_c := failed_step c, ls_feedback := fb,
             ls_steps := append_step (ls_steps ls) a v (Some ''POLICY_DENIED'') (r_summary r) (h_limits h)\<rparr>),
          audit E h (step c) FEEDBACK (feedback_payload ''POLICY_DENIED'' fb) w))"

definition superseded_turn ::
  "env \<Rightarrow> harness \<Rightarrow> action \<Rightarrow> verdict \<Rightarrow> tool_result \<Rightarrow> loop_state \<Rightarrow> world \<Rightarrow> outcome \<times> world" where
  "superseded_turn E h a v r ls w =
     denied_turn E h a v r ls
       (audit E h (step (ls_c ls)) APPROVAL_DECIDED
          (decided_payload a ''SUPERSEDED'' @ [(''detail'', JStr (r_summary r))]) w)"

definition rejected_turn :: "env \<Rightarrow> harness \<Rightarrow> action \<Rightarrow> verdict \<Rightarrow> loop_state \<Rightarrow> world \<Rightarrow> outcome \<times> world" where
  "rejected_turn E h a v ls w =
     (let c = ls_c ls
      in (Next (ls\<lparr>ls_c := failed_step c, ls_feedback := ''APPROVAL_REJECTED: action was not approved'',
             ls_steps := append_step (ls_steps ls) a v (Some ''APPROVAL_REJECTED'') [] (h_limits h)\<rparr>),
          audit E h (step c) APPROVAL_DECIDED (decided_payload a ''REJECTED'') w))"

definition executed_payload :: "action \<Rightarrow> tool_result \<Rightarrow> args" where
  "executed_payload a r =
     [(''tool'', JStr (tool_name a)), (''status'', JStr (status_value (r_status r)))] @
     (case dget (artifacts r) ''changed_files'' of
        None \<Rightarrow> []
      | Some files \<Rightarrow> if truthy files then [(''changed_files'', files)] else [])"

text \<open>The finish tool ends the run only when the final verifier accepts.\<close>

definition finish_turn :: "env \<Rightarrow> harness \<Rightarrow> loop_state \<Rightarrow> (world, outcome) eff" where
  "finish_turn E h ls w =
     andThen (h_verifier h) (\<lambda>ok w1.
       let c = ls_c ls; fb = ''FINISH_REJECTED: final verification failed'' in
       if ok then (case stop_with E h c COMPLETED w1 of (r, w2) \<Rightarrow> (Inr r, w2))
       else (Inr (Next (ls\<lparr>ls_c := failed_step c, ls_feedback := fb\<rparr>)),
             audit E h (step c) FEEDBACK (feedback_payload ''FINISH_REJECTED'' fb) w1)) w"

text \<open>Feedback on a result; the event is filed under the step that follows.\<close>

definition after_result :: "bool \<Rightarrow> category option \<Rightarrow> tool_result \<Rightarrow> counters \<Rightarrow> counters \<times> string" where
  "after_result no_progress cat r c =
     (if no_progress
      then (c\<lparr>step := step c + 1, no_progress_hits := no_progress_hits c + 1\<rparr>, ''NO_PROGRESS: repeated action detected'')
      else (case cat of
              Some k \<Rightarrow> (failed_step c, format_feedback (category_value k) r)
            | None \<Rightarrow> (c\<lparr>step := step c + 1, consecutive_failures := 0\<rparr>, [])))"

definition classify_turn ::
  "env \<Rightarrow> harness \<Rightarrow> action \<Rightarrow> verdict \<Rightarrow> tool_result \<Rightarrow> loop_state \<Rightarrow> world \<Rightarrow> outcome \<times> world" where
  "classify_turn E h a v r ls w =
     (let cat = classify r;
          (no_progress, t) = seen (fingerprint (e_hash E) a) (ls_tracker ls);
          (c, fb) = after_result no_progress cat r (ls_c ls);
          label = map_option category_value cat
      in (Next (ls\<lparr>ls_c := c, ls_feedback := fb, ls_tracker := t,
             ls_steps := append_step (ls_steps ls) a v label (r_summary r) (h_limits h)\<rparr>),
          audit E h (step c) FEEDBACK
            (feedback_payload (case label of None \<Rightarrow> ''SUCCESS'' | Some k \<Rightarrow> k) fb) w))"

definition executed_turn ::
  "env \<Rightarrow> harness \<Rightarrow> action \<Rightarrow> verdict \<Rightarrow> tool_result \<Rightarrow> loop_state \<Rightarrow> (world, outcome) eff" where
  "executed_turn E h a v r ls w =
     (let w1 = audit E h (step (ls_c ls)) TOOL_EXECUTED (executed_payload a r) w
      in if tool_name a = ''finish'' then finish_turn E h ls w1
         else (case classify_turn E h a v r ls w1 of (x, w2) \<Rightarrow> (Inr x, w2)))"

definition is_superseded :: "tool_result \<Rightarrow> bool" where
  "is_superseded r \<longleftrightarrow> (case dget (artifacts r) ''superseded'' of None \<Rightarrow> False | Some v \<Rightarrow> truthy v)"

text \<open>
  Approval is bound to the fingerprint of the action at the moment of the request.  The resolver is
  handed the action object itself and may change it, so it returns the action as it leaves it.
\<close>

definition ask_resolver :: "harness \<Rightarrow> action \<Rightarrow> verdict \<Rightarrow> (world, bool \<times> action) eff" where
  "ask_resolver h a v = (case h_resolver h of None \<Rightarrow> ret (False, a) | Some f \<Rightarrow> f a v)"

definition approval_turn :: "env \<Rightarrow> harness \<Rightarrow> action \<Rightarrow> verdict \<Rightarrow> loop_state \<Rightarrow> (world, outcome) eff" where
  "approval_turn E h a v ls w =
     (let approved_fp = fingerprint (e_hash E) a in
      andThen (ask_resolver h a v) (\<lambda>(approved, a') w1.
        if approved
        then andThen (execute_approved (e_hash E) (h_dispatcher h) a' (h_ctx h) (Some approved_fp)) (\<lambda>r w2.
               if is_superseded r
               then (case superseded_turn E h a' v r ls w2 of (x, w3) \<Rightarrow> (Inr x, w3))
               else executed_turn E h a' v r ls
                      (audit E h (step (ls_c ls)) APPROVAL_DECIDED (decided_payload a' ''APPROVED'') w2)) w1
        else (case rejected_turn E h a' v ls w1 of (x, w2) \<Rightarrow> (Inr x, w2))) w)"

definition decision_payload :: "action \<Rightarrow> verdict \<Rightarrow> args" where
  "decision_payload a v =
     [(''tool'', JStr (tool_name a)), (''decision'', JStr (decision_value (v_decision v))),
      (''rule'', JStr (rule_id v)), (''reason'', JStr (v_reason v))]"

definition assertion_error :: exn where
  "assertion_error = exc ''AssertionError'' []"

definition governed_turn ::
  "env \<Rightarrow> harness \<Rightarrow> action \<Rightarrow> verdict \<Rightarrow> tool_result option \<Rightarrow> loop_state \<Rightarrow> (world, outcome) eff" where
  "governed_turn E h a v result ls w =
     (if v_decision v = REQUIRE_APPROVAL then approval_turn E h a v ls w
      else (case result of
              None \<Rightarrow> (Inl assertion_error, w)
            | Some r \<Rightarrow>
                if v_decision v = DENY
                then (case denied_turn E h a v r ls w of (x, w1) \<Rightarrow> (Inr x, w1))
                else executed_turn E h a v r ls w))"

definition action_turn :: "env \<Rightarrow> harness \<Rightarrow> action \<Rightarrow> loop_state \<Rightarrow> (world, outcome) eff" where
  "action_turn E h a ls0 w =
     (let ls = ls0\<lparr>ls_c := (ls_c ls0)\<lparr>invalid_actions := 0\<rparr>\<rparr>;
          w1 = audit E h (step (ls_c ls0)) ACTION_PROPOSED
                 [(''tool'', JStr (tool_name a)), (''arguments'', JObj (arguments a))] w
      in andThen (dispatch (h_dispatcher h) a (h_ctx h)) (\<lambda>(v, result) w2.
           governed_turn E h a v result ls
             (audit E h (step (ls_c ls0)) GOVERNANCE_DECISION (decision_payload a v) w2)) w1)"

definition turn_body :: "env \<Rightarrow> harness \<Rightarrow> string \<Rightarrow> loop_state \<Rightarrow> (world, outcome) eff" where
  "turn_body E h task ls w =
     (let (msgs, w1) = build E h task ls w in
      case complete_with_retry h msgs w1 of
        (Inl _, w2) \<Rightarrow> (case stop_with E h (ls_c ls) LLM_ERROR w2 of (x, w3) \<Rightarrow> (Inr x, w3))
      | (Inr raw, w2) \<Rightarrow>
          (case parse_action (e_diag E) raw of
             Inr a \<Rightarrow> action_turn E h a ls w2
           | Inl e \<Rightarrow>
               if exn_class e = ''ActionParseError''
               then (case invalid_turn E h raw e ls w2 of (x, w3) \<Rightarrow> (Inr x, w3))
               else (Inl e, w2)))"

section \<open>The loop\<close>

definition poll_cancel :: "harness \<Rightarrow> world \<Rightarrow> bool \<times> world" where
  "poll_cancel h w =
     (case h_cancel h of
        None \<Rightarrow> (False, w)
      | Some f \<Rightarrow> (f (w_polls w), w\<lparr>w_polls := Suc (w_polls w)\<rparr>))"

definition turn :: "env \<Rightarrow> harness \<Rightarrow> string \<Rightarrow> int \<Rightarrow> loop_state \<Rightarrow> world \<Rightarrow> outcome \<times> world" where
  "turn E h task t0 ls w =
     (let (now, w1) = read_mono E w in
      case decide_termination (ls_c ls) (h_limits h) (now - t0) of
        Some r \<Rightarrow> stop_with E h (ls_c ls) r w1
      | None \<Rightarrow>
          (let (cancelled, w2) = poll_cancel h w1 in
           if cancelled then stop_with E h (ls_c ls) CANCELLED w2
           else (case turn_body E h task ls w2 of
                   (Inr x, w3) \<Rightarrow> (x, w3)
                 | (Inl _, w3) \<Rightarrow> stop_with E h (ls_c ls) INTERNAL_ERROR w3)))"

text \<open>
  A turn that goes on advances the step and has no invalid action pending, or counts one more
  invalid action.
\<close>

definition advances :: "loop_state \<Rightarrow> loop_state \<Rightarrow> bool" where
  "advances ls ls' \<longleftrightarrow> step (ls_c ls') = step (ls_c ls) + 1 \<and> invalid_actions (ls_c ls') = 0 \<or>
     step (ls_c ls') = step (ls_c ls) \<and> invalid_actions (ls_c ls') = invalid_actions (ls_c ls) + 1"

lemma failed_step_sel [simp]:
  "step (failed_step c) = step c + 1" "invalid_actions (failed_step c) = invalid_actions c"
  "consecutive_failures (failed_step c) = consecutive_failures c + 1" "no_progress_hits (failed_step c) = no_progress_hits c"
  by (simp_all add: failed_step_def)

lemma after_result_step: "after_result np cat r c = (c', fb) \<Longrightarrow> step c' = step c + 1 \<and> invalid_actions c' = invalid_actions c"
  by (auto simp: after_result_def split: option.splits if_splits)

lemma stop_with_not_Next [simp]: "stop_with E h c r w \<noteq> (Next ls', w')" "fst (stop_with E h c r w) = Done r"
  by (simp_all add: stop_with_def)

lemma finish_advances: "finish_turn E h ls w = (Inr (Next ls'), w') \<Longrightarrow> step (ls_c ls') = step (ls_c ls) + 1 \<and> invalid_actions (ls_c ls') = invalid_actions (ls_c ls)"
  by (auto simp: finish_turn_def andThen_def Let_def split: sum.splits prod.splits if_splits)

lemma classify_advances: "classify_turn E h a v r ls w = (Next ls', w') \<Longrightarrow> step (ls_c ls') = step (ls_c ls) + 1 \<and> invalid_actions (ls_c ls') = invalid_actions (ls_c ls)"
  by (auto simp: classify_turn_def Let_def split: prod.splits dest: after_result_step)

lemma executed_advances: "executed_turn E h a v r ls w = (Inr (Next ls'), w') \<Longrightarrow> step (ls_c ls') = step (ls_c ls) + 1 \<and> invalid_actions (ls_c ls') = invalid_actions (ls_c ls)"
  by (auto simp: executed_turn_def Let_def split: if_splits prod.splits dest: finish_advances classify_advances)

lemma denied_advances: "denied_turn E h a v r ls w = (Next ls', w') \<Longrightarrow> step (ls_c ls') = step (ls_c ls) + 1 \<and> invalid_actions (ls_c ls') = invalid_actions (ls_c ls)"
  by (auto simp: denied_turn_def Let_def)

lemma rejected_advances: "rejected_turn E h a v ls w = (Next ls', w') \<Longrightarrow> step (ls_c ls') = step (ls_c ls) + 1 \<and> invalid_actions (ls_c ls') = invalid_actions (ls_c ls)"
  by (auto simp: rejected_turn_def Let_def)

lemma approval_advances: "approval_turn E h a v ls w = (Inr (Next ls'), w') \<Longrightarrow> step (ls_c ls') = step (ls_c ls) + 1 \<and> invalid_actions (ls_c ls') = invalid_actions (ls_c ls)"
  unfolding approval_turn_def Let_def
  by (elim andThen_InrE)
    (auto split: if_splits prod.splits elim!: andThen_InrE
      dest: executed_advances denied_advances rejected_advances simp: superseded_turn_def)

lemma governed_advances: "governed_turn E h a v res ls w = (Inr (Next ls'), w') \<Longrightarrow>
    step (ls_c ls') = step (ls_c ls) + 1 \<and> invalid_actions (ls_c ls') = invalid_actions (ls_c ls)"
  by (auto simp: governed_turn_def split: if_splits prod.splits option.splits
      dest: executed_advances denied_advances approval_advances)

lemma action_advances:
  assumes "action_turn E h a ls w = (Inr (Next ls'), w')"
  shows "step (ls_c ls') = step (ls_c ls) + 1 \<and> invalid_actions (ls_c ls') = 0"
  using assms unfolding action_turn_def Let_def
  by (elim andThen_InrE) (auto split: prod.splits dest!: governed_advances)

lemma body_advances: "turn_body E h task ls w = (Inr (Next ls'), w') \<Longrightarrow> advances ls ls'"
  by (auto simp: turn_body_def advances_def invalid_turn_def Let_def split: prod.splits sum.splits if_splits
      dest: action_advances)

lemma turn_Next:
  assumes "turn E h task t0 ls w = (Next ls', w')"
  shows "advances ls ls' \<and> step (ls_c ls) < max_steps (h_limits h) \<and> invalid_actions (ls_c ls) < action_retry_limit (h_limits h)"
  using assms
  by (auto simp: turn_def Let_def decide_None split: prod.splits option.splits if_splits sum.splits dest: body_advances)

function loop :: "env \<Rightarrow> harness \<Rightarrow> string \<Rightarrow> int \<Rightarrow> loop_state \<Rightarrow> world \<Rightarrow> termination_reason \<times> world" where
  "loop E h task t0 ls w =
     (case turn E h task t0 ls w of
        (Done r, w1) \<Rightarrow> (r, w1)
      | (Next ls1, w1) \<Rightarrow> loop E h task t0 ls1 w1)"
  by pat_completeness auto

text \<open>The measure: first the steps that are left, then the invalid actions that are left.\<close>

termination
proof (relation "measures [\<lambda>(E, h, task, t0, ls, w). nat (max_steps (h_limits h) - step (ls_c ls)),
    \<lambda>(E, h, task, t0, ls, w). nat (action_retry_limit (h_limits h) - invalid_actions (ls_c ls))]", goal_cases)
  case 2
  then show ?case by (auto simp: advances_def dest!: turn_Next [OF sym])
qed simp

declare loop.simps [simp del]

definition run :: "env \<Rightarrow> harness \<Rightarrow> string \<Rightarrow> (world, termination_reason) eff" where
  "run E h task w =
     (case new_tracker (no_progress_repeat_limit (h_limits h)) of
        Inl e \<Rightarrow> (Inl e, w)
      | Inr t \<Rightarrow>
          (let (t0, w1) = read_mono E w;
               (r, w2) = loop E h task t0
                 \<lparr>ls_c = \<lparr>step = 0, consecutive_failures = 0, invalid_actions = 0, no_progress_hits = 0\<rparr>,
                  ls_feedback = [], ls_steps = [], ls_tracker = t\<rparr> w1
           in (Inr r, w2)))"

end
