(* ===== verification/Run_Contract.thy ===== *)
theory Run_Contract
  imports Harness
begin

text \<open>
  What a run of the loop guarantees to those who start it: why it ended, what its audit log looks
  like and how often it called the model.  The parts of the harness that come from outside the
  loop (dispatcher, approval resolver, final verifier) are asked only not to write the audit log
  and not to call the model themselves: the locale \<open>quiet_parts\<close>, interpreted in theory Service.
\<close>

section \<open>Why a run ended\<close>

definition verified :: "env \<Rightarrow> harness \<Rightarrow> world \<Rightarrow> bool" where
  "verified E h w' \<longleftrightarrow> (\<exists>w1 w2 c. h_verifier h w1 = (Inr True, w2) \<and> w' = audit_term E h c COMPLETED w2)"

definition cancel_seen :: "harness \<Rightarrow> bool" where
  "cancel_seen h \<longleftrightarrow> (\<exists>f n. h_cancel h = Some f \<and> f n)"

definition good_end :: "env \<Rightarrow> harness \<Rightarrow> termination_reason \<Rightarrow> world \<Rightarrow> bool" where
  "good_end E h r w' \<longleftrightarrow> r \<noteq> FINISH_REJECTED \<and> (r = COMPLETED \<longrightarrow> verified E h w') \<and> (r = CANCELLED \<longrightarrow> cancel_seen h) \<and>
     (\<exists>c w1. w' = audit_term E h c r w1)"

lemma good_end_stop: "r \<notin> {FINISH_REJECTED, COMPLETED, CANCELLED} \<Longrightarrow> stop_with E h c r w = (Done r', w') \<Longrightarrow> good_end E h r' w'"
  by (auto simp: good_end_def stop_with_def)

lemma finish_Done: "finish_turn E h ls w = (Inr (Done r), w') \<Longrightarrow> r = COMPLETED \<and> verified E h w'"
  by (auto simp: finish_turn_def andThen_def Let_def stop_with_def verified_def split: sum.splits prod.splits if_splits)

lemma executed_Done: "executed_turn E h a v r ls w = (Inr (Done x), w') \<Longrightarrow> x = COMPLETED \<and> verified E h w'"
  by (auto simp: executed_turn_def Let_def classify_turn_def split: if_splits prod.splits dest: finish_Done)

lemma denied_not_Done [simp]: "denied_turn E h a v r ls w \<noteq> (Done x, w')" "rejected_turn E h a v ls w \<noteq> (Done x, w')"
  "superseded_turn E h a v r ls w \<noteq> (Done x, w')" "invalid_turn E h raw e ls w \<noteq> (Done x, w')"
  by (simp_all add: denied_turn_def rejected_turn_def superseded_turn_def invalid_turn_def Let_def)

lemma approval_Done: "approval_turn E h a v ls w = (Inr (Done x), w') \<Longrightarrow> x = COMPLETED \<and> verified E h w'"
  unfolding approval_turn_def Let_def
  by (elim andThen_InrE) (auto split: if_splits prod.splits elim!: andThen_InrE dest: executed_Done)

lemma governed_Done: "governed_turn E h a v res ls w = (Inr (Done x), w') \<Longrightarrow> x = COMPLETED \<and> verified E h w'"
  by (auto simp: governed_turn_def split: if_splits prod.splits option.splits dest: executed_Done approval_Done)

lemma action_Done: "action_turn E h a ls w = (Inr (Done x), w') \<Longrightarrow> x = COMPLETED \<and> verified E h w'"
  unfolding action_turn_def Let_def by (elim andThen_InrE) (auto split: prod.splits dest!: governed_Done)

lemma verified_good: "verified E h w' \<Longrightarrow> good_end E h COMPLETED w'"
  by (auto simp: good_end_def verified_def)

lemma body_Done:
  assumes "turn_body E h task ls w = (Inr (Done x), w')"
  shows "good_end E h x w'"
  using assms
  by (auto simp: turn_body_def Let_def stop_with_def good_end_def split: prod.splits sum.splits if_splits
      dest!: action_Done dest: verified_good)

lemma turn_Done:
  assumes "turn E h task t0 ls w = (Done x, w')"
  shows "good_end E h x w'"
proof -
  obtain now w1 where m: "read_mono E w = (now, w1)" by fastforce
  obtain b w2 where p: "poll_cancel h w1 = (b, w2)" by fastforce
  show ?thesis
  proof (cases "decide_termination (ls_c ls) (h_limits h) (now - t0)")
    case (Some r)
    with assms m have "stop_with E h (ls_c ls) r w1 = (Done x, w')" by (simp add: turn_def)
    with decide_range [OF Some] show ?thesis by (auto intro: good_end_stop)
  next
    case None
    show ?thesis
    proof (cases b)
      case True
      then have "cancel_seen h" using p by (auto simp: poll_cancel_def cancel_seen_def split: option.splits)
      then show ?thesis using assms m p None True by (auto simp: turn_def stop_with_def good_end_def)
    next
      case False
      obtain y w3 where t: "turn_body E h task ls w2 = (y, w3)" by fastforce
      show ?thesis
      proof (cases y)
        case (Inl e)
        with assms m p None False t have "stop_with E h (ls_c ls) INTERNAL_ERROR w3 = (Done x, w')" by (simp add: turn_def)
        then show ?thesis by (rule good_end_stop [rotated]) simp
      next
        case (Inr z)
        with assms m p None False t have "turn_body E h task ls w2 = (Inr (Done x), w')" by (simp add: turn_def)
        then show ?thesis by (rule body_Done)
      qed
    qed
  qed
qed

lemma loop_good_end: "loop E h task t0 ls w = (r, w') \<Longrightarrow> good_end E h r w'"
proof (induction E h task t0 ls w rule: loop.induct)
  case (1 E h task t0 ls w)
  obtain o1 w1 where t: "turn E h task t0 ls w = (o1, w1)" by fastforce
  show ?case
  proof (cases o1)
    case (Next ls1)
    from 1(2) t Next have "loop E h task t0 ls1 w1 = (r, w')" by (simp add: loop.simps [of E h task t0 ls])
    with 1(1) [OF t [symmetric] Next] show ?thesis by simp
  next
    case (Done x)
    with 1(2) t have "x = r" "w1 = w'" by (simp_all add: loop.simps [of E h task t0 ls])
    with t Done turn_Done show ?thesis by simp
  qed
qed

lemma run_Inr:
  assumes "run E h task w = (Inr r, w')"
  obtains t t0 w1 where "new_tracker (no_progress_repeat_limit (h_limits h)) = Inr t" "read_mono E w = (t0, w1)"
    "loop E h task t0 \<lparr>ls_c = \<lparr>step = 0, consecutive_failures = 0, invalid_actions = 0, no_progress_hits = 0\<rparr>,
                  ls_feedback = [], ls_steps = [], ls_tracker = t\<rparr> w1 = (r, w')"
  using assms by (auto simp: run_def split: sum.splits prod.splits)

section \<open>The audit log of a run\<close>

text \<open>
  The protocol of one turn: the words of events that a completed turn writes, with the decision of
  the governance in its event.
\<close>

inductive turn_trace :: "(event_type \<times> args) list \<Rightarrow> bool" where
  invalid: "turn_trace [(ACTION_PROPOSED, p), (FEEDBACK, feedback_payload ''INVALID_ACTION'' d)]"
| denied: "v_decision v = DENY \<Longrightarrow>
    turn_trace [(ACTION_PROPOSED, p), (GOVERNANCE_DECISION, decision_payload a v), (FEEDBACK, feedback_payload ''POLICY_DENIED'' d)]"
| rejected: "v_decision v = REQUIRE_APPROVAL \<Longrightarrow>
    turn_trace [(ACTION_PROPOSED, p), (GOVERNANCE_DECISION, decision_payload a v), (APPROVAL_DECIDED, decided_payload b ''REJECTED'')]"
| superseded: "v_decision v = REQUIRE_APPROVAL \<Longrightarrow>
    turn_trace [(ACTION_PROPOSED, p), (GOVERNANCE_DECISION, decision_payload a v),
      (APPROVAL_DECIDED, decided_payload b ''SUPERSEDED'' @ q), (FEEDBACK, feedback_payload ''POLICY_DENIED'' d)]"
| executed: "v_decision v = ALLOW \<or> v_decision v = ALLOW_WITH_AUDIT \<Longrightarrow>
    turn_trace [(ACTION_PROPOSED, p), (GOVERNANCE_DECISION, decision_payload a v), (TOOL_EXECUTED, executed_payload a r),
      (FEEDBACK, f)]"
| approved: "v_decision v = REQUIRE_APPROVAL \<Longrightarrow>
    turn_trace [(ACTION_PROPOSED, p), (GOVERNANCE_DECISION, decision_payload a v), (APPROVAL_DECIDED, decided_payload b ''APPROVED''),
      (TOOL_EXECUTED, executed_payload b r), (FEEDBACK, f)]"

definition part_trace :: "(event_type \<times> args) list \<Rightarrow> bool" where
  "part_trace es \<longleftrightarrow> (\<exists>fs. turn_trace (es @ fs))"

definition event_view :: "event_type \<times> args \<Rightarrow> string \<times> string" where
  "event_view ep = (event_str (fst ep), redact (dumps True (JObj (snd ep))) None)"

definition row_view :: "audit_row \<Rightarrow> string \<times> string" where
  "row_view r = (ev_type r, ev_payload_json r)"

text \<open>
  From one world to another exactly these events were appended, the chains stay valid and the other
  tables that a run must not touch are the same.
\<close>

definition kept :: "database \<Rightarrow> database \<Rightarrow> bool" where
  "kept db db' \<longleftrightarrow> tasks db' = tasks db \<and> steps db' = steps db \<and> (events_typed db \<longrightarrow> events_typed db')"

lemma kept_trans: "kept a b \<Longrightarrow> kept b c \<Longrightarrow> kept a c"
  by (simp add: kept_def)

lemma kept_append: "kept db (snd (audit_append H now i st et p db))"
  by (simp add: kept_def events_typed_append) (simp add: audit_append_snd)

definition logged :: "hash \<Rightarrow> string \<Rightarrow> world \<Rightarrow> (event_type \<times> args) list \<Rightarrow> world \<Rightarrow> bool" where
  "logged H i w es w' \<longleftrightarrow> kept (w_db w) (w_db w') \<and> (chain_ok H (w_db w) \<longrightarrow> chain_ok H (w_db w') \<and>
     (\<exists>rs. task_events i (w_db w') = task_events i (w_db w) @ rs \<and> map row_view rs = map event_view es))"

definition quiet :: "world \<Rightarrow> world \<Rightarrow> bool" where
  "quiet w w' \<longleftrightarrow> w_llm w' = w_llm w \<and> audit_events (w_db w') = audit_events (w_db w) \<and> event_seq (w_db w') = event_seq (w_db w) \<and>
     tasks (w_db w') = tasks (w_db w) \<and> steps (w_db w') = steps (w_db w)"

lemma quiet_refl [simp]: "quiet w w"
  by (simp add: quiet_def)

lemma quiet_trans: "quiet w w1 \<Longrightarrow> quiet w1 w2 \<Longrightarrow> quiet w w2"
  by (simp add: quiet_def)

lemma quiet_logged: "quiet w w' \<Longrightarrow> logged H i w [] w'"
  using chain_ok_cong [of "w_db w'" "w_db w" H] by (auto simp: quiet_def logged_def task_events_def kept_def events_typed_def)

lemma logged_trans [trans]: "logged H i w es w1 \<Longrightarrow> logged H i w1 fs w2 \<Longrightarrow> logged H i w (es @ fs) w2"
  unfolding logged_def using kept_trans by fastforce

lemma audit_logged: "logged (e_hash E) (task_id (h_ctx h)) w [(et, p)] (audit E h st et p w)"
  unfolding logged_def audit_def read_now_def
  using log.put_trail [of "e_hash E" "w_db w" "task_id (h_ctx h)" "e_now E (w_ticks w)" st et p]
  by (auto simp: chain_ok_append row_view_def event_view_def kept_append)

lemma audit_llm [simp]: "w_llm (audit E h st et p w) = w_llm w"
  by (simp add: audit_def read_now_def)

lemma read_mono_quiet: "read_mono E w = (t, w') \<Longrightarrow> quiet w w'"
  by (auto simp: read_mono_def quiet_def)

lemma poll_quiet: "poll_cancel h w = (b, w') \<Longrightarrow> quiet w w'"
  by (auto simp: poll_cancel_def quiet_def split: option.splits)

lemma build_quiet: "build E h task ls w = (msgs, w') \<Longrightarrow> quiet w w'"
  by (auto simp: build_def retrieve_memories_def quiet_def read_now_def memory_retrieve_def Let_def split: option.splits prod.splits if_splits)

lemma attempts_effect:
  "complete_attempts n h msgs w = (x, w') \<Longrightarrow> w_db w' = w_db w \<and> w_llm w \<le> w_llm w' \<and> w_llm w' \<le> w_llm w + n"
proof (induction n arbitrary: w)
  case (Suc n)
  obtain y w1 where c: "call_llm h msgs w = (y, w1)" by fastforce
  then have w1: "w_db w1 = w_db w" "w_llm w1 = Suc (w_llm w)" by (auto simp: call_llm_def)
  show ?case
  proof (cases y)
    case (Inl e)
    with Suc.prems c have "complete_attempts n h msgs w1 = (x, w')" by simp
    from Suc.IH [OF this] w1 show ?thesis by simp
  next
    case (Inr t)
    with Suc.prems c w1 show ?thesis by auto
  qed
qed simp

lemma part_traceI: "turn_trace es \<Longrightarrow> prefix fs es \<Longrightarrow> part_trace fs"
  by (auto simp: part_trace_def prefix_def)


definition term_event :: "termination_reason \<Rightarrow> event_type \<times> args" where
  "term_event r = (TERMINATION, [(''reason'', JStr (reason_value r))])"

text \<open>The events of a turn, by its outcome\<close>

fun turn_log :: "outcome res \<Rightarrow> (event_type \<times> args) list \<Rightarrow> bool" where
  "turn_log (Inr (Next _)) es = turn_trace es"
| "turn_log (Inr (Done r)) es = (\<exists>ps. es = ps @ [term_event r] \<and> part_trace ps)"
| "turn_log (Inl _) es = part_trace es"

lemma turn_log_DoneI: "part_trace ps \<Longrightarrow> turn_log (Inr (Done r)) (ps @ [term_event r])"
  by simp

lemma term_logged: "logged (e_hash E) (task_id (h_ctx h)) w [term_event r] (audit_term E h c r w)"
  unfolding term_event_def audit_term_def by (rule audit_logged)

lemma part_trace_Nil: "part_trace []"
  using invalid by (auto simp: part_trace_def)

lemma part_trace_proposed: "part_trace [(ACTION_PROPOSED, p)]"
  using invalid [of p] by (auto simp: part_trace_def)

lemma part_trace_decided: "part_trace [(ACTION_PROPOSED, p), (GOVERNANCE_DECISION, decision_payload a v)]"
  using denied [of v p a] rejected [of v p a] executed [of v p a] by (cases "v_decision v") (auto simp: part_trace_def)

locale quiet_parts =
  fixes E :: env and h :: harness
  assumes dispatch_quiet: "quiet w (snd (dispatch (h_dispatcher h) a (h_ctx h) w))"
    and execute_quiet: "quiet w (snd (execute_approved (e_hash E) (h_dispatcher h) a (h_ctx h) fp w))"
    and verifier_quiet: "quiet w (snd (h_verifier h w))"
    and resolver_quiet: "h_resolver h = Some f \<Longrightarrow> quiet w (snd (f a v w))"
begin

definition lg :: "world \<Rightarrow> (event_type \<times> args) list \<Rightarrow> world \<Rightarrow> bool" where
  "lg = logged (e_hash E) (task_id (h_ctx h))"

lemma lg_quiet: "quiet w w1 \<Longrightarrow> lg w1 es w2 \<Longrightarrow> lg w es w2"
  unfolding lg_def using logged_trans [OF quiet_logged] by fastforce

lemma lg_audit: "lg (audit E h st et p w) es w2 \<Longrightarrow> lg w ((et, p) # es) w2"
  unfolding lg_def using logged_trans [OF audit_logged] by fastforce

lemma lg_one: "lg w [(et, p)] (audit E h st et p w)"
  unfolding lg_def by (rule audit_logged)

lemma lg_term: "lg w [term_event r] (audit_term E h c r w)"
  unfolding lg_def by (rule term_logged)

lemma lg_none: "quiet w w1 \<Longrightarrow> lg w [] w1"
  unfolding lg_def by (rule quiet_logged)

lemma ask_quiet: "quiet w (snd (ask_resolver h a v w))"
  by (auto simp: ask_resolver_def resolver_quiet split: option.splits)

text \<open>The part of a turn from the execution of a tool on, after the events \<open>pre\<close>\<close>

lemma executed_logged:
  assumes pre: "\<And>f. turn_trace (pre @ [(TOOL_EXECUTED, executed_payload a r), (FEEDBACK, f)])"
    and "executed_turn E h a v r ls w = (x, w')"
  shows "\<exists>es. lg w es w' \<and> turn_log x (pre @ es)"
proof -
  let ?te = "(TOOL_EXECUTED, executed_payload a r)"
  let ?w1 = "audit E h (step (ls_c ls)) TOOL_EXECUTED (executed_payload a r) w"
  have part: "part_trace (pre @ [?te])" by (rule part_traceI [OF pre]) (simp add: prefix_def)
  show ?thesis
  proof (cases "tool_name a = ''finish''")
    case True
    obtain y w2 where y: "h_verifier h ?w1 = (y, w2)" by fastforce
    have q: "quiet ?w1 w2" using verifier_quiet [of ?w1] y by simp
    have f: "finish_turn E h ls ?w1 = (x, w')" using assms(2) True by (simp add: executed_turn_def Let_def)
    show ?thesis
    proof (cases y)
      case (Inl e)
      with f y have "x = Inl e" "w' = w2" by (auto simp: finish_turn_def andThen_def)
      moreover have "lg w [?te] w2" by (rule lg_audit [OF lg_none [OF q]])
      ultimately show ?thesis using part by (intro exI [of _ "[?te]"]) simp
    next
      case (Inr ok)
      show ?thesis
      proof (cases ok)
        case True
        with f y Inr have x: "x = Inr (Done COMPLETED)" "w' = audit_term E h (ls_c ls) COMPLETED w2"
          by (auto simp: finish_turn_def andThen_def Let_def stop_with_def)
        have "lg w (?te # [term_event COMPLETED]) w'" unfolding x by (rule lg_audit [OF lg_quiet [OF q lg_term]])
        with part show ?thesis unfolding x by (intro exI [of _ "[?te, term_event COMPLETED]"]) auto
      next
        case False
        let ?p = "feedback_payload ''FINISH_REJECTED'' ''FINISH_REJECTED: final verification failed''"
        have w': "w' = audit E h (step (ls_c ls)) FEEDBACK ?p w2" and x: "\<exists>ls'. x = Inr (Next ls')"
          using f y Inr False by (auto simp: finish_turn_def andThen_def Let_def)
        have "lg w (?te # [(FEEDBACK, ?p)]) w'" unfolding w' by (rule lg_audit [OF lg_quiet [OF q lg_one]])
        with pre x show ?thesis by (intro exI [of _ "[?te, (FEEDBACK, ?p)]"]) auto
      qed
    qed
  next
    case False
    obtain ls' st p where c: "x = Inr (Next ls')" "w' = audit E h st FEEDBACK p ?w1"
      using assms(2) False by (auto simp: executed_turn_def classify_turn_def Let_def split: prod.splits)
    have "lg w (?te # [(FEEDBACK, p)]) w'" unfolding c by (rule lg_audit [OF lg_one])
    with pre c show ?thesis by (intro exI [of _ "[?te, (FEEDBACK, p)]"]) auto
  qed
qed

lemma denied_logged:
  "denied_turn E h a v r ls w = (x, w') \<Longrightarrow>
     \<exists>ls' d. x = Next ls' \<and> lg w [(FEEDBACK, feedback_payload ''POLICY_DENIED'' d)] w'"
  unfolding denied_turn_def Let_def using lg_one by blast

lemma approval_logged:
  assumes "v_decision v = REQUIRE_APPROVAL" and "approval_turn E h a v ls w = (x, w')"
  shows "\<exists>es. lg w es w' \<and> turn_log x ([(ACTION_PROPOSED, p), (GOVERNANCE_DECISION, decision_payload a v)] @ es)"
proof -
  let ?pre = "[(ACTION_PROPOSED, p), (GOVERNANCE_DECISION, decision_payload a v)]"
  let ?st = "step (ls_c ls)"
  obtain y w1 where y: "ask_resolver h a v w = (y, w1)" by fastforce
  have q1: "quiet w w1" using ask_quiet [of w a v] y by simp
  show ?thesis
  proof (cases y)
    case (Inl e)
    with assms(2) y have x: "x = Inl e" "w' = w1" by (auto simp: approval_turn_def andThen_def Let_def)
    show ?thesis unfolding x using lg_none [OF q1] part_trace_decided by (intro exI [of _ "[]"]) simp
  next
    case (Inr ba)
    obtain b a' where ba: "ba = (b, a')" by fastforce
    show ?thesis
    proof (cases b)
      case False
      with assms(2) y Inr ba obtain ls' where x: "x = Inr (Next ls')" "w' = audit E h ?st APPROVAL_DECIDED (decided_payload a' ''REJECTED'') w1"
        by (auto simp: approval_turn_def andThen_def Let_def rejected_turn_def)
      have "lg w [(APPROVAL_DECIDED, decided_payload a' ''REJECTED'')] w'" unfolding x by (rule lg_quiet [OF q1 lg_one])
      with x rejected [OF assms(1)] show ?thesis by (intro exI [of _ "[(APPROVAL_DECIDED, decided_payload a' ''REJECTED'')]"]) simp
    next
      case True
      let ?exec = "execute_approved (e_hash E) (h_dispatcher h) a' (h_ctx h) (Some (fingerprint (e_hash E) a))"
      obtain z w2 where z: "?exec w1 = (z, w2)" by fastforce
      have q2: "quiet w w2" using execute_quiet [of w1 a'] z by (intro quiet_trans [OF q1]) (metis snd_conv)
      show ?thesis
      proof (cases z)
        case (Inl e)
        with assms(2) y Inr ba True z have x: "x = Inl e" "w' = w2" by (auto simp: approval_turn_def andThen_def Let_def)
        show ?thesis unfolding x using lg_none [OF q2] part_trace_decided by (intro exI [of _ "[]"]) simp
      next
        case res: (Inr r)
        show ?thesis
        proof (cases "is_superseded r")
          case sup: True
          let ?q = "decided_payload a' ''SUPERSEDED'' @ [(''detail'', JStr (r_summary r))]"
          obtain x1 where x1: "denied_turn E h a' v r ls (audit E h ?st APPROVAL_DECIDED ?q w2) = (x1, w')" "x = Inr x1"
            using assms(2) y Inr ba True z res sup
            by (auto simp: approval_turn_def andThen_def Let_def superseded_turn_def split: prod.splits)
          from denied_logged [OF x1(1)] obtain ls' d where d: "x1 = Next ls'"
            "lg (audit E h ?st APPROVAL_DECIDED ?q w2) [(FEEDBACK, feedback_payload ''POLICY_DENIED'' d)] w'" by blast
          have "lg w [(APPROVAL_DECIDED, ?q), (FEEDBACK, feedback_payload ''POLICY_DENIED'' d)] w'"
            by (rule lg_quiet [OF q2 lg_audit [OF d(2)]])
          with x1(2) d(1) superseded [OF assms(1)] show ?thesis
            by (intro exI [of _ "[(APPROVAL_DECIDED, ?q), (FEEDBACK, feedback_payload ''POLICY_DENIED'' d)]"]) simp
        next
          case False
          let ?ok = "(APPROVAL_DECIDED, decided_payload a' ''APPROVED'')"
          have ex: "executed_turn E h a' v r ls (audit E h ?st APPROVAL_DECIDED (decided_payload a' ''APPROVED'') w2) = (x, w')"
            using assms(2) y Inr ba True z res False by (auto simp: approval_turn_def andThen_def Let_def)
          have "turn_trace ((?pre @ [?ok]) @ [(TOOL_EXECUTED, executed_payload a' r), (FEEDBACK, f)])" for f
            using approved [OF assms(1), of p a a' r f] by simp
          from executed_logged [OF this ex] obtain es where es: "lg (audit E h ?st APPROVAL_DECIDED (decided_payload a' ''APPROVED'') w2) es w'"
            "turn_log x ((?pre @ [?ok]) @ es)" by blast
          have "lg w (?ok # es) w'" by (rule lg_quiet [OF q2 lg_audit [OF es(1)]])
          with es(2) show ?thesis by (intro exI [of _ "?ok # es"]) simp
        qed
      qed
    qed
  qed
qed

lemma action_logged:
  assumes "action_turn E h a ls w = (x, w')"
  shows "\<exists>es. lg w es w' \<and> turn_log x es"
proof -
  let ?ls = "ls\<lparr>ls_c := (ls_c ls)\<lparr>invalid_actions := 0\<rparr>\<rparr>"
  let ?st = "step (ls_c ls)"
  let ?p = "[(''tool'', JStr (tool_name a)), (''arguments'', JObj (arguments a))]"
  let ?w1 = "audit E h ?st ACTION_PROPOSED ?p w"
  obtain y w2 where y: "dispatch (h_dispatcher h) a (h_ctx h) ?w1 = (y, w2)" by fastforce
  have q: "quiet ?w1 w2" using dispatch_quiet [of ?w1 a] y by simp
  show ?thesis
  proof (cases y)
    case (Inl e)
    with assms y have x: "x = Inl e" "w' = w2" by (auto simp: action_turn_def andThen_def Let_def)
    have "lg w [(ACTION_PROPOSED, ?p)] w2" by (rule lg_audit [OF lg_none [OF q]])
    with x part_trace_proposed show ?thesis by (intro exI [of _ "[(ACTION_PROPOSED, ?p)]"]) simp
  next
    case (Inr vr)
    obtain v res where vr: "vr = (v, res)" by fastforce
    let ?w3 = "audit E h ?st GOVERNANCE_DECISION (decision_payload a v) w2"
    let ?pre = "[(ACTION_PROPOSED, ?p), (GOVERNANCE_DECISION, decision_payload a v)]"
    have start: "lg w (?pre @ es) w'" if "lg ?w3 es w'" for es
      using lg_audit [OF lg_quiet [OF q lg_audit [OF that]]] by simp
    have rest: "governed_turn E h a v res ?ls ?w3 = (x, w')"
      using assms y Inr vr by (simp add: action_turn_def andThen_def Let_def)
    show ?thesis
    proof (cases "v_decision v = REQUIRE_APPROVAL")
      case True
      with rest have "approval_turn E h a v ?ls ?w3 = (x, w')" by (simp add: governed_turn_def)
      from approval_logged [OF True this, of ?p] obtain es where "lg ?w3 es w'" "turn_log x (?pre @ es)" by blast
      with start show ?thesis by blast
    next
      case False
      show ?thesis
      proof (cases res)
        case None
        with rest False have x: "x = Inl assertion_error" "w' = ?w3" by (simp_all add: governed_turn_def)
        have "lg ?w3 [] w'" unfolding x by (rule lg_none) simp
        from start [OF this] x(1) part_trace_decided show ?thesis by (intro exI [of _ ?pre]) simp
      next
        case (Some r)
        show ?thesis
        proof (cases "v_decision v = DENY")
          case True
          then obtain x1 where x1: "denied_turn E h a v r ?ls ?w3 = (x1, w')" "x = Inr x1"
            using rest Some False by (auto simp: governed_turn_def split: prod.splits)
          from denied_logged [OF x1(1)] obtain ls' d where "x1 = Next ls'"
            "lg ?w3 [(FEEDBACK, feedback_payload ''POLICY_DENIED'' d)] w'" by blast
          with start x1(2) denied [OF True, of ?p a d] show ?thesis
            by (intro exI [of _ "?pre @ [(FEEDBACK, feedback_payload ''POLICY_DENIED'' d)]"]) simp
        next
          case runs: False
          with rest False Some have ex: "executed_turn E h a v r ?ls ?w3 = (x, w')" by (simp add: governed_turn_def)
          have "v_decision v = ALLOW \<or> v_decision v = ALLOW_WITH_AUDIT" using False runs by (cases "v_decision v") auto
          then have "turn_trace (?pre @ [(TOOL_EXECUTED, executed_payload a r), (FEEDBACK, f)])" for f
            using executed [of v ?p a r f] by simp
          from executed_logged [OF this ex] start show ?thesis by blast
        qed
      qed
    qed
  qed
qed

lemma body_logged:
  assumes "turn_body E h task ls w = (x, w')"
  shows "\<exists>es. lg w es w' \<and> turn_log x es"
proof -
  obtain msgs w1 where b: "build E h task ls w = (msgs, w1)" by fastforce
  obtain y w2 where y: "complete_with_retry h msgs w1 = (y, w2)" by fastforce
  have same: "w_db w2 = w_db w1" using attempts_effect y by (simp add: complete_with_retry_def)
  have q: "lg w es w3" if "lg w2 es w3" for es w3
  proof (rule lg_quiet [OF build_quiet [OF b]])
    show "lg w1 es w3" using that unfolding lg_def logged_def same .
  qed
  show ?thesis
  proof (cases y)
    case (Inl e)
    with assms b y have x: "x = Inr (Done LLM_ERROR)" "w' = audit_term E h (ls_c ls) LLM_ERROR w2"
      by (auto simp: turn_body_def stop_with_def)
    have "lg w [term_event LLM_ERROR] w'" unfolding x by (rule q [OF lg_term])
    with x part_trace_Nil show ?thesis by (intro exI [of _ "[term_event LLM_ERROR]"]) simp
  next
    case (Inr raw)
    show ?thesis
    proof (cases "parse_action (e_diag E) raw")
      case parsed: (Inr a)
      with assms b y Inr have "action_turn E h a ls w2 = (x, w')" by (simp add: turn_body_def)
      with action_logged q show ?thesis by blast
    next
      case (Inl e)
      show ?thesis
      proof (cases "exn_class e = ''ActionParseError''")
        case False
        with assms b y Inr Inl have x: "x = Inl e" "w' = w2" by (simp_all add: turn_body_def)
        have "lg w [] w'" unfolding x by (rule q [OF lg_none]) simp
        with x part_trace_Nil show ?thesis by (intro exI [of _ "[]"]) simp
      next
        case True
        let ?p = "[(''raw'', JStr raw), (''error'', JStr (exn_msg e))]"
        let ?f = "feedback_payload ''INVALID_ACTION'' (''PARSE_ERROR: '' @ exn_msg e)"
        have w': "w' = audit E h (step (ls_c ls)) FEEDBACK ?f (audit E h (step (ls_c ls)) ACTION_PROPOSED ?p w2)"
          and x: "\<exists>ls'. x = Inr (Next ls')"
          using assms b y Inr Inl True by (auto simp: turn_body_def invalid_turn_def Let_def)
        have "lg w [(ACTION_PROPOSED, ?p), (FEEDBACK, ?f)] w'" unfolding w' by (rule q [OF lg_audit [OF lg_one]])
        with x invalid [of ?p] show ?thesis by (intro exI [of _ "[(ACTION_PROPOSED, ?p), (FEEDBACK, ?f)]"]) auto
      qed
    qed
  qed
qed

lemma turn_logged:
  assumes "turn E h task t0 ls w = (x, w')"
  shows "\<exists>es. lg w es w' \<and> turn_log (Inr x) es"
proof -
  obtain now w1 where m: "read_mono E w = (now, w1)" by fastforce
  obtain b w2 where p: "poll_cancel h w1 = (b, w2)" by fastforce
  have q1: "quiet w w1" by (rule read_mono_quiet [OF m])
  have q2: "quiet w w2" by (rule quiet_trans [OF q1 poll_quiet [OF p]])
  have stop: "\<exists>es. lg w es w' \<and> turn_log (Inr x) es" if "stop_with E h c r w3 = (x, w')" "lg w ps w3" "part_trace ps" for c r w3 ps
  proof -
    have x: "x = Done r" "w' = audit_term E h c r w3" using that(1) by (auto simp: stop_with_def)
    have "lg w (ps @ [term_event r]) w'" unfolding x using that(2) lg_term logged_trans unfolding lg_def by blast
    with that(3) x show ?thesis by auto
  qed
  show ?thesis
  proof (cases "decide_termination (ls_c ls) (h_limits h) (now - t0)")
    case (Some r)
    with assms m have "stop_with E h (ls_c ls) r w1 = (x, w')" by (simp add: turn_def)
    from stop [OF this lg_none [OF q1] part_trace_Nil] show ?thesis .
  next
    case None
    show ?thesis
    proof (cases b)
      case True
      with assms m p None have "stop_with E h (ls_c ls) CANCELLED w2 = (x, w')" by (simp add: turn_def)
      from stop [OF this lg_none [OF q2] part_trace_Nil] show ?thesis .
    next
      case False
      obtain y w3 where t: "turn_body E h task ls w2 = (y, w3)" by fastforce
      from body_logged [OF t] obtain es where es: "lg w es w3" "turn_log y es" using lg_quiet [OF q2] by blast
      show ?thesis
      proof (cases y)
        case (Inl e)
        with assms m p None False t have "stop_with E h (ls_c ls) INTERNAL_ERROR w3 = (x, w')" by (simp add: turn_def)
        from stop [OF this es(1)] es(2) Inl show ?thesis by simp
      next
        case (Inr z)
        with assms m p None False t have "z = x" "w3 = w'" by (simp_all add: turn_def)
        with es Inr show ?thesis by blast
      qed
    qed
  qed
qed

end

lemma loop_fixed_induct [case_names turn]:
  assumes "\<And>ls w. (\<And>ls1 w1. turn E h task t0 ls w = (Next ls1, w1) \<Longrightarrow> P ls1 w1) \<Longrightarrow> P ls w"
  shows "P ls w"
  using assms
proof (induction E h task t0 ls w rule: loop.induct)
  case (1 E h task t0 ls w)
  show ?case
  proof (rule 1(2))
    fix ls1 w1 assume "turn E h task t0 ls w = (Next ls1, w1)"
    from 1(1) [OF this [symmetric] refl 1(2)] show "P ls1 w1" .
  qed
qed

lemma budget_step: "i < R \<Longrightarrow> Suc (S * R) \<le> Suc S * R - i" "i < R \<Longrightarrow> Suc (Suc S * R - Suc i) \<le> Suc S * R - i"
  "i < R \<Longrightarrow> 0 < Suc S * R - i" for i R S :: nat
  by auto

section \<open>How long a run takes\<close>

text \<open>How many turns are left: \<open>R\<close> for every step that is left, less the invalid actions so far\<close>

definition budget :: "harness \<Rightarrow> loop_state \<Rightarrow> nat" where
  "budget h ls = (let S = nat (max_steps (h_limits h) - step (ls_c ls)); R = nat (action_retry_limit (h_limits h))
     in S * R - nat (invalid_actions (ls_c ls)))"

lemma budget_Next:
  assumes "turn E h task t0 ls w = (Next ls', w')" and "0 \<le> invalid_actions (ls_c ls)"
  shows "Suc (budget h ls') \<le> budget h ls" and "0 \<le> invalid_actions (ls_c ls')"
proof -
  let ?S = "nat (max_steps (h_limits h) - step (ls_c ls))" and ?R = "nat (action_retry_limit (h_limits h))"
    and ?i = "nat (invalid_actions (ls_c ls))"
  have t: "advances ls ls'" "step (ls_c ls) < max_steps (h_limits h)" "invalid_actions (ls_c ls) < action_retry_limit (h_limits h)"
    using turn_Next [OF assms(1)] by auto
  then obtain S' where S': "?S = Suc S'" by (metis Suc_pred' zero_less_diff zero_less_nat_eq diff_gt_0_iff_gt)
  have iR: "?i < ?R" using t(3) assms(2) by simp
  show "0 \<le> invalid_actions (ls_c ls')" using t(1) assms(2) by (auto simp: advances_def)
  from t(1) consider "step (ls_c ls') = step (ls_c ls) + 1" "invalid_actions (ls_c ls') = 0"
    | "step (ls_c ls') = step (ls_c ls)" "invalid_actions (ls_c ls') = invalid_actions (ls_c ls) + 1"
    unfolding advances_def by blast
  then show "Suc (budget h ls') \<le> budget h ls"
  proof cases
    case 1
    then have "nat (max_steps (h_limits h) - step (ls_c ls')) = S'" using S' by simp
    with 1 S' budget_step(1) [OF iR, of S'] show ?thesis by (simp add: budget_def Let_def del: mult_Suc)
  next
    case 2
    then have "nat (invalid_actions (ls_c ls')) = Suc ?i" using assms(2) by simp
    with 2 S' budget_step(2) [OF iR, of S'] show ?thesis by (simp add: budget_def Let_def del: mult_Suc)
  qed
qed

lemma budget_pos:
  assumes "decide_termination (ls_c ls) (h_limits h) e = None" and "0 \<le> invalid_actions (ls_c ls)"
  shows "0 < budget h ls"
proof -
  have "step (ls_c ls) < max_steps (h_limits h)" "invalid_actions (ls_c ls) < action_retry_limit (h_limits h)"
    using assms(1) by (simp_all add: decide_None)
  then obtain S' where "nat (max_steps (h_limits h) - step (ls_c ls)) = Suc S'"
    "nat (invalid_actions (ls_c ls)) < nat (action_retry_limit (h_limits h))"
    using assms(2) by (metis Suc_pred' diff_gt_0_iff_gt nat_less_eq_zless zero_less_nat_eq)
  then show ?thesis using budget_step(3) by (simp add: budget_def Let_def del: mult_Suc)
qed

text \<open>The loop with a bound on the number of turns\<close>

fun turns :: "nat \<Rightarrow> env \<Rightarrow> harness \<Rightarrow> string \<Rightarrow> int \<Rightarrow> loop_state \<Rightarrow> world \<Rightarrow> (termination_reason \<times> world) option" where
  "turns 0 E h task t0 ls w = None"
| "turns (Suc n) E h task t0 ls w =
     (case turn E h task t0 ls w of
        (Done r, w1) \<Rightarrow> Some (r, w1)
      | (Next ls1, w1) \<Rightarrow> turns n E h task t0 ls1 w1)"

lemma turns_loop:
  assumes "budget h ls < n" and "0 \<le> invalid_actions (ls_c ls)"
  shows "turns n E h task t0 ls w = Some (loop E h task t0 ls w)"
  using assms
proof (induction n arbitrary: ls w)
  case (Suc n)
  obtain o1 w1 where t: "turn E h task t0 ls w = (o1, w1)" by fastforce
  show ?case
  proof (cases o1)
    case (Next ls1)
    with t budget_Next [of E h task t0 ls w ls1 w1] Suc.prems have "budget h ls1 < n" "0 \<le> invalid_actions (ls_c ls1)" by auto
    from Suc.IH [OF this, of w1] t Next show ?thesis by (simp add: loop.simps [of E h task t0 ls])
  qed (use t in \<open>simp add: loop.simps [of E h task t0 ls]\<close>)
qed simp

definition first_state :: "harness \<Rightarrow> loop_state" where
  "first_state h = \<lparr>ls_c = \<lparr>step = 0, consecutive_failures = 0, invalid_actions = 0, no_progress_hits = 0\<rparr>,
     ls_feedback = [], ls_steps = [], ls_tracker = \<lparr>window = nat (no_progress_repeat_limit (h_limits h)), recent = []\<rparr>\<rparr>"

lemma run_turns:
  assumes "0 \<le> no_progress_repeat_limit (h_limits h)"
    and "nat (max_steps (h_limits h)) * nat (action_retry_limit (h_limits h)) < n"
  obtains r w' where "run E h task w = (Inr r, w')"
    "turns n E h task (e_mono E (w_ticks w)) (first_state h) (w\<lparr>w_ticks := Suc (w_ticks w)\<rparr>) = Some (r, w')"
proof -
  obtain r w' where l: "loop E h task (e_mono E (w_ticks w)) (first_state h) (w\<lparr>w_ticks := Suc (w_ticks w)\<rparr>) = (r, w')" by fastforce
  have "budget h (first_state h) < n" "0 \<le> invalid_actions (ls_c (first_state h))"
    using assms(2) by (simp_all add: first_state_def budget_def)
  from turns_loop [OF this, of E task "e_mono E (w_ticks w)" "w\<lparr>w_ticks := Suc (w_ticks w)\<rparr>"] l assms(1)
  show thesis by (intro that [of r w']) (simp_all add: run_def new_tracker_def read_mono_def first_state_def)
qed

context quiet_parts begin

lemma loop_logged:
  "loop E h task t0 ls w = (r, w') \<Longrightarrow>
     \<exists>ts ps. lg w (concat ts @ ps @ [term_event r]) w' \<and> list_all turn_trace ts \<and> part_trace ps"
proof (induction ls w rule: loop_fixed_induct [where E = E and h = h and task = task and ?t0.0 = t0])
  case (turn ls w)
  obtain o1 w1 where t: "turn E h task t0 ls w = (o1, w1)" by fastforce
  from turn_logged [OF t] obtain es where es: "lg w es w1" "turn_log (Inr o1) es" by blast
  show ?case
  proof (cases o1)
    case (Next ls1)
    with turn(2) t have "loop E h task t0 ls1 w1 = (r, w')" by (simp add: loop.simps [of E h task t0 ls])
    from turn(1) [OF t [unfolded Next] this] obtain ts ps where
      "lg w1 (concat ts @ ps @ [term_event r]) w'" "list_all turn_trace ts" "part_trace ps" by blast
    moreover from this(1) es(1) have "lg w (es @ concat ts @ ps @ [term_event r]) w'"
      unfolding lg_def by (rule logged_trans [rotated])
    ultimately show ?thesis using es(2) Next by (intro exI [of _ "es # ts"] exI [of _ ps]) simp
  next
    case (Done x)
    with turn(2) t have "x = r" "w1 = w'" by (simp_all add: loop.simps [of E h task t0 ls])
    with es Done obtain ps where "es = ps @ [term_event r]" "part_trace ps" by auto
    with es \<open>w1 = w'\<close> show ?thesis by (intro exI [of _ "[]"] exI [of _ ps]) simp
  qed
qed

lemma run_logged:
  assumes "run E h task w = (Inr r, w')"
  shows "\<exists>ts ps. lg w (concat ts @ ps @ [term_event r]) w' \<and> list_all turn_trace ts \<and> part_trace ps"
  using assms
proof (rule run_Inr)
  fix t t0 w1
  assume r: "read_mono E w = (t0, w1)"
    and l: "loop E h task t0 \<lparr>ls_c = \<lparr>step = 0, consecutive_failures = 0, invalid_actions = 0, no_progress_hits = 0\<rparr>,
                  ls_feedback = [], ls_steps = [], ls_tracker = t\<rparr> w1 = (r, w')"
  from loop_logged [OF l] lg_quiet [OF read_mono_quiet [OF r]] show ?thesis by blast
qed

subsection \<open>Calls of the model\<close>

definition retries :: nat where
  "retries = nat (llm_max_retries (h_limits h))"

lemma action_llm: "action_turn E h a ls w = (x, w') \<Longrightarrow> w_llm w' = w_llm w"
proof -
  have ver: "w_llm (snd (h_verifier h u)) = w_llm u" for u using verifier_quiet [of u] by (simp add: quiet_def)
  have ex: "w_llm (snd (executed_turn E h a v r ls u)) = w_llm u" for a v r ls u
    using ver [of "audit E h (step (ls_c ls)) TOOL_EXECUTED (executed_payload a r) u"]
    by (auto simp: executed_turn_def finish_turn_def andThen_def Let_def stop_with_def audit_term_def classify_turn_def
        split: prod.splits sum.splits)
  have den: "w_llm (snd (denied_turn E h a v r ls u)) = w_llm u" for a v r ls u
    by (simp add: denied_turn_def Let_def)
  have ap: "w_llm (snd (approval_turn E h a v ls u)) = w_llm u" for a v ls u
  proof -
    obtain y u1 where y: "ask_resolver h a v u = (y, u1)" by fastforce
    have q1: "w_llm u1 = w_llm u" using ask_quiet [of u a v] y by (simp add: quiet_def)
    show ?thesis
    proof (cases y)
      case (Inl e)
      with y q1 show ?thesis by (simp add: approval_turn_def andThen_def Let_def)
    next
      case (Inr ba)
      obtain b a' where ba: "ba = (b, a')" by fastforce
      obtain z u2 where z: "execute_approved (e_hash E) (h_dispatcher h) a' (h_ctx h) (Some (fingerprint (e_hash E) a)) u1 = (z, u2)"
        by fastforce
      have q2: "w_llm u2 = w_llm u1"
        using execute_quiet [of u1 a' "Some (fingerprint (e_hash E) a)"] z by (simp add: quiet_def)
      have "w_llm (snd (approval_turn E h a v ls u)) =
          w_llm (if b then (case z of Inl _ \<Rightarrow> u2 | Inr r \<Rightarrow> u2) else u1)"
        using y Inr ba z ex den
        by (auto simp: approval_turn_def andThen_def Let_def superseded_turn_def rejected_turn_def split: prod.splits sum.splits)
          (metis audit_llm snd_conv)+
      then show ?thesis using q1 q2 by (auto split: sum.splits)
    qed
  qed
  have gov: "w_llm (snd (governed_turn E h a v res ls u)) = w_llm u" for v res ls u
  proof (cases "v_decision v = REQUIRE_APPROVAL")
    case False
    show ?thesis
    proof (cases res)
      case (Some r)
      with False ex [of a v r ls u] den [of a v r ls u] show ?thesis
        by (cases "denied_turn E h a v r ls u") (simp add: governed_turn_def)
    qed (simp add: governed_turn_def False)
  qed (simp add: governed_turn_def ap)
  assume t: "action_turn E h a ls w = (x, w')"
  let ?w1 = "audit E h (step (ls_c ls)) ACTION_PROPOSED [(''tool'', JStr (tool_name a)), (''arguments'', JObj (arguments a))] w"
  obtain y w2 where y: "dispatch (h_dispatcher h) a (h_ctx h) ?w1 = (y, w2)" by fastforce
  have "w_llm w2 = w_llm w" using dispatch_quiet [of ?w1 a] y by (simp add: quiet_def)
  with t y gov show ?thesis
    by (cases y) (auto simp: action_turn_def andThen_def Let_def split: prod.splits, metis audit_llm snd_conv)
qed

lemma turn_llm:
  assumes "turn E h task t0 ls w = (x, w')"
  shows "w_llm w' \<le> w_llm w + (if decide_termination (ls_c ls) (h_limits h) (e_mono E (w_ticks w) - t0) = None then retries else 0)"
proof -
  obtain b w2 where p: "poll_cancel h (w\<lparr>w_ticks := Suc (w_ticks w)\<rparr>) = (b, w2)" by fastforce
  have w2: "w_llm w2 = w_llm w" using poll_quiet [OF p] by (simp add: quiet_def)
  have body: "w_llm w3 \<le> w_llm w2 + retries" if tb: "turn_body E h task ls w2 = (y, w3)" for y w3
  proof -
    obtain msgs u1 where bl: "build E h task ls w2 = (msgs, u1)" by fastforce
    obtain z u2 where z: "complete_with_retry h msgs u1 = (z, u2)" by fastforce
    have "w_llm u2 \<le> w_llm w2 + retries"
      using attempts_effect [OF z [unfolded complete_with_retry_def]] build_quiet [OF bl] by (simp add: quiet_def retries_def)
    moreover have "w_llm w3 = w_llm u2"
      using tb bl z action_llm
      by (auto simp: turn_body_def stop_with_def audit_term_def invalid_turn_def Let_def split: sum.splits if_splits)
    ultimately show ?thesis by simp
  qed
  show ?thesis
    using assms p w2 body
    by (auto simp: turn_def read_mono_def stop_with_def audit_term_def Let_def split: option.splits if_splits prod.splits sum.splits)
qed

lemma loop_llm:
  "loop E h task t0 ls w = (r, w') \<Longrightarrow> 0 \<le> invalid_actions (ls_c ls) \<Longrightarrow> w_llm w' \<le> w_llm w + retries * budget h ls"
proof (induction ls w rule: loop_fixed_induct [where E = E and h = h and task = task and ?t0.0 = t0])
  case (turn ls w)
  obtain o1 w1 where t: "turn E h task t0 ls w = (o1, w1)" by fastforce
  have l: "w_llm w1 \<le> w_llm w + retries * (if budget h ls = 0 then 0 else 1)"
    using turn_llm [OF t] budget_pos [OF _ turn(3), of h "e_mono E (w_ticks w) - t0"] by (auto split: if_splits)
  show ?case
  proof (cases o1)
    case (Next ls1)
    with turn(2) t have r: "loop E h task t0 ls1 w1 = (r, w')" by (simp add: loop.simps [of E h task t0 ls])
    have b: "Suc (budget h ls1) \<le> budget h ls" "0 \<le> invalid_actions (ls_c ls1)"
      using budget_Next [OF t [unfolded Next] turn(3)] by simp_all
    from turn(1) [OF t [unfolded Next] r b(2)] have "w_llm w' \<le> w_llm w1 + retries * budget h ls1" .
    also have "\<dots> \<le> w_llm w + retries * Suc (budget h ls1)" using l b(1) by (auto split: if_splits)
    also have "\<dots> \<le> w_llm w + retries * budget h ls" using b(1) by (intro add_left_mono mult_le_mono2)
    finally show ?thesis .
  next
    case (Done x)
    with turn(2) t have "w1 = w'" by (simp add: loop.simps [of E h task t0 ls])
    have "retries * (if budget h ls = 0 then 0 else 1) \<le> retries * budget h ls" by (intro mult_le_mono2) simp
    from order_trans [OF l add_left_mono [OF this]] \<open>w1 = w'\<close> show ?thesis by simp
  qed
qed

lemma run_llm:
  assumes "run E h task w = (Inr r, w')"
  shows "w_llm w' \<le> w_llm w + retries * (nat (max_steps (h_limits h)) * nat (action_retry_limit (h_limits h)))"
  using assms
proof (rule run_Inr)
  fix t t0 w1
  assume m: "read_mono E w = (t0, w1)"
    and l: "loop E h task t0 \<lparr>ls_c = \<lparr>step = 0, consecutive_failures = 0, invalid_actions = 0, no_progress_hits = 0\<rparr>,
                  ls_feedback = [], ls_steps = [], ls_tracker = t\<rparr> w1 = (r, w')"
  have "w_llm w1 = w_llm w" using read_mono_quiet [OF m] by (simp add: quiet_def)
  with loop_llm [OF l] show ?thesis by (simp add: budget_def)
qed

end

end
