(* ===== verification/Service.thy ===== *)
theory Service
  imports Run_Contract
begin

text \<open>
  The application service with its wiring (src/aegiscode/service/app_service.py, assembly.py) and
  the scripted model (llm/mock.py).  This theory holds the synchronous service: a task is validated,
  recorded, run on the calling thread and its outcome is recorded.  The asynchronous approval
  protocol is in theory Async_Approval.  Texts are valid UTF-8.
\<close>

section \<open>The workspace of a task\<close>

definition workspace_error :: "string \<Rightarrow> exn" where
  "workspace_error m = exc ''WorkspaceNotAllowedError'' m"

definition validate_workspace :: "fs \<Rightarrow> path \<Rightarrow> string \<Rightarrow> string \<Rightarrow> unit res" where
  "validate_workspace fs cwd ws_dir base =
     (if ws_dir = [] then Inl (workspace_error ''workspace must be a non-empty string'')
      else res_bind (os_realpath fs cwd base) (\<lambda>base_real.
           res_bind (os_realpath fs cwd ws_dir) (\<lambda>ws_real.
             case commonpath2 ws_real base_real of
               Inr common \<Rightarrow>
                 if common \<noteq> base_real
                 then Inl (workspace_error (''workspace '' @ py_repr ws_dir @ '' is outside the allowed base''))
                 else Inr ()
             | Inl _ \<Rightarrow> Inl (workspace_error (''workspace '' @ py_repr ws_dir @ '' is outside the allowed base'')))))"

definition workspace_hash :: "hash \<Rightarrow> string \<Rightarrow> string" where
  "workspace_hash H ws_dir = take 16 (H ws_dir)"

definition base_of :: "aegis_config \<Rightarrow> string" where
  "base_of config =
     (case allowed_base (workspace config) of
        None \<Rightarrow> ws_root (workspace config)
      | Some b \<Rightarrow> if b = [] then ws_root (workspace config) else b)"

definition termination_to_state :: "termination_reason \<Rightarrow> string" where
  "termination_to_state r =
     (if r = COMPLETED then ''COMPLETED'' else if r = CANCELLED then ''CANCELLED'' else ''FAILED'')"

section \<open>Assembly\<close>

text \<open>
  The scripted model: call number \<open>n\<close> of the world is call \<open>n - base\<close> of this model, which answers
  with the script until it is used up.
\<close>

definition exhausted_error :: exn where
  "exhausted_error = exc ''MockExhaustedError'' ''no scripted responses left''"

record mock_state =
  queue :: "string list"
  received_messages :: "message list list"

definition mock_complete :: "message list \<Rightarrow> (mock_state, string) eff" where
  "mock_complete msgs m =
     (let m1 = m\<lparr>received_messages := received_messages m @ [msgs]\<rparr> in
      case queue m1 of
        [] \<Rightarrow> (Inl exhausted_error, m1)
      | r # rs \<Rightarrow> (Inr r, m1\<lparr>queue := rs\<rparr>))"

definition mock_llm :: "nat \<Rightarrow> string list \<Rightarrow> nat \<Rightarrow> message list \<Rightarrow> string res" where
  "mock_llm base script n msgs =
     (let i = n - base in if i < length script then Inr (script ! i) else Inl exhausted_error)"

text \<open>The final verifier runs the test command again; it accepts exit code zero only.\<close>

definition is_run_error :: "exn \<Rightarrow> bool" where
  "is_run_error e \<longleftrightarrow> is_os_error e \<or> exn_class e \<in> {''SubprocessError'', ''CalledProcessError'', ''TimeoutExpired''}"

definition final_verifier :: "env \<Rightarrow> aegis_config \<Rightarrow> string \<Rightarrow> (world, bool) eff" where
  "final_verifier E config ws_dir =
     andThen (lift_res (shlex_split (test_command (feedback config)))) (\<lambda>argv w.
       let (r, w1) = run_process (e_os E) argv ws_dir (command_timeout_sec (limits_of config)) w in
       (case r of
          Exited so se rc \<Rightarrow> (Inr (rc = 0), w1)
        | TimedOut \<Rightarrow> (Inr False, w1)
        | ProcRaised e \<Rightarrow> if is_run_error e then (Inr False, w1) else (Inl e, w1)))"

definition harness_factory ::
  "env \<Rightarrow> aegis_config \<Rightarrow> (nat \<Rightarrow> message list \<Rightarrow> string res) \<Rightarrow> string \<Rightarrow> string \<Rightarrow>
   (action \<Rightarrow> verdict \<Rightarrow> (world, bool \<times> action) eff) option \<Rightarrow> (nat \<Rightarrow> bool) option \<Rightarrow> harness" where
  "harness_factory E config model i ws_dir resolver cancel =
     (let reg = build_registry (e_os E) config in
      \<lparr>h_llm = model, h_dispatcher = build_dispatcher config reg, h_config = config,
       h_ctx = \<lparr>task_id = i, workspace_root = ws_dir, write_max_bytes = cfg_write_max_bytes (tools config)\<rparr>,
       h_verifier = final_verifier E config ws_dir, h_resolver = resolver, h_cancel = cancel,
       h_memory = True, h_project = Some (workspace_hash (e_hash E) ws_dir), h_prompt = Some reg\<rparr>)"

section \<open>The synchronous service\<close>

text \<open>
  \<open>s_decide\<close> answers an approval at once; \<open>s_cancelled\<close> tells whether another thread had cancelled the
  task before a poll of its flag.
\<close>

record service =
  s_env :: env
  s_config :: aegis_config
  s_model :: "nat \<Rightarrow> message list \<Rightarrow> string res"
  s_decide :: "(string \<Rightarrow> bool res) option"
  s_cancelled :: "string \<Rightarrow> nat \<Rightarrow> bool"

definition read_uuid :: "env \<Rightarrow> world \<Rightarrow> string \<times> world" where
  "read_uuid E w = (e_uuid E (w_uuids w), w\<lparr>w_uuids := Suc (w_uuids w)\<rparr>)"

text \<open>A repository call that takes a fresh identifier and the time\<close>

definition on_db :: "(database, 'a) eff \<Rightarrow> (world, 'a) eff" where
  "on_db f w = (case f (w_db w) of (r, db) \<Rightarrow> (r, w\<lparr>w_db := db\<rparr>))"

definition snapshot_json :: "action \<Rightarrow> json" where
  "snapshot_json a = JObj [(''tool'', JStr (tool_name a)), (''arguments'', JObj (arguments a))]"

definition insert_request :: "env \<Rightarrow> string \<Rightarrow> action \<Rightarrow> verdict \<Rightarrow> string \<Rightarrow> (world, string) eff" where
  "insert_request E i a v uid w =
     (let (now, w1) = read_now E w
      in on_db (approval_insert uid now i (latest_action_step_index i (w_db w)) (snapshot_json a)
           (fingerprint (e_hash E) a) (decision_value (v_decision v)) (rule_id v) (v_reason v) (v_reason v)) w1)"

definition set_request_state :: "env \<Rightarrow> string \<Rightarrow> string \<Rightarrow> string \<Rightarrow> world \<Rightarrow> world" where
  "set_request_state E uid state by_whom w =
     (let (now, w1) = read_now E w in w1\<lparr>w_db := approval_update_state now uid state by_whom (w_db w1)\<rparr>)"

definition state_of_decision :: "bool \<Rightarrow> string" where
  "state_of_decision approved = (if approved then ''APPROVED'' else ''REJECTED'')"

definition sync_resolver :: "service \<Rightarrow> string \<Rightarrow> action \<Rightarrow> verdict \<Rightarrow> (world, bool \<times> action) eff" where
  "sync_resolver S i a v w =
     (let E = s_env S; (uid, w0) = read_uuid E w in
      andThen (insert_request E i a v uid) (\<lambda>approval_id.
        andThen (case s_decide S of None \<Rightarrow> ret False | Some f \<Rightarrow> lift_res (f approval_id)) (\<lambda>approved w2.
          (Inr (approved, a), set_request_state E approval_id (state_of_decision approved) ''service'' w2))) w0)"

section \<open>Projection of the steps\<close>

record step_entry =
  en_action :: json
  en_governance :: json
  en_feedback :: json

definition empty_entry :: step_entry where
  "empty_entry = \<lparr>en_action = JObj [], en_governance = JObj [], en_feedback = JObj []\<rparr>"

definition load_payload :: "string \<Rightarrow> json res" where
  "load_payload t =
     (case loads t of Inr v \<Rightarrow> Inr v | Inl DecodeError \<Rightarrow> Inr (JObj []) | Inl _ \<Rightarrow> Inl int_limit_error)"

definition entry_of :: "(int \<times> step_entry) list \<Rightarrow> int \<Rightarrow> step_entry" where
  "entry_of m i = (case map_of m i of None \<Rightarrow> empty_entry | Some e \<Rightarrow> e)"

definition note_event :: "audit_row \<Rightarrow> json \<Rightarrow> (int \<times> step_entry) list \<Rightarrow> (int \<times> step_entry) list" where
  "note_event r payload m =
     (let i = ev_step_index r; e = entry_of m i in
      if ev_type r = event_value ACTION_PROPOSED then AList.update i (e\<lparr>en_action := payload\<rparr>) m
      else if ev_type r = event_value GOVERNANCE_DECISION then AList.update i (e\<lparr>en_governance := payload\<rparr>) m
      else if ev_type r = event_value FEEDBACK then AList.update i (e\<lparr>en_feedback := payload\<rparr>) m
      else m)"

fun collect_steps :: "audit_row list \<Rightarrow> (int \<times> step_entry) list \<Rightarrow> (int \<times> step_entry) list res" where
  "collect_steps [] m = Inr m"
| "collect_steps (r # rs) m =
     res_bind (load_payload (ev_payload_json r)) (\<lambda>p. collect_steps rs (note_event r p m))"

text \<open>\<open>d.get(key, default)\<close> of a value that may be no dictionary\<close>

definition dict_get :: "json \<Rightarrow> string \<Rightarrow> json \<Rightarrow> json res" where
  "dict_get d k dflt = (case d of JObj o1 \<Rightarrow> Inr (get_or o1 k dflt) | _ \<Rightarrow> Inl (no_attr d ''get''))"

definition bindable :: "json \<Rightarrow> bool" where
  "bindable v \<longleftrightarrow> (case v of JObj _ \<Rightarrow> False | JList _ \<Rightarrow> False | _ \<Rightarrow> True)"

definition binding_error :: exn where
  "binding_error = exc ''ProgrammingError'' ''Error binding parameter: type is not supported''"

definition insert_step :: "env \<Rightarrow> string \<Rightarrow> int \<times> step_entry \<Rightarrow> (world, unit) eff" where
  "insert_step E i se w =
     (case se of (si, e) \<Rightarrow>
        (case res_bind (dict_get (en_governance e) ''decision'' (JStr [])) (\<lambda>d.
              res_bind (dict_get (en_governance e) ''rule'' JNull) (\<lambda>ru.
              res_bind (dict_get (en_feedback e) ''category'' (JStr [])) (\<lambda>c.
              if bindable d \<and> bindable ru \<and> bindable c then Inr (d, ru, c) else Inl binding_error))) of
           Inl x \<Rightarrow> (Inl x, w)
         | Inr (d, ru, c) \<Rightarrow>
             (let (now, w1) = read_now E w
              in (Inr (), w1\<lparr>w_db := step_insert now i si (dumps True (en_action e)) d ru ''{}'' c (w_db w1)\<rparr>))))"

fun insert_steps :: "env \<Rightarrow> string \<Rightarrow> (int \<times> step_entry) list \<Rightarrow> int \<Rightarrow> (world, int) eff" where
  "insert_steps E i [] n w = (Inr n, w)"
| "insert_steps E i (se # ses) n w =
     (case insert_step E i se w of
        (Inl e, w1) \<Rightarrow> (Inl e, w1)
      | (Inr _, w1) \<Rightarrow> insert_steps E i ses (n + 1) w1)"

definition project_steps :: "env \<Rightarrow> string \<Rightarrow> (world, int) eff" where
  "project_steps E i w =
     (case collect_steps (task_events i (w_db w)) [] of
        Inl e \<Rightarrow> (Inl e, w)
      | Inr m \<Rightarrow> insert_steps E i (sort_key fst m) 0 w)"

section \<open>Running a task\<close>

definition finish_task :: "env \<Rightarrow> string \<Rightarrow> termination_reason \<Rightarrow> (world, unit) eff" where
  "finish_task E i reason =
     andThen (project_steps E i) (\<lambda>n w.
       let (now, w1) = read_now E w
       in (Inr (), w1\<lparr>w_db := task_update_state now i (termination_to_state reason) (Some (reason_value reason)) (Some n) (w_db w1)\<rparr>))"

text \<open>The run of a harness, with every failure taken for an internal error, and the record of its outcome\<close>

definition run_harness :: "env \<Rightarrow> harness \<Rightarrow> string \<Rightarrow> string \<Rightarrow> (world, unit) eff" where
  "run_harness E h i description w =
     (case run E h description w of
        (Inr reason, w1) \<Rightarrow> finish_task E i reason w1
      | (Inl _, w1) \<Rightarrow> finish_task E i INTERNAL_ERROR w1)"

definition sync_harness :: "service \<Rightarrow> string \<Rightarrow> string \<Rightarrow> bool \<Rightarrow> harness" where
  "sync_harness S i ws_dir pre_cancel =
     harness_factory (s_env S) (s_config S) (s_model S) i ws_dir (Some (sync_resolver S i))
       (Some (\<lambda>n. pre_cancel \<or> s_cancelled S i n))"

definition run_inline :: "service \<Rightarrow> string \<Rightarrow> string \<Rightarrow> string \<Rightarrow> bool \<Rightarrow> (world, unit) eff" where
  "run_inline S i ws_dir description pre_cancel =
     run_harness (s_env S) (sync_harness S i ws_dir pre_cancel) i description"

text \<open>
  A request: the check of the workspace, the row, the start of the run.  The start runs the task to
  its end in the synchronous mode and only makes the thread in the asynchronous one.
\<close>

definition create_task_with :: "env \<Rightarrow> string \<Rightarrow> (string \<Rightarrow> (world, unit) eff) \<Rightarrow> string \<Rightarrow> string \<Rightarrow> (world, string) eff" where
  "create_task_with E base start_run ws_dir description w =
     (case validate_workspace (os_fs w) (os_cwd w) ws_dir base of
        Inl e \<Rightarrow> (Inl e, w)
      | Inr _ \<Rightarrow>
          (let (uid, w1) = read_uuid E w; (now, w2) = read_now E w1 in
           andThen (on_db (task_insert uid now ws_dir (workspace_hash (e_hash E) ws_dir) description)) (\<lambda>i.
             andThen (start_run i) (\<lambda>_. ret i)) w2))"

definition create_task :: "service \<Rightarrow> string \<Rightarrow> string \<Rightarrow> bool \<Rightarrow> (world, string) eff" where
  "create_task S ws_dir description pre_cancel =
     create_task_with (s_env S) (base_of (s_config S)) (\<lambda>i. run_inline S i ws_dir description pre_cancel) ws_dir description"

definition get_task :: "string \<Rightarrow> world \<Rightarrow> task_row res" where
  "get_task i w = task_get i (w_db w)"

definition get_events :: "string \<Rightarrow> int \<Rightarrow> world \<Rightarrow> audit_row list" where
  "get_events i since w = list_since i since (w_db w)"

definition list_approvals :: "string \<Rightarrow> world \<Rightarrow> approval_row list" where
  "list_approvals i w = approval_list_for_task i (w_db w)"

definition get_audit :: "env \<Rightarrow> string \<Rightarrow> world \<Rightarrow> bool \<times> audit_row list" where
  "get_audit E i w = (fst (verify_chain (e_hash E) i None (w_db w)), list_since i 0 (w_db w))"

section \<open>The parts of the harness are quiet\<close>

lemma same_but_fs_more: "same_but_fs s s' \<Longrightarrow> os_state.more s' = os_state.more s"
  by (auto simp: same_but_fs_def)

text \<open>Programs that change nothing but the files\<close>

definition fs_only :: "('s os_state_scheme, 'a) eff \<Rightarrow> bool" where
  "fs_only m \<longleftrightarrow> (\<forall>s. same_but_fs s (snd (m s)))"

lemma fs_only_ret [intro]: "fs_only (ret x)" "fs_only (raise e)" "fs_only (lift_res r)"
  by (simp_all add: fs_only_def)

lemma fs_only_andThen [intro]: "fs_only m \<Longrightarrow> (\<And>x. fs_only (k x)) \<Longrightarrow> fs_only (andThen m k)"
  unfolding fs_only_def andThen_def
  by (auto split: prod.splits sum.splits) (metis same_but_fs_trans snd_conv)+

lemma fs_only_catch [intro]: "fs_only m \<Longrightarrow> (\<And>e. fs_only (h e)) \<Longrightarrow> fs_only (catch m h)"
  unfolding fs_only_def catch_def
  by (auto split: prod.splits sum.splits) (metis same_but_fs_trans snd_conv)+

lemma fs_only_except [intro]: "fs_only m \<Longrightarrow> (\<And>e. fs_only (h e)) \<Longrightarrow> fs_only (except_os m h)"
  unfolding except_os_def by (intro fs_only_catch) (auto intro: fs_only_ret)

lemma fs_only_if: "fs_only m \<Longrightarrow> fs_only k \<Longrightarrow> fs_only (if b then m else k)"
  by simp

lemma same_but_fs_upd [simp]: "same_but_fs s (s\<lparr>os_fs := f\<rparr>)"
  by (auto simp: same_but_fs_def)

lemma fs_only_mkdir: "fs_only (mkdir E name)"
  by (simp add: fs_only_def mkdir_def split: option.splits)

lemma fs_only_mkdir_ok: "fs_only (mkdir_ok E name)"
  unfolding mkdir_ok_def by (intro fs_only_catch fs_only_mkdir) (simp add: fs_only_def)

lemma fs_only_makedirs: "fs_only (makedirs n E name :: ('s os_state_scheme, unit) eff)"
proof -
  have ok: "same_but_fs s (snd (mkdir_ok E name s))" for E name and s :: "'s os_state_scheme"
    using fs_only_mkdir_ok [of E name, where ?'a = 's] by (simp add: fs_only_def)
  have "same_but_fs s (snd (makedirs n E name s))" for s :: "'s os_state_scheme"
  proof (induction n E name s rule: makedirs.induct)
    case (2 n E name s)
    let ?path = "if basename name = [] then dirname name else name"
    obtain r s1 where m: "makedirs n E (dirname ?path) s = (r, s1)" by fastforce
    show ?case
    proof (cases "dirname ?path \<noteq> [] \<and> basename ?path \<noteq> [] \<and> \<not> exists_py s (dirname ?path)")
      case True
      have g: "same_but_fs s s1" using "2.IH" [OF refl refl refl True] m by simp
      have "snd (makedirs (Suc n) E name s) \<in> {s1, snd (mkdir_ok E name s1)}"
        unfolding makedirs.simps Let_def if_P [OF True] m by (cases r) simp_all
      with g same_but_fs_trans [OF g ok [of s1 E name]] show ?thesis by (elim insertE emptyE) simp_all
    next
      case False
      then have "makedirs (Suc n) E name s = mkdir_ok E name s" unfolding makedirs.simps Let_def by (rule if_not_P)
      then show ?thesis using ok [of s E name] by simp
    qed
  qed simp
  then show ?thesis by (simp add: fs_only_def)
qed

lemma fs_only_write_text: "fs_only (write_text E path t)"
  by (simp add: fs_only_def write_text_def split: option.splits)

lemma write_file_same_but_fs: "same_but_fs s (snd (write_file_run E a c s))" for s :: "'s os_state_scheme"
proof -
  have "fs_only (write_file_run E a c :: ('s os_state_scheme, tool_result) eff)"
    unfolding write_file_run_def Let_def
    by (intro fs_only_andThen fs_only_ret fs_only_except fs_only_makedirs fs_only_write_text fs_only_if)
  then show ?thesis by (simp add: fs_only_def)
qed

lemma run_process_more: "run_process E argv d tm s = (r, s') \<Longrightarrow> os_state.more s' = os_state.more s"
  by (auto simp: run_process_def split: prod.splits)

lemma built_tool_more:
  assumes "registry_get (build_registry E config) n = Some t"
  shows "os_state.more (snd (t_run t a c s)) = os_state.more s"
proof -
  have "os_state.more (snd (run_command_run E tm mb a c s)) = os_state.more s" for tm mb
    by (auto simp: run_command_run_def andThen_def Let_def split: sum.splits prod.splits proc_result.splits dest: run_process_more)
  moreover have "os_state.more (snd (run_tests_run E cmd tm mb a c s)) = os_state.more s" for cmd tm mb
    by (auto simp: run_tests_run_def andThen_def Let_def split: sum.splits prod.splits proc_result.splits dest: run_process_more)
  ultimately show ?thesis
    using build_registry_get [OF assms] same_but_fs_more [OF write_file_same_but_fs, of E a c s]
    by (auto simp: all_tools_def Let_def frame_simps write_file_tool_def read_file_tool_def list_files_tool_def
      search_text_tool_def finish_tool_def run_command_tool_def run_tests_tool_def)
qed

lemma more_quiet: "os_state.more w' = os_state.more w \<Longrightarrow> quiet w (w' :: world)"
  by (cases w; cases w') (simp add: quiet_def)

lemma harness_factory_sel [simp]:
  "h_llm (harness_factory E config model i ws_dir resolver cancel) = model"
  "h_dispatcher (harness_factory E config model i ws_dir resolver cancel) = build_dispatcher config (build_registry (e_os E) config)"
  "h_config (harness_factory E config model i ws_dir resolver cancel) = config"
  "task_id (h_ctx (harness_factory E config model i ws_dir resolver cancel)) = i"
  "workspace_root (h_ctx (harness_factory E config model i ws_dir resolver cancel)) = ws_dir"
  "h_verifier (harness_factory E config model i ws_dir resolver cancel) = final_verifier E config ws_dir"
  "h_resolver (harness_factory E config model i ws_dir resolver cancel) = resolver"
  "h_cancel (harness_factory E config model i ws_dir resolver cancel) = cancel"
  by (simp_all add: harness_factory_def Let_def)

lemma built_dispatch_quiet:
  "quiet w (snd (dispatch (build_dispatcher config (build_registry (e_os E) config)) a c w))"
proof (cases rule: dispatch_cases [of "build_dispatcher config (build_registry (e_os E) config)" a c w])
  case (ran tool v)
  then have t: "registry_get (build_registry (e_os E) config) (tool_name a) = Some tool" by (simp add: gate_open_def)
  have "snd (dispatch (build_dispatcher config (build_registry (e_os E) config)) a c w) = snd (t_run tool (arguments a) c w)"
    using ran(4) by (auto split: prod.splits sum.splits)
  then show ?thesis using more_quiet built_tool_more [OF t] by metis
qed simp_all

lemma built_execute_quiet:
  "quiet w (snd (execute_approved H (build_dispatcher config (build_registry (e_os E) config)) a c fp w))"
proof (cases rule: execute_approved_cases [of "build_dispatcher config (build_registry (e_os E) config)" a c w H fp])
  case (ran tool)
  then have t: "registry_get (build_registry (e_os E) config) (tool_name a) = Some tool" by (simp add: gate_open_def)
  show ?thesis using ran(2) more_quiet built_tool_more [OF t] by metis
qed simp_all

lemma final_verifier_quiet: "quiet w (snd (final_verifier E config ws_dir w))"
  by (rule more_quiet)
    (auto simp: final_verifier_def andThen_def Let_def split: sum.splits prod.splits proc_result.splits dest: run_process_more)

lemma sync_resolver_quiet: "quiet w (snd (sync_resolver S i a v w))"
  by (auto simp: sync_resolver_def insert_request_def on_db_def approval_insert_def approval_update_state_def set_request_state_def
      read_now_def read_uuid_def quiet_def andThen_def Let_def split: sum.splits prod.splits option.splits if_splits)

text \<open>The harness of the service keeps the contract of the loop.\<close>

interpretation sync: quiet_parts "s_env S"
    "harness_factory (s_env S) (s_config S) (s_model S) i ws_dir (Some (sync_resolver S i)) cancel" for S i ws_dir cancel
  by unfold_locales (auto simp: built_dispatch_quiet built_execute_quiet final_verifier_quiet sync_resolver_quiet)

text \<open>The harness of a task of the synchronous service\<close>

lemma sync_harness_sel [simp]:
  "h_config (sync_harness S i ws_dir pre) = s_config S" "task_id (h_ctx (sync_harness S i ws_dir pre)) = i"
  "h_verifier (sync_harness S i ws_dir pre) = final_verifier (s_env S) (s_config S) ws_dir"
  "h_cancel (sync_harness S i ws_dir pre) = Some (\<lambda>n. pre \<or> s_cancelled S i n)"
  by (simp_all add: sync_harness_def)

section \<open>The workspace fence of the service\<close>

text \<open>
  C22: A workspace is accepted exactly when its real path, segment by segment, starts with the real
  path of the allowed base: neither a link, a parent reference nor a sibling directory with a
  common name prefix passes.  A text with a NUL byte is never accepted.
\<close>

theorem validate_workspace_exact:
  assumes "names_ok cwd" and "NUL \<notin> set base"
  shows "validate_workspace fs cwd ws_dir base = Inr () \<longleftrightarrow>
     ws_dir \<noteq> [] \<and> NUL \<notin> set ws_dir \<and> prefix (realpath_segs fs cwd base) (realpath_segs fs cwd ws_dir)"
proof -
  have "names_ok (realpath_segs fs cwd n)" for n using assms(1) by (rule realpath_names)
  then have "commonpath2 (realpath fs cwd ws_dir) (realpath fs cwd base) = Inr (realpath fs cwd base) \<longleftrightarrow>
      prefix (realpath_segs fs cwd base) (realpath_segs fs cwd ws_dir)"
    unfolding realpath_def by (intro commonpath2_root_iff) (simp_all add: names_ok_def)
  then show ?thesis using assms(2)
    by (auto simp: validate_workspace_def os_realpath_def workspace_error_def split: sum.splits)
qed

theorem validate_workspace_exact_witness:
  "validate_workspace [([''ws''], Dir), ([''ws'', ''a''], Dir), ([''ws-evil''], Dir), ([''ws'', ''out''], Link ''/ws-evil'')] []
      ''/ws/a'' ''/ws'' = Inr () \<and>
   validate_workspace [([''ws''], Dir), ([''ws'', ''a''], Dir), ([''ws-evil''], Dir), ([''ws'', ''out''], Link ''/ws-evil'')] []
      ''/ws/out'' ''/ws'' \<noteq> Inr () \<and>
   validate_workspace [([''ws''], Dir), ([''ws'', ''a''], Dir), ([''ws-evil''], Dir), ([''ws'', ''out''], Link ''/ws-evil'')] []
      ''/ws-evil'' ''/ws'' \<noteq> Inr ()"
proof -
  let ?fs = "[([''ws''], Dir), ([''ws'', ''a''], Dir), ([''ws-evil''], Dir), ([''ws'', ''out''], Link ''/ws-evil'')]"
  have n: "names_ok []" "NUL \<notin> set ''/ws''" by (simp_all add: names_ok_def)
  have base: "realpath_segs ?fs [] ''/ws'' = [''ws'']" by code_simp
  have "realpath_segs ?fs [] ''/ws/a'' = [''ws'', ''a'']" "realpath_segs ?fs [] ''/ws/out'' = [''ws-evil'']"
    "realpath_segs ?fs [] ''/ws-evil'' = [''ws-evil'']" by code_simp+
  then show ?thesis
    unfolding validate_workspace_exact [OF n, of ?fs "''/ws/a''"] validate_workspace_exact [OF n, of ?fs "''/ws/out''"]
      validate_workspace_exact [OF n, of ?fs "''/ws-evil''"] base by simp
qed

section \<open>A task from its request to its outcome\<close>

definition run_ends :: "env \<Rightarrow> harness \<Rightarrow> string \<Rightarrow> world \<Rightarrow> termination_reason \<Rightarrow> world \<Rightarrow> bool" where
  "run_ends E h d w r w' \<longleftrightarrow>
     (let x = run E h d w in snd x = w' \<and> (fst x = Inr r \<or> r = INTERNAL_ERROR \<and> (\<exists>e. fst x = Inl e)))"

lemma run_harness_finish:
  assumes "run_harness E h i d w = (x, w')"
  obtains r w1 where "run_ends E h d w r w1" "finish_task E i r w1 = (x, w')"
proof -
  obtain y w1 where y: "run E h d w = (y, w1)" by fastforce
  show thesis
  proof (cases y)
    case (Inl e)
    with y assms that [of INTERNAL_ERROR w1] show thesis by (simp add: run_harness_def run_ends_def Let_def)
  next
    case (Inr r)
    with y assms that [of r w1] show thesis by (simp add: run_harness_def run_ends_def Let_def)
  qed
qed

text \<open>The steps of a successful request\<close>

lemma create_task_with_Inr:
  assumes "create_task_with E base start_run ws_dir d w = (Inr i, w')"
  obtains w1 where
    "validate_workspace (os_fs w) (os_cwd w) ws_dir base = Inr ()"
    "task_insert i (e_now E (w_ticks w)) ws_dir (workspace_hash (e_hash E) ws_dir) d (w_db w) = (Inr i, w_db w1)"
    "w1 = w\<lparr>w_uuids := Suc (w_uuids w), w_ticks := Suc (w_ticks w), w_db := w_db w1\<rparr>"
    "start_run i w1 = (Inr (), w')"
proof -
  have val: "validate_workspace (os_fs w) (os_cwd w) ws_dir base = Inr ()"
    using assms by (simp add: create_task_with_def split: sum.splits)
  obtain y db where ins: "task_insert (e_uuid E (w_uuids w)) (e_now E (w_ticks w)) ws_dir
      (workspace_hash (e_hash E) ws_dir) d (w_db w) = (y, db)" by fastforce
  with assms val obtain j where j: "y = Inr j"
    by (cases y) (auto simp: create_task_with_def read_uuid_def read_now_def on_db_def andThen_def)
  with ins task_insert_get(1) have u: "e_uuid E (w_uuids w) = j" by blast
  let ?w1 = "w\<lparr>w_uuids := Suc (w_uuids w), w_ticks := Suc (w_ticks w), w_db := db\<rparr>"
  obtain z w4 where z: "start_run j ?w1 = (z, w4)" by fastforce
  with assms val ins j have fin: "z = Inr ()" "j = i" "w4 = w'"
    by (cases z; simp add: create_task_with_def read_uuid_def read_now_def on_db_def andThen_def)+
  with val ins j u z show thesis by (intro that [of ?w1]) simp_all
qed

lemma finish_task_Inr:
  assumes "finish_task E i r w = (Inr u, w')"
  obtains n w1 now where "project_steps E i w = (Inr n, w1)"
    "w' = w1\<lparr>w_ticks := Suc (w_ticks w1), w_db := task_update_state now i (termination_to_state r) (Some (reason_value r)) (Some n) (w_db w1)\<rparr>"
proof -
  obtain q w1 where q: "project_steps E i w = (q, w1)" by fastforce
  with assms obtain n where n: "q = Inr n" by (cases q) (simp_all add: finish_task_def andThen_def)
  with assms q show thesis
    by (intro that [of n w1 "e_now E (w_ticks w1)"]) (simp_all add: finish_task_def andThen_def read_now_def Let_def)
qed

lemma create_run_steps:
  assumes "create_task_with E base (\<lambda>i. run_harness E (hf i) i d) ws_dir d w = (Inr i, w')"
  obtains w1 r w2 n w3 now where
    "validate_workspace (os_fs w) (os_cwd w) ws_dir base = Inr ()"
    "task_insert i (e_now E (w_ticks w)) ws_dir (workspace_hash (e_hash E) ws_dir) d (w_db w) = (Inr i, w_db w1)"
    "w1 = w\<lparr>w_uuids := Suc (w_uuids w), w_ticks := Suc (w_ticks w), w_db := w_db w1\<rparr>"
    "run_ends E (hf i) d w1 r w2"
    "project_steps E i w2 = (Inr n, w3)"
    "w' = w3\<lparr>w_ticks := Suc (w_ticks w3), w_db := task_update_state now i (termination_to_state r) (Some (reason_value r)) (Some n) (w_db w3)\<rparr>"
proof -
  from assms obtain w1 where c: "validate_workspace (os_fs w) (os_cwd w) ws_dir base = Inr ()"
    "task_insert i (e_now E (w_ticks w)) ws_dir (workspace_hash (e_hash E) ws_dir) d (w_db w) = (Inr i, w_db w1)"
    "w1 = w\<lparr>w_uuids := Suc (w_uuids w), w_ticks := Suc (w_ticks w), w_db := w_db w1\<rparr>"
    "run_harness E (hf i) i d w1 = (Inr (), w')" by (rule create_task_with_Inr)
  from c(4) obtain r w2 where r: "run_ends E (hf i) d w1 r w2" "finish_task E i r w2 = (Inr (), w')"
    by (rule run_harness_finish)
  from r(2) obtain n w3 now where "project_steps E i w2 = (Inr n, w3)"
    "w' = w3\<lparr>w_ticks := Suc (w_ticks w3), w_db := task_update_state now i (termination_to_state r) (Some (reason_value r)) (Some n) (w_db w3)\<rparr>"
    by (rule finish_task_Inr)
  with c(1,2,3) r(1) show thesis by (rule that)
qed

lemma create_task_steps:
  assumes "create_task S ws_dir d pre w = (Inr i, w')"
  obtains w1 r w2 n w3 now where
    "validate_workspace (os_fs w) (os_cwd w) ws_dir (base_of (s_config S)) = Inr ()"
    "task_insert i (e_now (s_env S) (w_ticks w)) ws_dir (workspace_hash (e_hash (s_env S)) ws_dir) d (w_db w) = (Inr i, w_db w1)"
    "w1 = w\<lparr>w_uuids := Suc (w_uuids w), w_ticks := Suc (w_ticks w), w_db := w_db w1\<rparr>"
    "run_ends (s_env S) (sync_harness S i ws_dir pre) d w1 r w2"
    "project_steps (s_env S) i w2 = (Inr n, w3)"
    "w' = w3\<lparr>w_ticks := Suc (w_ticks w3), w_db := task_update_state now i (termination_to_state r) (Some (reason_value r)) (Some n) (w_db w3)\<rparr>"
  using assms unfolding create_task_def run_inline_def by (rule create_run_steps)

text \<open>A projection changes the table of steps and the clock only.\<close>

lemma insert_step_frame:
  assumes "insert_step E i se w = (x, w')"
  shows "tasks (w_db w') = tasks (w_db w) \<and> audit_events (w_db w') = audit_events (w_db w) \<and>
    event_seq (w_db w') = event_seq (w_db w) \<and> w_llm w' = w_llm w \<and> os_fs w' = os_fs w \<and> os_procs w' = os_procs w"
  using assms by (auto simp: insert_step_def read_now_def step_insert_def Let_def split: prod.splits sum.splits)

lemma insert_steps_frame:
  "insert_steps E i ses n w = (x, w') \<Longrightarrow>
     tasks (w_db w') = tasks (w_db w) \<and> audit_events (w_db w') = audit_events (w_db w) \<and>
     event_seq (w_db w') = event_seq (w_db w) \<and> w_llm w' = w_llm w \<and> os_fs w' = os_fs w \<and> os_procs w' = os_procs w"
proof (induction ses arbitrary: n w)
  case (Cons se ses)
  obtain y w1 where y: "insert_step E i se w = (y, w1)" by fastforce
  note f = insert_step_frame [OF y]
  show ?case
  proof (cases y)
    case (Inl e)
    with Cons(2) y f show ?thesis by simp
  next
    case (Inr u)
    with Cons(2) y have "insert_steps E i ses (n + 1) w1 = (x, w')" by simp
    from Cons(1) [OF this] f show ?thesis by simp
  qed
qed simp

lemma project_frame:
  assumes "project_steps E i w = (x, w')"
  shows "tasks (w_db w') = tasks (w_db w) \<and> audit_events (w_db w') = audit_events (w_db w) \<and>
    event_seq (w_db w') = event_seq (w_db w) \<and> w_llm w' = w_llm w \<and> os_fs w' = os_fs w \<and> os_procs w' = os_procs w"
  using assms insert_steps_frame by (auto simp: project_steps_def split: sum.splits)

lemma task_events_cong: "audit_events db = audit_events db' \<Longrightarrow> task_events i db = task_events i db'"
  by (simp add: task_events_def)

lemma task_get_cong: "tasks db = tasks db' \<Longrightarrow> task_get i db = task_get i db'"
  by (simp add: task_get_def)

lemma update_state_frame [simp]:
  "audit_events (task_update_state now i st r n db) = audit_events db"
  "event_seq (task_update_state now i st r n db) = event_seq db"
  "steps (task_update_state now i st r n db) = steps db"
  by (simp_all add: task_update_state_def)

lemma task_insert_frame:
  assumes "task_insert uid now p h d db = (x, db')"
  shows "audit_events db' = audit_events db" "event_seq db' = event_seq db" "steps db' = steps db"
  using assms by (auto simp: task_insert_def split: if_splits)

lemma outcome_good:
  assumes "run_ends E h d w r w'"
  shows "r \<noteq> FINISH_REJECTED \<and> (r = COMPLETED \<longrightarrow> verified E h w') \<and> (r = CANCELLED \<longrightarrow> cancel_seen h)"
proof (cases "fst (run E h d w)")
  case (Inl e)
  with assms show ?thesis by (simp add: run_ends_def Let_def)
next
  case (Inr r1)
  with assms have "run E h d w = (Inr r, w')"
    by (cases "run E h d w") (simp add: run_ends_def Let_def)
  then have "good_end E h r w'" by (rule run_Inr) (rule loop_good_end)
  then show ?thesis by (auto simp: good_end_def)
qed

context quiet_parts
begin

lemma outcome_logged:
  assumes "run_ends E h d w r w'"
  shows "\<exists>es. logged (e_hash E) (task_id (h_ctx h)) w es w' \<and> w_llm w' \<le> w_llm w +
      nat (llm_max_retries (h_limits h)) * (nat (max_steps (h_limits h)) * nat (action_retry_limit (h_limits h))) \<and>
    (0 \<le> no_progress_repeat_limit (h_limits h) \<longrightarrow>
      (\<exists>ts ps. es = concat ts @ ps @ [term_event r] \<and> list_all turn_trace ts \<and> part_trace ps))"
proof (cases "fst (run E h d w)")
  case (Inl e)
  with assms have "w' = w" "no_progress_repeat_limit (h_limits h) < 0"
    by (auto simp: run_ends_def run_def new_tracker_def Let_def split: sum.splits prod.splits if_splits)
  with quiet_logged [OF quiet_refl, of "e_hash E" "task_id (h_ctx h)" w] show ?thesis by auto
next
  case (Inr r1)
  with assms have run: "run E h d w = (Inr r, w')"
    by (cases "run E h d w") (simp add: run_ends_def Let_def)
  from run_logged [OF run] run_llm [OF run] show ?thesis
    by (auto simp: lg_def retries_def)
qed

end

lemmas sync_logged = sync.outcome_logged [where cancel = "Some (\<lambda>n. pre \<or> s_cancelled S i n)" and S = S and i = i for pre S i, folded sync_harness_def, unfolded sync_harness_sel]

text \<open>A task that was created and run: its row, and the audit trail that its run left\<close>

definition trail :: "env \<Rightarrow> string \<Rightarrow> termination_reason \<Rightarrow> world \<Rightarrow> bool" where
  "trail E i r w \<longleftrightarrow> (\<exists>ts ps. map row_view (task_events i (w_db w)) = map event_view (concat ts @ ps @ [term_event r]) \<and>
     list_all turn_trace ts \<and> part_trace ps) \<and> fst (get_audit E i w)"

lemma created_run:
  assumes "create_task S ws_dir d pre w = (Inr i, w')"
  shows "\<exists>row r. get_task i w' = Inr row \<and> tk_workspace_path row = ws_dir \<and> tk_description row = d \<and>
     tk_state row = termination_to_state r \<and> tk_termination_reason row = Some (reason_value r) \<and> r \<noteq> FINISH_REJECTED \<and>
     (r = COMPLETED \<longrightarrow> (\<exists>w1 w2. final_verifier (s_env S) (s_config S) ws_dir w1 = (Inr True, w2) \<and> os_fs w' = os_fs w2)) \<and>
     (r = CANCELLED \<longrightarrow> pre \<or> (\<exists>n. s_cancelled S i n)) \<and>
     (chain_ok (e_hash (s_env S)) (w_db w) \<and> task_events i (w_db w) = [] \<and> 0 \<le> no_progress_repeat_limit (limits_of (s_config S)) \<longrightarrow>
        trail (s_env S) i r w')"
proof -
  let ?H = "e_hash (s_env S)"
  from assms obtain w1 r w2 n w3 now where s:
    "task_insert i (e_now (s_env S) (w_ticks w)) ws_dir (workspace_hash ?H ws_dir) d (w_db w) = (Inr i, w_db w1)"
    "run_ends (s_env S) (sync_harness S i ws_dir pre) d w1 r w2" "project_steps (s_env S) i w2 = (Inr n, w3)"
    "w' = w3\<lparr>w_ticks := Suc (w_ticks w3), w_db := task_update_state now i (termination_to_state r) (Some (reason_value r)) (Some n) (w_db w3)\<rparr>"
    by (rule create_task_steps)
  note fr = project_frame [OF s(3)] and ins = task_insert_frame [OF s(1)]
  have "tasks (w_db w3) = tasks (w_db w1)"
    using sync_logged [OF s(2)] fr by (auto simp: logged_def kept_def)
  from task_get_cong [OF this, of i] task_insert_get(2) [OF s(1)] obtain row where
    row: "task_get i (w_db w3) = Inr row" "tk_workspace_path row = ws_dir" "tk_description row = d" by auto
  have fs: "os_fs w' = os_fs w2" using s(4) fr by simp
  have ver: "\<exists>u1 u2. final_verifier (s_env S) (s_config S) ws_dir u1 = (Inr True, u2) \<and> os_fs w' = os_fs u2" if "r = COMPLETED"
    using outcome_good [OF s(2)] that fs
    by (auto simp: verified_def audit_term_def audit_def read_now_def) blast
  have tr: "trail (s_env S) i r w'"
    if "chain_ok ?H (w_db w)" "task_events i (w_db w) = []" "0 \<le> no_progress_repeat_limit (limits_of (s_config S))"
  proof -
    have 1: "chain_ok ?H (w_db w1)" "task_events i (w_db w1) = []"
      using that(1,2) by (simp_all only: chain_ok_cong [OF ins(1,2)] task_events_cong [OF ins(1)])
    from sync_logged [OF s(2)] that(3) obtain ts ps where
      lg: "logged ?H i w1 (concat ts @ ps @ [term_event r]) w2" and ok: "list_all turn_trace ts" "part_trace ps" by blast
    from lg 1 have 2: "chain_ok ?H (w_db w2)"
      "map row_view (task_events i (w_db w2)) = map event_view (concat ts @ ps @ [term_event r])" by (auto simp: logged_def kept_def)
    have ev: "audit_events (w_db w') = audit_events (w_db w2)" "event_seq (w_db w') = event_seq (w_db w2)" using s(4) fr by simp_all
    have "chain_ok ?H (w_db w')" using 2(1) chain_ok_cong [OF ev] by simp
    from chain_ok_verify [OF this, of i] 2(2) ok task_events_cong [OF ev(1), of i] show ?thesis
      by (auto simp: trail_def get_audit_def)
  qed
  from row s(4) outcome_good [OF s(2)] ver tr show ?thesis
    unfolding cancel_seen_def sync_harness_sel
    by (intro exI [of _ "set_task_state now (termination_to_state r) (Some (reason_value r)) (Some n) row"] exI [of _ r])
      (simp add: get_task_def task_get_update set_task_state_def)
qed

lemma created_row:
  assumes "create_task S ws_dir d pre w = (Inr i, w')"
  shows "\<exists>row r. get_task i w' = Inr row \<and> tk_workspace_path row = ws_dir \<and> tk_description row = d \<and>
     tk_state row = termination_to_state r \<and> tk_termination_reason row = Some (reason_value r) \<and> r \<noteq> FINISH_REJECTED \<and>
     (r = COMPLETED \<longrightarrow> (\<exists>w1 w2. final_verifier (s_env S) (s_config S) ws_dir w1 = (Inr True, w2) \<and> os_fs w' = os_fs w2)) \<and>
     (r = CANCELLED \<longrightarrow> pre \<or> (\<exists>n. s_cancelled S i n))"
  using created_run [OF assms] by blast

text \<open>
  C19: The row of a task that ran tells the truth: it is terminal, its state and reason agree, a
  COMPLETED task was accepted by the final verifier and no file changed after that, and a
  CANCELLED one was cancelled by someone.  (No run ends with the reason FINISH_REJECTED.)
\<close>

theorem create_task_outcome:
  assumes "create_task S ws_dir d pre w = (Inr i, w')"
  shows "\<exists>row r. get_task i w' = Inr row \<and> tk_workspace_path row = ws_dir \<and> tk_description row = d \<and>
     tk_state row = termination_to_state r \<and> tk_termination_reason row = Some (reason_value r) \<and> r \<noteq> FINISH_REJECTED \<and>
     (r = COMPLETED \<longrightarrow> (\<exists>w1 w2. final_verifier (s_env S) (s_config S) ws_dir w1 = (Inr True, w2) \<and> os_fs w' = os_fs w2)) \<and>
     (r = CANCELLED \<longrightarrow> pre \<or> (\<exists>n. s_cancelled S i n))"
  using assms by (rule created_row)

text \<open>
  C18: The audit log of a new task is a word of the protocol of turns: complete turns, the begin of
  one more, and the termination with the reason that the row of the task shows.  A tool runs only
  behind an allowing decision or an approval, and the chain verifies.
\<close>

theorem create_task_audit:
  assumes "create_task S ws_dir d pre w = (Inr i, w')" and "chain_ok (e_hash (s_env S)) (w_db w)"
    and "task_events i (w_db w) = []" and "0 \<le> no_progress_repeat_limit (limits_of (s_config S))"
  shows "\<exists>row r ts ps. get_task i w' = Inr row \<and> tk_termination_reason row = Some (reason_value r) \<and>
     map row_view (task_events i (w_db w')) = map event_view (concat ts @ ps @ [term_event r]) \<and>
     list_all turn_trace ts \<and> part_trace ps \<and> fst (get_audit (s_env S) i w')"
  using created_run [OF assms(1)] assms(2-4) unfolding trail_def by blast


text \<open>
  C21: A task calls the model at most once per retry, step and invalid action that its limits allow.
\<close>

theorem create_task_calls:
  assumes "create_task S ws_dir d pre w = (Inr i, w')"
  shows "w_llm w' \<le> w_llm w + nat (llm_max_retries (limits_of (s_config S))) *
     (nat (max_steps (limits_of (s_config S))) * nat (action_retry_limit (limits_of (s_config S))))"
proof -
  from assms obtain w1 r w2 n w3 now where s: "w1 = w\<lparr>w_uuids := Suc (w_uuids w), w_ticks := Suc (w_ticks w), w_db := w_db w1\<rparr>"
    "run_ends (s_env S) (sync_harness S i ws_dir pre) d w1 r w2" "project_steps (s_env S) i w2 = (Inr n, w3)"
    "w' = w3\<lparr>w_ticks := Suc (w_ticks w3), w_db := task_update_state now i (termination_to_state r) (Some (reason_value r)) (Some n) (w_db w3)\<rparr>"
    by (rule create_task_steps)
  have "w_llm w1 = w_llm w" by (subst s(1)) simp
  moreover have "w_llm w' = w_llm w2" using s(4) project_frame [OF s(3)] by simp
  ultimately show ?thesis using sync_logged [OF s(2)] by auto
qed

lemma collect_typed:
  assumes "\<forall>r \<in> set rs. \<exists>e. ev_type r = event_str e" and "collect_steps rs m = Inr m'"
  shows "m' = m"
  using assms
proof (induction rs)
  case (Cons r rs)
  then obtain e p where e: "ev_type r = event_str e" and p: "collect_steps rs (note_event r p m) = Inr m'"
    by (auto elim!: res_bind_InrE)
  have "note_event r p m = m" by (simp only: note_event_def Let_def e event_str_not_value if_False)
  with Cons p show ?case by simp
qed simp

text \<open>
  C23: No step is ever projected: the audit log stores \<open>str(event_type)\<close>, with the name of the class,
  while the projection compares with the plain value, so after every run the table of steps is
  unchanged and the count of the task is zero.
\<close>

theorem steps_never_projected:
  assumes "create_task S ws_dir d pre w = (Inr i, w')" and "events_typed (w_db w)"
  shows "steps (w_db w') = steps (w_db w) \<and> (\<exists>row. get_task i w' = Inr row \<and> tk_step_count row = 0)"
proof -
  from assms(1) obtain w1 r w2 n w3 now where s:
    "task_insert i (e_now (s_env S) (w_ticks w)) ws_dir (workspace_hash (e_hash (s_env S)) ws_dir) d (w_db w) = (Inr i, w_db w1)"
    "run_ends (s_env S) (sync_harness S i ws_dir pre) d w1 r w2" "project_steps (s_env S) i w2 = (Inr n, w3)"
    "w' = w3\<lparr>w_ticks := Suc (w_ticks w3), w_db := task_update_state now i (termination_to_state r) (Some (reason_value r)) (Some n) (w_db w3)\<rparr>"
    by (rule create_task_steps)
  note ins = task_insert_frame [OF s(1)]
  have 1: "events_typed (w_db w1)" using assms(2) ins(1) by (simp add: events_typed_def)
  from sync_logged [OF s(2)] 1 have 2: "events_typed (w_db w2)" "tasks (w_db w2) = tasks (w_db w1)" "steps (w_db w2) = steps (w_db w1)"
    by (auto simp: logged_def kept_def)
  from s(3) obtain m where m: "collect_steps (task_events i (w_db w2)) [] = Inr m" "insert_steps (s_env S) i (sort_key fst m) 0 w2 = (Inr n, w3)"
    by (auto simp: project_steps_def split: sum.splits)
  have "m = []" using 2(1) m(1) by (intro collect_typed [of "task_events i (w_db w2)"]) (auto simp: events_typed_def task_events_def)
  with m(2) have 3: "n = 0" "w3 = w2" by simp_all
  have "tasks (w_db w3) = tasks (w_db w1)" using 2(2) 3(2) by simp
  from task_get_cong [OF this, of i] task_insert_get(2) [OF s(1)] obtain row where row: "task_get i (w_db w3) = Inr row" by auto
  show ?thesis using row s(4) 2(3) 3 ins(3)
    by (auto simp: get_task_def task_get_update set_task_state_def)
qed

text \<open>A service whose task is cancelled before its first turn\<close>

definition demo_env :: env where
  "demo_env = \<lparr>e_os = \<lparr>exec = \<lambda>n argv d tm fs. (Exited [] [] 0, fs), os_error_text = \<lambda>s. s\<rparr>, e_now = \<lambda>n. ''t'', e_mono = int,
     e_uuid = \<lambda>n. ''id'', e_hash = flat_hash, e_diag = \<lambda>s. s\<rparr>"

definition demo_service :: service where
  "demo_service = \<lparr>s_env = demo_env, s_config = default_config\<lparr>workspace := (workspace default_config)\<lparr>ws_root := ''/ws''\<rparr>\<rparr>, s_model = mock_llm 0 [], s_decide = None,
     s_cancelled = \<lambda>i n. False\<rparr>"

definition demo_world :: world where
  "demo_world = \<lparr>os_fs = [([''ws''], Dir)], os_cwd = [''ws''], os_procs = 0, w_db = empty_db, w_ticks = 0, w_uuids = 0,
     w_polls = 0, w_llm = 0, w_asks = 0\<rparr>"

lemma demo_payload: "redact (dumps True (JObj [(''reason'', JStr (reason_value CANCELLED))])) None = ''{\"reason\": \"CANCELLED\"}''"
  by code_simp

lemma demo_load: "load_payload ''{\"reason\": \"CANCELLED\"}'' = Inr (JObj [(''reason'', JStr ''CANCELLED'')])"
  by code_simp

lemma demo_valid: "validate_workspace [([''ws''], Dir)] [''ws''] ''/ws'' ''/ws'' = Inr ()"
proof -
  have "names_ok [''ws'']" "NUL \<notin> set ''/ws''" by (simp_all add: names_ok_def name_ok_def)
  moreover have "realpath_segs [([''ws''], Dir)] [''ws''] ''/ws'' = [''ws'']" by code_simp
  ultimately show ?thesis by (simp add: validate_workspace_exact)
qed

lemma demo_run:
  assumes "h_cancel h = Some (\<lambda>n. True)" and "h_limits h = limits_of default_config" and "e_mono E = int"
  shows "run E h d w = (Inr CANCELLED, audit_term E h \<lparr>step = 0, consecutive_failures = 0, invalid_actions = 0, no_progress_hits = 0\<rparr>
    CANCELLED (w\<lparr>w_ticks := Suc (Suc (w_ticks w)), w_polls := Suc (w_polls w)\<rparr>))"
proof -
  have "decide_termination \<lparr>step = 0, consecutive_failures = 0, invalid_actions = 0, no_progress_hits = 0\<rparr> (limits_of default_config) 1 = None"
    by (simp add: decide_None default_config_def default_limits_def)
  then show ?thesis
    using assms by (simp add: run_def new_tracker_def default_config_def default_limits_def read_mono_def loop.simps [of _ _ _ _ _ "w\<lparr>w_ticks := _\<rparr>"]
        turn_def poll_cancel_def stop_with_def Let_def)
qed

lemma demo_sels: "s_env demo_service = demo_env" "e_hash demo_env = flat_hash" "e_uuid demo_env n = ''id''" "e_now demo_env n = ''t''"
  "e_mono demo_env = int" "os_fs demo_world = [([''ws''], Dir)]" "os_cwd demo_world = [''ws'']" "w_db demo_world = empty_db"
  "base_of (s_config demo_service) = ''/ws''" "limits_of (s_config demo_service) = limits_of default_config"
  "w_uuids demo_world = 0" "w_ticks demo_world = 0"
  by (simp_all add: demo_service_def demo_env_def demo_world_def base_of_def default_config_def)

lemma demo_created: "fst (create_task demo_service ''/ws'' ''task'' True demo_world) = Inr ''id'' \<and>
    length (audit_events (w_db (snd (create_task demo_service ''/ws'' ''task'' True demo_world)))) = 1"
  by (simp add: create_task_def create_task_with_def run_inline_def run_harness_def demo_sels demo_valid read_uuid_def read_now_def on_db_def task_insert_def
       andThen_def empty_db_def demo_run finish_task_def project_steps_def audit_term_def audit_def audit_append_def task_events_def
       demo_payload [simplified] demo_load note_event_def event_str_def task_update_state_def Let_def ret_def)
lemma demo_task: "create_task demo_service ''/ws'' ''task'' True demo_world =
    (Inr ''id'', snd (create_task demo_service ''/ws'' ''task'' True demo_world))"
  using demo_created by (cases "create_task demo_service ''/ws'' ''task'' True demo_world") simp

lemma demo_limit: "0 \<le> no_progress_repeat_limit (limits_of (s_config demo_service))"
  by (simp add: demo_sels default_config_def default_limits_def)

theorem create_task_outcome_witness:
  "\<exists>row r. get_task ''id'' (snd (create_task demo_service ''/ws'' ''task'' True demo_world)) = Inr row \<and>
     tk_workspace_path row = ''/ws'' \<and> tk_state row = termination_to_state r"
  using create_task_outcome [OF demo_task] by blast

theorem create_task_audit_witness:
  "\<exists>row r ts ps. get_task ''id'' (snd (create_task demo_service ''/ws'' ''task'' True demo_world)) = Inr row \<and>
     tk_termination_reason row = Some (reason_value r) \<and>
     map row_view (task_events ''id'' (w_db (snd (create_task demo_service ''/ws'' ''task'' True demo_world)))) =
       map event_view (concat ts @ ps @ [term_event r])"
proof -
  have "chain_ok (e_hash (s_env demo_service)) (w_db demo_world)" "task_events ''id'' (w_db demo_world) = []"
    by (simp_all add: demo_sels chain_ok_empty) (simp add: task_events_def empty_db_def)
  from create_task_audit [OF demo_task this demo_limit] show ?thesis by blast
qed

theorem create_task_calls_witness:
  "w_llm (snd (create_task demo_service ''/ws'' ''task'' True demo_world)) \<le> w_llm demo_world +
     nat (llm_max_retries (limits_of (s_config demo_service))) *
     (nat (max_steps (limits_of (s_config demo_service))) * nat (action_retry_limit (limits_of (s_config demo_service))))"
  by (rule create_task_calls [OF demo_task])

theorem steps_never_projected_witness:
  "steps (w_db (snd (create_task demo_service ''/ws'' ''task'' True demo_world))) = [] \<and>
   length (audit_events (w_db (snd (create_task demo_service ''/ws'' ''task'' True demo_world)))) = 1"
proof -
  have "events_typed (w_db demo_world)" by (simp add: demo_sels)
  from steps_never_projected [OF demo_task this]
  have "steps (w_db (snd (create_task demo_service ''/ws'' ''task'' True demo_world))) = []"
    by (simp add: demo_sels empty_db_def)
  then show ?thesis using demo_created by simp
qed

section \<open>The answer to an approval\<close>

text \<open>
  The synchronous resolver fails closed and leaves no open question: it approves exactly when a
  decision function is configured and says yes, never changes the action, and the row it inserted
  for the fingerprint of the action is terminal in the state of the answer.
\<close>

theorem sync_resolver_decides:
  assumes "sync_resolver S i a v w = (Inr (b, a'), w')"
  shows "a' = a \<and> (b \<longleftrightarrow> (\<exists>f. s_decide S = Some f \<and> f (e_uuid (s_env S) (w_uuids w)) = Inr True)) \<and>
     (\<exists>row. approval_get (e_uuid (s_env S) (w_uuids w)) (w_db w') = Inr row \<and> ap_task_id row = i \<and>
        ap_action_fingerprint row = fingerprint (e_hash (s_env S)) a \<and>
        ap_state row = (if b then ''APPROVED'' else ''REJECTED''))"
proof -
  let ?E = "s_env S" and ?u = "e_uuid (s_env S) (w_uuids w)"
  obtain x db where ins: "approval_insert ?u (e_now ?E (w_ticks w)) i (latest_action_step_index i (w_db w)) (snapshot_json a)
      (fingerprint (e_hash ?E) a) (decision_value (v_decision v)) (rule_id v) (v_reason v) (v_reason v) (w_db w) = (x, db)" by fastforce
  with assms obtain j where j: "x = Inr j"
    by (cases x) (auto simp: sync_resolver_def insert_request_def read_uuid_def read_now_def on_db_def andThen_def)
  note got = approval_insert_get [OF ins [unfolded j]]
  from got(1) have ju: "j = ?u" .
  from got(2) obtain row where row: "approval_get ?u db = Inr row" "ap_task_id row = i"
    "ap_action_fingerprint row = fingerprint (e_hash ?E) a" unfolding ju by blast
  define asked where "asked = (case s_decide S of None \<Rightarrow> Inr False | Some f \<Rightarrow> f ?u)"
  have dec: "(case s_decide S of None \<Rightarrow> ret False | Some f \<Rightarrow> lift_res (f ?u)) = (\<lambda>u :: world. (asked, u))"
    by (simp add: asked_def ret_def lift_res_def fun_eq_iff split: option.splits)
  define w1 where "w1 = w\<lparr>w_uuids := Suc (w_uuids w), w_ticks := Suc (w_ticks w), w_db := db\<rparr>"
  have "w_db w1 = db" by (simp add: w1_def)
  moreover have "sync_resolver S i a v w =
      (case asked of Inl e \<Rightarrow> (Inl e, w1)
       | Inr b \<Rightarrow> (Inr (b, a), set_request_state ?E ?u (state_of_decision b) ''service'' w1))"
    using ins unfolding j ju w1_def
    by (simp add: sync_resolver_def insert_request_def read_uuid_def read_now_def on_db_def andThen_def dec Let_def)
  ultimately have e: "asked = Inr b" "a' = a" "w_db w' = approval_update_state (e_now ?E (w_ticks w1)) ?u (state_of_decision b) ''service'' db"
    using assms by (auto simp: set_request_state_def read_now_def Let_def split: sum.splits)
  have b: "b \<longleftrightarrow> (\<exists>f. s_decide S = Some f \<and> f ?u = Inr True)"
    using e(1) by (cases b) (auto simp: asked_def split: option.splits)
  have "approval_get ?u (w_db w') = Inr (set_approval_state (e_now ?E (w_ticks w1)) (state_of_decision b) ''service'' row)"
    unfolding e(3) by (simp add: approval_get_update row(1))
  with row e b show ?thesis by (simp add: set_approval_state_def state_of_decision_def)
qed

definition demo_action :: action where
  "demo_action = \<lparr>tool_name = ''write_file'', arguments = [], thought = None, expectation = None\<rparr>"

theorem sync_resolver_decides_witness:
  "\<exists>row. approval_get ''id'' (w_db (snd (sync_resolver demo_service ''task'' demo_action
      (mk_verdict REQUIRE_APPROVAL ''r'' ''x'') demo_world))) = Inr row \<and> ap_state row = ''REJECTED''"
proof -
  let ?r = "sync_resolver demo_service ''task'' demo_action (mk_verdict REQUIRE_APPROVAL ''r'' ''x'') demo_world"
  have "fst ?r = Inr (False, demo_action)"
    by (simp add: sync_resolver_def insert_request_def on_db_def andThen_def approval_insert_def read_uuid_def read_now_def
        demo_service_def demo_world_def empty_db_def Let_def)
  then have "?r = (Inr (False, demo_action), snd ?r)" by (cases ?r) simp
  from sync_resolver_decides [OF this]
  have "\<exists>row. approval_get (e_uuid (s_env demo_service) (w_uuids demo_world)) (w_db (snd ?r)) = Inr row \<and> ap_state row = ''REJECTED''"
    by auto
  moreover have "e_uuid (s_env demo_service) (w_uuids demo_world) = ''id''"
    by (simp add: demo_service_def demo_env_def)
  ultimately show ?thesis by (simp only:)
qed

section \<open>The scripted model\<close>

text \<open>Several calls in a row\<close>

fun mock_calls :: "message list list \<Rightarrow> mock_state \<Rightarrow> string res list \<times> mock_state" where
  "mock_calls [] m = ([], m)"
| "mock_calls (msgs # rest) m =
     (let (r, m1) = mock_complete msgs m; (rs, m2) = mock_calls rest m1 in (r # rs, m2))"

text \<open>
  The scripted model that the loop is run with, a function of the number of the call, answers
  every sequence of calls as the object with its queue does, also after the script is used up, and
  the object remembers the messages of all calls in order.
\<close>

theorem mock_calls_stream:
  "mock_calls mss \<lparr>queue = script, received_messages = seen_msgs\<rparr> =
     (map (\<lambda>k. mock_llm base script (base + k) (mss ! k)) [0..<length mss],
      \<lparr>queue = drop (length mss) script, received_messages = seen_msgs @ mss\<rparr>)"
proof (induction mss arbitrary: script seen_msgs base)
  case (Cons ms mss)
  have idx: "map f [0..<length (ms # mss)] = f 0 # map (\<lambda>k. f (Suc k)) [0..<length mss]" for f :: "nat \<Rightarrow> string res"
    by (simp add: map_upt_Suc del: upt_Suc)
  have shift: "mock_llm base (tl script) (base + k) m = mock_llm base script (base + Suc k) m" for k m
    by (cases script) (simp_all add: mock_llm_def)
  have "mock_complete ms \<lparr>queue = script, received_messages = seen_msgs\<rparr> =
      (mock_llm base script (base + 0) ms, \<lparr>queue = tl script, received_messages = seen_msgs @ [ms]\<rparr>)"
    by (cases script) (simp_all add: mock_complete_def mock_llm_def)
  then show ?case
    unfolding mock_calls.simps idx by (simp add: Cons.IH [of _ _ base] shift drop_Suc)
qed simp

section \<open>How long a run takes\<close>

text \<open>
  C20: Every run returns, and soon: whatever the model, the tools and the human do, the loop is over
  after one turn more than the product of the two limits of its configuration.
\<close>

theorem run_returns:
  assumes "0 \<le> no_progress_repeat_limit (h_limits h)"
  shows "\<exists>r w'. run E h task w = (Inr r, w') \<and>
     turns (Suc (nat (max_steps (h_limits h)) * nat (action_retry_limit (h_limits h)))) E h task (e_mono E (w_ticks w))
       (first_state h) (w\<lparr>w_ticks := Suc (w_ticks w)\<rparr>) = Some (r, w')"
  using run_turns [OF assms, of "Suc (nat (max_steps (h_limits h)) * nat (action_retry_limit (h_limits h)))" E task w] by blast

theorem run_returns_witness:
  "\<exists>r w'. run demo_env (sync_harness demo_service ''id'' ''/ws'' True) ''task'' demo_world = (Inr r, w') \<and> r = CANCELLED"
proof -
  let ?h = "sync_harness demo_service ''id'' ''/ws'' True"
  have "0 \<le> no_progress_repeat_limit (h_limits ?h)" using demo_limit by simp
  from run_returns [OF this, of demo_env "''task''" demo_world] obtain r w' where "run demo_env ?h ''task'' demo_world = (Inr r, w')" by blast
  moreover have "fst (run demo_env ?h ''task'' demo_world) = Inr CANCELLED" by (simp add: demo_run demo_sels)
  ultimately show ?thesis by simp
qed

end
