(* ===== verification/Async_Approval.thy ===== *)
theory Async_Approval
  imports Service
begin

text \<open>
  The asynchronous approval protocol (src/aegiscode/service/app_service.py): harness threads that
  wait for an answer, request threads that call \<open>decide\<close>, one lock, one Event object per question.
  Each rule of the step relations is one statement of the code, or one block that the lock
  protects; threads interleave freely and a wait may time out at any moment, also when its Event
  was set just before.  Other tables of the database change at any time.

  The Event object number \<open>n\<close> belongs to the question with the identifier \<open>e_uuid E n\<close>.
\<close>

section \<open>State\<close>

record shared =
  sh_db :: database
  sh_lock :: "nat option"           \<comment> \<open>the thread in \<open>_approvals_lock\<close>\<close>
  sh_events :: "string \<rightharpoonup> nat"       \<comment> \<open>\<open>_approval_events\<close>\<close>
  sh_set :: "nat set"               \<comment> \<open>the Event objects that are set\<close>
  sh_next :: nat                    \<comment> \<open>questions so far\<close>
  sh_answers :: "(string \<times> bool) list" \<comment> \<open>all calls of \<open>decide\<close> that updated the table\<close>

datatype thread =
    Asking string action verdict        \<comment> \<open>about to ask for the task\<close>
  | Minted string action verdict nat    \<comment> \<open>identifier and Event are made\<close>
  | Registered string action verdict nat \<comment> \<open>in the lock, the Event is registered\<close>
  | Waiting nat
  | Expired nat                         \<comment> \<open>the wait timed out\<close>
  | Closing nat                         \<comment> \<open>the row is rejected, the Event still registered\<close>
  | Woken nat
  | Reading nat                         \<comment> \<open>about to read the row again\<close>
  | Answered nat bool
  | Raised exn
  | Deciding string bool
  | Updated string bool                 \<comment> \<open>in the lock, the row is updated\<close>
  | Setting "nat option"
  | Decided

section \<open>Steps\<close>

text \<open>The resolver of the asynchronous mode\<close>

inductive resolver_step :: "env \<Rightarrow> nat \<Rightarrow> thread \<times> shared \<Rightarrow> thread \<times> shared \<Rightarrow> bool" for E t where
  mint: "resolver_step E t (Asking i a v, s) (Minted i a v (sh_next s), s\<lparr>sh_next := Suc (sh_next s)\<rparr>)"
| register: "sh_lock s = None \<Longrightarrow>
    resolver_step E t (Minted i a v n, s)
      (Registered i a v n, s\<lparr>sh_lock := Some t, sh_events := (sh_events s)(e_uuid E n \<mapsto> n)\<rparr>)"
| insert: "approval_insert (e_uuid E n) now i (latest_action_step_index i (sh_db s)) (snapshot_json a)
      (fingerprint (e_hash E) a) (decision_value (v_decision v)) (rule_id v) (v_reason v) (v_reason v) (sh_db s) = (Inr x, db) \<Longrightarrow>
    resolver_step E t (Registered i a v n, s) (Waiting n, s\<lparr>sh_lock := None, sh_db := db\<rparr>)"
| insert_fails: "approval_insert (e_uuid E n) now i (latest_action_step_index i (sh_db s)) (snapshot_json a)
      (fingerprint (e_hash E) a) (decision_value (v_decision v)) (rule_id v) (v_reason v) (v_reason v) (sh_db s) = (Inl e, db) \<Longrightarrow>
    resolver_step E t (Registered i a v n, s) (Raised e, s\<lparr>sh_lock := None\<rparr>)"
| wake: "n \<in> sh_set s \<Longrightarrow> resolver_step E t (Waiting n, s) (Woken n, s)"
| expire: "resolver_step E t (Waiting n, s) (Expired n, s)"
| reject: "resolver_step E t (Expired n, s)
      (Closing n, s\<lparr>sh_db := approval_update_state now (e_uuid E n) ''REJECTED'' ''timeout'' (sh_db s)\<rparr>)"
| drop_expired: "sh_lock s = None \<Longrightarrow>
    resolver_step E t (Closing n, s) (Answered n False, s\<lparr>sh_events := (sh_events s)(e_uuid E n := None)\<rparr>)"
| drop_woken: "sh_lock s = None \<Longrightarrow>
    resolver_step E t (Woken n, s) (Reading n, s\<lparr>sh_events := (sh_events s)(e_uuid E n := None)\<rparr>)"
| read: "approval_get (e_uuid E n) (sh_db s) = Inr row \<Longrightarrow>
    resolver_step E t (Reading n, s) (Answered n (ap_state row = ''APPROVED''), s)"
| read_fails: "approval_get (e_uuid E n) (sh_db s) = Inl e \<Longrightarrow> resolver_step E t (Reading n, s) (Raised e, s)"

text \<open>\<open>decide\<close>\<close>

inductive decide_step :: "nat \<Rightarrow> thread \<times> shared \<Rightarrow> thread \<times> shared \<Rightarrow> bool" for t where
  update: "sh_lock s = None \<Longrightarrow>
    decide_step t (Deciding i b, s)
      (Updated i b, s\<lparr>sh_lock := Some t, sh_answers := sh_answers s @ [(i, b)],
         sh_db := approval_update_state now i (state_of_decision b) ''service'' (sh_db s)\<rparr>)"
| lookup: "decide_step t (Updated i b, s) (Setting (sh_events s i), s\<lparr>sh_lock := None\<rparr>)"
| set: "decide_step t (Setting (Some n), s) (Decided, s\<lparr>sh_set := insert n (sh_set s)\<rparr>)"
| nothing: "decide_step t (Setting None, s) (Decided, s)"

type_synonym async = "(nat \<rightharpoonup> thread) \<times> shared"

definition thread_step :: "env \<Rightarrow> nat \<Rightarrow> thread \<times> shared \<Rightarrow> thread \<times> shared \<Rightarrow> bool" where
  "thread_step E t x y \<longleftrightarrow> resolver_step E t x y \<or> decide_step t x y"

inductive async_step :: "env \<Rightarrow> async \<Rightarrow> async \<Rightarrow> bool" for E where
  run: "thr t = Some p \<Longrightarrow> thread_step E t (p, s) (p', s') \<Longrightarrow> async_step E (thr, s) (thr(t \<mapsto> p'), s')"
| ask: "thr t = None \<Longrightarrow> async_step E (thr, s) (thr(t \<mapsto> Asking i a v), s)"
| call: "thr t = None \<Longrightarrow> async_step E (thr, s) (thr(t \<mapsto> Deciding i b), s)"
| other: "approval_requests db = approval_requests (sh_db s) \<Longrightarrow> async_step E (thr, s) (thr, s\<lparr>sh_db := db\<rparr>)"

definition async_init :: "database \<Rightarrow> async" where
  "async_init db = (Map.empty, \<lparr>sh_db = db, sh_lock = None, sh_events = Map.empty, sh_set = {}, sh_next = 0, sh_answers = []\<rparr>)"

inductive async_reach :: "env \<Rightarrow> async \<Rightarrow> bool" for E where
  init: "\<forall>n. e_uuid E n \<notin> ap_id ` set (approval_requests db) \<Longrightarrow> async_reach E (async_init db)"
| step: "async_reach E c \<Longrightarrow> async_step E c c' \<Longrightarrow> async_reach E c'"

inductive_cases resolver_stepE [consumes 1]: "resolver_step E t (p, s) (p', s')"
inductive_cases decide_stepE [consumes 1]: "decide_step t (p, s) (p', s')"
inductive_cases async_stepE: "async_step E (thr, s) c'"

section \<open>What the steps do to a row\<close>

definition row_state :: "env \<Rightarrow> database \<Rightarrow> nat \<Rightarrow> string option" where
  "row_state E db n = (case approval_get (e_uuid E n) db of Inl _ \<Rightarrow> None | Inr r \<Rightarrow> Some (ap_state r))"

definition settled :: "env \<Rightarrow> database \<Rightarrow> nat \<Rightarrow> bool" where
  "settled E db n \<longleftrightarrow> (\<exists>x. row_state E db n = Some x \<and> x \<noteq> ''PENDING'')"

lemma find_key: "find (\<lambda>r. f r = k) rows = None \<longleftrightarrow> k \<notin> f ` set rows"
  by (induction rows) auto

lemma row_state_None: "row_state E db n = None \<longleftrightarrow> e_uuid E n \<notin> ap_id ` set (approval_requests db)"
  unfolding find_key [symmetric] by (simp add: row_state_def approval_get_def split: option.splits)

lemma row_state_cong: "approval_requests db = approval_requests db' \<Longrightarrow> row_state E db n = row_state E db' n"
  by (simp add: row_state_def approval_get_def)

lemma row_state_update:
  "row_state E (approval_update_state now i x by_whom db) n =
     (if e_uuid E n = i then map_option (\<lambda>_. x) (row_state E db n) else row_state E db n)"
  by (simp add: row_state_def approval_get_update set_approval_state_def split: sum.splits)

lemma row_state_insert:
  assumes "approval_insert (e_uuid E n) now t st snap fp dec rl rsn risk db = (Inr x, db')" and "inj (e_uuid E)"
  shows "\<forall>m. row_state E db' m = (if m = n then Some ''PENDING'' else row_state E db m)"
  using assms
  by (auto simp: row_state_def approval_get_def approval_insert_def approval_rows.find_inserted approval_rows.find_kept
      inj_eq split: if_splits)

lemma insert_error: "approval_insert (e_uuid E n) now t st snap fp dec rl rsn risk db = (Inl e, db') \<Longrightarrow> row_state E db n \<noteq> None"
  by (auto simp: row_state_None approval_insert_def split: if_splits)

section \<open>The invariant\<close>

fun question :: "thread \<Rightarrow> nat option" where
  "question (Minted i a v n) = Some n"
| "question (Registered i a v n) = Some n"
| "question (Waiting n) = Some n"
| "question (Expired n) = Some n"
| "question (Closing n) = Some n"
| "question (Woken n) = Some n"
| "question (Reading n) = Some n"
| "question (Answered n b) = Some n"
| "question _ = None"

fun in_lock :: "thread \<Rightarrow> bool" where
  "in_lock (Registered i a v n) = True"
| "in_lock (Updated i b) = True"
| "in_lock _ = False"

text \<open>What a thread relies on\<close>

fun thread_ok :: "env \<Rightarrow> shared \<Rightarrow> thread \<Rightarrow> bool" where
  "thread_ok E s (Minted i a v n) = (row_state E (sh_db s) n = None)"
| "thread_ok E s (Registered i a v n) = (row_state E (sh_db s) n = None \<and> sh_events s (e_uuid E n) = Some n)"
| "thread_ok E s (Waiting n) = (row_state E (sh_db s) n \<noteq> None \<and> sh_events s (e_uuid E n) = Some n)"
| "thread_ok E s (Expired n) = (row_state E (sh_db s) n \<noteq> None)"
| "thread_ok E s (Closing n) = settled E (sh_db s) n"
| "thread_ok E s (Woken n) = settled E (sh_db s) n"
| "thread_ok E s (Reading n) = settled E (sh_db s) n"
| "thread_ok E s (Answered n b) = (settled E (sh_db s) n \<and> (b \<longrightarrow> (e_uuid E n, True) \<in> set (sh_answers s)))"
| "thread_ok E s (Raised e) = False"
| "thread_ok E s (Updated i b) = (\<forall>n. i = e_uuid E n \<longrightarrow> row_state E (sh_db s) n \<noteq> Some ''PENDING'')"
| "thread_ok E s (Setting (Some n)) = settled E (sh_db s) n"
| "thread_ok E s _ = True"

definition asks :: "(nat \<rightharpoonup> thread) \<Rightarrow> nat \<Rightarrow> nat option" where
  "asks thr t = (case thr t of None \<Rightarrow> None | Some p \<Rightarrow> question p)"

definition owners_ok :: "async \<Rightarrow> bool" where
  "owners_ok c \<longleftrightarrow> (\<forall>t n. asks (fst c) t = Some n \<longrightarrow> n < sh_next (snd c) \<and> (\<forall>t'. asks (fst c) t' = Some n \<longrightarrow> t' = t))"

definition lock_ok :: "async \<Rightarrow> bool" where
  "lock_ok c \<longleftrightarrow> (\<forall>t. sh_lock (snd c) = Some t \<longleftrightarrow> (\<exists>p. fst c t = Some p \<and> in_lock p))"

definition table_ok :: "env \<Rightarrow> async \<Rightarrow> bool" where
  "table_ok E c \<longleftrightarrow>
     (\<forall>n. sh_next (snd c) \<le> n \<longrightarrow> row_state E (sh_db (snd c)) n = None) \<and>
     (\<forall>i n. sh_events (snd c) i = Some n \<longrightarrow> i = e_uuid E n \<and>
        (row_state E (sh_db (snd c)) n = None \<longrightarrow> (\<exists>t i a v. fst c t = Some (Registered i a v n)))) \<and>
     (\<forall>n \<in> sh_set (snd c). settled E (sh_db (snd c)) n) \<and>
     (\<forall>n. row_state E (sh_db (snd c)) n = Some ''APPROVED'' \<longrightarrow> (e_uuid E n, True) \<in> set (sh_answers (snd c)))"

definition threads_ok :: "env \<Rightarrow> async \<Rightarrow> bool" where
  "threads_ok E c \<longleftrightarrow> (\<forall>t p. fst c t = Some p \<longrightarrow> thread_ok E (snd c) p)"

definition wakeups_ok :: "env \<Rightarrow> async \<Rightarrow> bool" where
  "wakeups_ok E c \<longleftrightarrow> (\<forall>t n. fst c t = Some (Waiting n) \<longrightarrow> settled E (sh_db (snd c)) n \<longrightarrow>
     n \<in> sh_set (snd c) \<or> (\<exists>t' p. fst c t' = Some p \<and> (p = Setting (Some n) \<or> (\<exists>b. p = Updated (e_uuid E n) b))))"

lemma thread_stepE:
  assumes "thread_step E t (p, s) (p', s')"
  obtains "resolver_step E t (p, s) (p', s')" | "decide_step t (p, s) (p', s')"
  using assms by (auto simp: thread_step_def)

lemma asks_upd: "asks (thr(t \<mapsto> p)) t1 = (if t1 = t then question p else asks thr t1)"
  by (simp add: asks_def)

lemma asks_thread: "thr t = Some p \<Longrightarrow> asks thr t = question p"
  by (simp add: asks_def)

lemma owners_upd:
  assumes "owners_ok (thr, s)" and "sh_next s \<le> sh_next s'"
    and "question p = None \<or> question p = Some (sh_next s) \<and> sh_next s < sh_next s' \<or> question p = asks thr t"
  shows "owners_ok (thr(t \<mapsto> p), s')"
proof -
  have o: "n < sh_next s" "t2 = t1" if "asks thr t1 = Some n" "asks thr t2 = Some n" for t1 t2 n
    using assms(1) that by (auto simp: owners_ok_def)
  from assms(3) show ?thesis
  proof (elim disjE conjE)
    assume "question p = None"
    then show ?thesis using o assms(2) by (auto simp: owners_ok_def asks_upd intro: less_le_trans)
  next
    assume "question p = Some (sh_next s)" "sh_next s < sh_next s'"
    then show ?thesis using o by (auto simp: owners_ok_def asks_upd intro: less_trans)
  next
    assume "question p = asks thr t"
    then show ?thesis using o assms(2) by (auto simp: owners_ok_def asks_upd intro: less_le_trans)
  qed
qed

lemma step_question:
  assumes "thread_step E t (p, s) (p', s')"
  shows "sh_next s \<le> sh_next s' \<and> (question p' = None \<or> question p' = Some (sh_next s) \<and> sh_next s < sh_next s' \<or> question p' = question p)"
  using assms by (elim thread_stepE; elim resolver_stepE decide_stepE) auto

lemma owners_step: "async_step E c c' \<Longrightarrow> owners_ok c \<Longrightarrow> owners_ok c'"
proof (induction rule: async_step.induct)
  case (run thr t p s p' s')
  then show ?case using step_question [OF run(2)] by (intro owners_upd) (auto simp: asks_def)
next
  case (ask thr t s i a v)
  then show ?case by (intro owners_upd) auto
next
  case (call thr t s i b)
  then show ?case by (intro owners_upd) auto
next
  case (other db s thr)
  then show ?case by (simp add: owners_ok_def asks_def)
qed

lemma step_lock:
  assumes "thread_step E t (p, s) (p', s')"
  shows "in_lock p = in_lock p' \<and> \<not> in_lock p \<and> sh_lock s' = sh_lock s \<or>
    \<not> in_lock p \<and> in_lock p' \<and> sh_lock s = None \<and> sh_lock s' = Some t \<or> in_lock p \<and> \<not> in_lock p' \<and> sh_lock s' = None"
  using assms by (elim thread_stepE; elim resolver_stepE decide_stepE) auto

lemma lock_step: "async_step E c c' \<Longrightarrow> lock_ok c \<Longrightarrow> lock_ok c'"
proof (induction rule: async_step.induct)
  case (run thr t p s p' s')
  have l: "sh_lock s = Some t1 \<longleftrightarrow> (\<exists>p. thr t1 = Some p \<and> in_lock p)" for t1 using run(3) by (simp add: lock_ok_def)
  from step_lock [OF run(2)] show ?case
  proof (elim disjE conjE)
    assume "in_lock p" "\<not> in_lock p'" "sh_lock s' = None"
    then show ?thesis using l [of t] l run(1) by (auto simp: lock_ok_def) (metis option.inject)
  qed (use l run(1) in \<open>auto simp: lock_ok_def\<close>)
next
  case (ask thr t s i a v)
  then show ?case by (auto simp: lock_ok_def)
next
  case (call thr t s i b)
  then show ?case by (auto simp: lock_ok_def)
qed (simp add: lock_ok_def)

text \<open>What a step may change for the other threads\<close>

definition effect :: "env \<Rightarrow> thread \<Rightarrow> shared \<Rightarrow> shared \<Rightarrow> bool" where
  "effect E p s s' \<longleftrightarrow> (\<forall>n.
     (row_state E (sh_db s) n = None \<longrightarrow> question p \<noteq> Some n \<longrightarrow> row_state E (sh_db s') n = None) \<and>
     (row_state E (sh_db s) n \<noteq> None \<longrightarrow> row_state E (sh_db s') n \<noteq> None) \<and>
     (settled E (sh_db s) n \<longrightarrow> settled E (sh_db s') n) \<and>
     (row_state E (sh_db s) n \<noteq> Some ''PENDING'' \<longrightarrow> \<not> in_lock p \<longrightarrow> row_state E (sh_db s') n \<noteq> Some ''PENDING'') \<and>
     (question p \<noteq> Some n \<longrightarrow> sh_events s (e_uuid E n) = Some n \<longrightarrow> sh_events s' (e_uuid E n) = Some n)) \<and>
   set (sh_answers s) \<subseteq> set (sh_answers s')"

lemma settled_update: "settled E db n \<Longrightarrow> x \<noteq> ''PENDING'' \<Longrightarrow> settled E (approval_update_state now i x by_whom db) n"
  by (auto simp: settled_def row_state_update)

lemma settled_None: "settled E db n \<Longrightarrow> row_state E db n \<noteq> None"
  by (auto simp: settled_def)

lemma state_of_decision_not_pending [simp]: "state_of_decision b \<noteq> ''PENDING''"
  by (simp add: state_of_decision_def)

lemma effect_step:
  assumes "thread_step E t (p, s) (p', s')" and "inj (e_uuid E)" and "thread_ok E s p"
  shows "effect E p s s'"
  using assms(1)
proof (rule thread_stepE)
  assume "resolver_step E t (p, s) (p', s')"
  then show ?thesis using assms(2,3)
    by (elim resolver_stepE)
      (auto simp: effect_def inj_eq row_state_update settled_update settled_def dest: insert_error
        dest!: row_state_insert [OF _ assms(2)])
next
  assume "decide_step t (p, s) (p', s')"
  then show ?thesis
    by (elim decide_stepE) (auto simp: effect_def row_state_update settled_update)
qed

lemma thread_ok_stable:
  assumes "effect E p s s'" and "thread_ok E s q" and "question q = None \<or> question q \<noteq> question p" and "\<not> (in_lock p \<and> in_lock q)"
  shows "thread_ok E s' q"
proof (cases q)
  case (Setting x)
  with assms show ?thesis by (cases x) (auto simp: effect_def)
qed (use assms in \<open>auto simp: effect_def\<close>)

text \<open>What the thread itself needs after its step\<close>

lemma own_thread_ok:
  assumes "thread_step E t (p, s) (p', s')" and "inj (e_uuid E)" and "thread_ok E s p"
    and "row_state E (sh_db s) (sh_next s) = None"
    and "\<And>n. n \<in> sh_set s \<Longrightarrow> settled E (sh_db s) n"
    and "\<And>n. row_state E (sh_db s) n = Some ''APPROVED'' \<Longrightarrow> (e_uuid E n, True) \<in> set (sh_answers s)"
    and "\<And>i n b. p = Updated i b \<Longrightarrow> sh_events s i = Some n \<Longrightarrow> i = e_uuid E n \<and> row_state E (sh_db s) n \<noteq> None"
  shows "thread_ok E s' p'"
  using assms(1)
proof (rule thread_stepE)
  assume "resolver_step E t (p, s) (p', s')"
  then show ?thesis
  proof (cases rule: resolver_step.cases)
    case (read n row)
    then have "row_state E (sh_db s) n = Some (ap_state row)" by (simp add: row_state_def)
    then show ?thesis using read assms(3,6) by auto
  next
    case (read_fails n e)
    then have "row_state E (sh_db s) n = None" by (simp add: row_state_def)
    then show ?thesis using read_fails assms(3) by (simp add: settled_def)
  next
    case (insert n now i a v x db)
    then show ?thesis using assms(3) row_state_insert [OF insert(4) assms(2)] by simp
  next
    case (insert_fails n now i a v e db)
    then show ?thesis using assms(3) insert_error [OF insert_fails(4)] by simp
  next
    case (reject n now)
    then show ?thesis using assms(3) by (auto simp: settled_def row_state_update)
  qed (use assms(3,4,5) in auto)
next
  assume "decide_step t (p, s) (p', s')"
  then show ?thesis
  proof (cases rule: decide_step.cases)
    case (lookup i b)
    then show ?thesis using assms(3) assms(7) [OF lookup(1)]
      by (cases "sh_events s i") (auto simp: settled_def)
  qed (auto simp: row_state_update)
qed

definition inv :: "env \<Rightarrow> async \<Rightarrow> bool" where
  "inv E c \<longleftrightarrow> owners_ok c \<and> lock_ok c \<and> table_ok E c \<and> threads_ok E c \<and> wakeups_ok E c"

lemma exclusive: "lock_ok (thr, s) \<Longrightarrow> thr t = Some p \<Longrightarrow> thr t1 = Some q \<Longrightarrow> in_lock p \<Longrightarrow> in_lock q \<Longrightarrow> t1 = t"
  unfolding lock_ok_def fst_conv snd_conv by (metis option.inject)

lemma events_row: "table_ok E (thr, s) \<Longrightarrow> sh_events s i = Some n \<Longrightarrow>
    i = e_uuid E n \<and> (row_state E (sh_db s) n = None \<longrightarrow> (\<exists>t i a v. thr t = Some (Registered i a v n)))"
  by (simp add: table_ok_def)

lemma owner: "owners_ok (thr, s) \<Longrightarrow> thr t = Some p \<Longrightarrow> thr t1 = Some q \<Longrightarrow> question p = Some n \<Longrightarrow> question q = Some n \<Longrightarrow> t1 = t"
  by (simp add: owners_ok_def asks_def split: option.splits)

lemma owner_lt: "owners_ok (thr, s) \<Longrightarrow> thr t = Some p \<Longrightarrow> question p = Some n \<Longrightarrow> n < sh_next s"
  using asks_thread [of thr t p] by (simp add: owners_ok_def)

lemma threads_okD: "threads_ok E (thr, s) \<Longrightarrow> thr t = Some p \<Longrightarrow> thread_ok E s p"
  by (simp add: threads_ok_def)

lemma wakeups_okD: "wakeups_ok E (thr, s) \<Longrightarrow> thr t = Some (Waiting n) \<Longrightarrow> settled E (sh_db s) n \<Longrightarrow>
    n \<in> sh_set s \<or> (\<exists>t' p. thr t' = Some p \<and> (p = Setting (Some n) \<or> (\<exists>b. p = Updated (e_uuid E n) b)))"
  by (simp add: wakeups_ok_def)

lemma run_threads:
  assumes "inv E (thr, s)" and "thr t = Some p" and "thread_step E t (p, s) (p', s')" and "inj (e_uuid E)"
  shows "threads_ok E (thr(t \<mapsto> p'), s')"
proof -
  note i = assms(1) [unfolded inv_def]
  have p: "thread_ok E s p" using i assms(2) by (simp add: threads_ok_def)
  note e = effect_step [OF assms(3,4) p]
  have "thread_ok E s' p'"
  proof (rule own_thread_ok [OF assms(3,4) p])
    fix i n b assume u: "p = Updated i b" "sh_events s i = Some n"
    then have "\<not> (\<exists>t i a v. thr t = Some (Registered i a v n))"
      using exclusive [of thr s t p] i assms(2) by fastforce
    with events_row [OF _ u(2), of E thr] i show "i = e_uuid E n \<and> row_state E (sh_db s) n \<noteq> None" by blast
  qed (use i in \<open>auto simp: table_ok_def\<close>)
  moreover have "thread_ok E s' q" if "t1 \<noteq> t" "thr t1 = Some q" for t1 q
  proof (rule thread_ok_stable [OF e])
    show "thread_ok E s q" using i that by (simp add: threads_ok_def)
    show "question q = None \<or> question q \<noteq> question p" using owner [of thr s t p t1 q] i assms(2) that by fastforce
    show "\<not> (in_lock p \<and> in_lock q)" using exclusive [of thr s t p t1 q] i assms(2) that by auto
  qed
  ultimately show ?thesis by (simp add: threads_ok_def)
qed

lemma run_table:
  assumes "inv E (thr, s)" and "thr t = Some p" and "thread_step E t (p, s) (p', s')" and "inj (e_uuid E)"
  shows "table_ok E (thr(t \<mapsto> p'), s')"
proof -
  note i = assms(1) [unfolded inv_def]
  have p: "thread_ok E s p" using i assms(2) by (simp add: threads_ok_def)
  have p': "thread_ok E s' p'" using threads_okD [OF run_threads [OF assms], of t p'] by simp
  have e: "(row_state E (sh_db s) n = None \<longrightarrow> question p \<noteq> Some n \<longrightarrow> row_state E (sh_db s') n = None)"
     "row_state E (sh_db s) n \<noteq> None \<longrightarrow> row_state E (sh_db s') n \<noteq> None"
     "settled E (sh_db s) n \<longrightarrow> settled E (sh_db s') n" "set (sh_answers s) \<subseteq> set (sh_answers s')" for n
    using effect_step [OF assms(3,4) p] by (simp_all add: effect_def)
  have fresh: "row_state E (sh_db s') n = None" if "sh_next s' \<le> n" for n
  proof -
    have "sh_next s \<le> n" using step_question [OF assms(3)] that by simp
    moreover from this have "question p \<noteq> Some n" using owner_lt [of thr s t p n] i assms(2) by auto
    ultimately show ?thesis using e(1) [of n] i by (simp add: table_ok_def)
  qed
  have events: "k = e_uuid E n \<and> (row_state E (sh_db s') n = None \<longrightarrow> (\<exists>t1 i a v. (thr(t \<mapsto> p')) t1 = Some (Registered i a v n)))"
    if k: "sh_events s' k = Some n" for k n
  proof -
    have "sh_events s k = Some n \<or> k = e_uuid E n \<and> (\<exists>i a v. p' = Registered i a v n)"
      using assms(3) k by (elim thread_stepE; elim resolver_stepE decide_stepE) (auto split: if_splits)
    then show ?thesis
    proof (elim disjE conjE exE)
      assume k0: "sh_events s k = Some n"
      note ev = events_row [OF _ k0, of E thr]
      have "\<exists>t1 i a v. (thr(t \<mapsto> p')) t1 = Some (Registered i a v n)" if none: "row_state E (sh_db s') n = None"
      proof -
        from none e(2) ev i obtain t1 i1 a v where t1: "thr t1 = Some (Registered i1 a v n)" by blast
        have "t1 \<noteq> t"
        proof
          assume "t1 = t"
          with t1 assms(2) have pr: "p = Registered i1 a v n" by simp
          with assms(3) p p' none show False
            by (elim thread_stepE; elim resolver_stepE decide_stepE) auto
        qed
        with t1 show ?thesis by (intro exI [of _ t1]) simp
      qed
      with ev i show ?thesis by blast
    next
      fix i a v assume "k = e_uuid E n" "p' = Registered i a v n"
      then show ?thesis by (intro conjI impI exI [of _ t]) auto
    qed
  qed
  have sets: "settled E (sh_db s') n" if "n \<in> sh_set s'" for n
  proof -
    have "n \<in> sh_set s \<or> p = Setting (Some n)"
      using assms(3) that by (elim thread_stepE; elim resolver_stepE decide_stepE) auto
    then show ?thesis using i p e(3) by (auto simp: table_ok_def)
  qed
  have approved: "(e_uuid E n, True) \<in> set (sh_answers s')" if a: "row_state E (sh_db s') n = Some ''APPROVED''" for n
  proof -
    have "row_state E (sh_db s) n = Some ''APPROVED'' \<or> (e_uuid E n, True) \<in> set (sh_answers s')"
      using assms(3)
    proof (rule thread_stepE)
      assume "resolver_step E t (p, s) (p', s')"
      then show ?thesis
      proof (cases rule: resolver_step.cases)
        case (insert m now i a v x db)
        then show ?thesis using a row_state_insert [OF insert(4) assms(4)] by (auto split: if_splits)
      qed (use a in \<open>auto simp: row_state_update split: if_splits\<close>)
    next
      assume "decide_step t (p, s) (p', s')"
      then show ?thesis
      proof (cases rule: decide_step.cases)
        case (update k b now)
        then show ?thesis using a by (auto simp: row_state_update state_of_decision_def split: if_splits)
      qed (use a in auto)
    qed
    then show ?thesis using i e(4) by (auto simp: table_ok_def)
  qed
  show ?thesis using fresh events sets approved by (auto simp: table_ok_def)
qed

lemma run_wakeups:
  assumes "inv E (thr, s)" and "thr t = Some p" and "thread_step E t (p, s) (p', s')" and "inj (e_uuid E)"
  shows "wakeups_ok E (thr(t \<mapsto> p'), s')"
  unfolding wakeups_ok_def
proof (intro allI impI)
  fix t1 n assume w: "fst (thr(t \<mapsto> p'), s') t1 = Some (Waiting n)" and "settled E (sh_db (snd (thr(t \<mapsto> p'), s'))) n"
  then have st: "settled E (sh_db s') n" by simp
  note i = assms(1) [unfolded inv_def]
  have p: "thread_ok E s p" using i assms(2) by (simp add: threads_ok_def)
  have "t1 \<noteq> t"
  proof
    assume "t1 = t"
    with w have "p' = Waiting n" by simp
    with assms(3) have "resolver_step E t (p, s) (Waiting n, s')" by (auto simp: thread_step_def elim: decide_stepE)
    then show False
    proof (cases rule: resolver_step.cases)
      case (insert now i a v x db)
      then show False using st row_state_insert [OF insert(3) assms(4)] by (simp add: settled_def)
    qed
  qed
  with w have w0: "thr t1 = Some (Waiting n)" by simp
  then have reg: "sh_events s (e_uuid E n) = Some n" using i by (fastforce simp: threads_ok_def)
  show "n \<in> sh_set (snd (thr(t \<mapsto> p'), s')) \<or>
      (\<exists>t' q. fst (thr(t \<mapsto> p'), s') t' = Some q \<and> (q = Setting (Some n) \<or> (\<exists>b. q = Updated (e_uuid E n) b)))"
  proof (cases "settled E (sh_db s) n")
    case True
    with i w0 consider "n \<in> sh_set s"
      | t2 q where "thr t2 = Some q" "q = Setting (Some n) \<or> (\<exists>b. q = Updated (e_uuid E n) b)"
      using wakeups_okD [of E thr s t1 n] by blast
    then show ?thesis
    proof cases
      case 1
      then have "n \<in> sh_set s'" using assms(3) by (elim thread_stepE; elim resolver_stepE decide_stepE) auto
      then show ?thesis by simp
    next
      case 2
      show ?thesis
      proof (cases "t2 = t")
        case False
        with 2 show ?thesis by (intro disjI2 exI [of _ t2]) auto
      next
        case True
        with 2 assms(2,3) reg have "n \<in> sh_set s' \<or> p' = Setting (Some n)"
          by (elim thread_stepE; elim resolver_stepE decide_stepE) auto
        then show ?thesis by auto
      qed
    qed
  next
    case False
    have "\<exists>b. p' = Updated (e_uuid E n) b"
      using assms(3)
    proof (rule thread_stepE)
      assume "resolver_step E t (p, s) (p', s')"
      then show ?thesis
      proof (cases rule: resolver_step.cases)
        case (insert m now i a v x db)
        then show ?thesis using False st row_state_insert [OF insert(4) assms(4)] by (auto simp: settled_def split: if_splits)
      next
        case (reject m now)
        then have "m \<noteq> n" using owner [of thr s t p t1 "Waiting n" n] i assms(2) w0 \<open>t1 \<noteq> t\<close> by auto
        then show ?thesis using reject False st assms(4) by (auto simp: settled_def row_state_update inj_eq)
      qed (use False st in auto)
    next
      assume "decide_step t (p, s) (p', s')"
      then show ?thesis
      proof (cases rule: decide_step.cases)
        case (update k b now)
        then show ?thesis using False st by (auto simp: settled_def row_state_update split: if_splits)
      qed (use False st in auto)
    qed
    then show ?thesis by (intro disjI2 exI [of _ t]) auto
  qed
qed

lemma thread_ok_other:
  assumes "thread_ok E s q" and "approval_requests db = approval_requests (sh_db s)"
  shows "thread_ok E (s\<lparr>sh_db := db\<rparr>) q"
proof -
  have "row_state E db = row_state E (sh_db s)" "settled E db = settled E (sh_db s)"
    using row_state_cong [OF assms(2)] by (simp_all add: fun_eq_iff settled_def)
  with assms(1) show ?thesis
  proof (cases q)
    case (Setting x)
    then show ?thesis using assms(1) \<open>settled E db = _\<close> by (cases x) auto
  qed simp_all
qed

lemma inv_start_thread:
  assumes "inv E (thr, s)" and "thr t = None" and "question p = None" and "\<not> in_lock p" and "thread_ok E s p" and "\<forall>n. p \<noteq> Waiting n"
    and "async_step E (thr, s) (thr(t \<mapsto> p), s)"
  shows "inv E (thr(t \<mapsto> p), s)"
  unfolding inv_def
proof (intro conjI)
  note i = assms(1) [unfolded inv_def]
  show "owners_ok (thr(t \<mapsto> p), s)" "lock_ok (thr(t \<mapsto> p), s)"
    using owners_step [OF assms(7)] lock_step [OF assms(7)] i by simp_all
  show "threads_ok E (thr(t \<mapsto> p), s)" using i assms(5) by (simp add: threads_ok_def)
  have reg: "\<exists>t1 i a v. (thr(t \<mapsto> p)) t1 = Some (Registered i a v n)" if "\<exists>t1 i a v. thr t1 = Some (Registered i a v n)" for n
    using that assms(2) by (metis fun_upd_apply option.distinct(1))
  show "table_ok E (thr(t \<mapsto> p), s)"
    using i reg unfolding table_ok_def fst_conv snd_conv by blast
  show "wakeups_ok E (thr(t \<mapsto> p), s)"
    unfolding wakeups_ok_def
  proof (intro allI impI)
    fix t1 n assume w: "fst (thr(t \<mapsto> p), s) t1 = Some (Waiting n)" "settled E (sh_db (snd (thr(t \<mapsto> p), s))) n"
    with assms(6) have "thr t1 = Some (Waiting n)" "settled E (sh_db s) n" by (auto split: if_splits)
    with wakeups_okD [of E thr s t1 n] i consider "n \<in> sh_set s"
      | t2 q where "thr t2 = Some q" "q = Setting (Some n) \<or> (\<exists>b. q = Updated (e_uuid E n) b)" by blast
    then show "n \<in> sh_set (snd (thr(t \<mapsto> p), s)) \<or>
      (\<exists>t' q. fst (thr(t \<mapsto> p), s) t' = Some q \<and> (q = Setting (Some n) \<or> (\<exists>b. q = Updated (e_uuid E n) b)))"
    proof cases
      case (2 t2 q)
      with assms(2) have "t2 \<noteq> t" by auto
      with 2 show ?thesis by (intro disjI2 exI [of _ t2]) auto
    qed simp
  qed
qed

lemma inv_step:
  assumes "async_step E c c'" and "inv E c" and "inj (e_uuid E)"
  shows "inv E c'"
  using assms(1)
proof (cases rule: async_step.cases)
  case (run thr t p s p' s')
  have i: "inv E (thr, s)" using assms(2) run by simp
  have st: "async_step E (thr, s) (thr(t \<mapsto> p'), s')" using run(3,4) by (rule async_step.run)
  show ?thesis
    unfolding run(2) inv_def
    using owners_step [OF st] lock_step [OF st] i run_threads [OF i run(3,4) assms(3)] run_table [OF i run(3,4) assms(3)]
      run_wakeups [OF i run(3,4) assms(3)] by (simp add: inv_def)
next
  case (ask thr t s i a v)
  with assms(1,2) show ?thesis by (auto intro: inv_start_thread)
next
  case (call thr t s i b)
  with assms(1,2) show ?thesis by (auto intro: inv_start_thread)
next
  case (other db s thr)
  note i = assms(2) [unfolded other(1) inv_def]
  have r: "row_state E db = row_state E (sh_db s)" "settled E db = settled E (sh_db s)"
    using row_state_cong [OF other(3)] by (simp_all add: fun_eq_iff settled_def)
  show ?thesis
    using i r thread_ok_other [OF _ other(3)]
    unfolding other(2) inv_def by (simp add: owners_ok_def lock_ok_def table_ok_def threads_ok_def wakeups_ok_def)
qed

lemma inv_init: "\<forall>n. e_uuid E n \<notin> ap_id ` set (approval_requests db) \<Longrightarrow> inv E (async_init db)"
  by (simp add: inv_def async_init_def owners_ok_def asks_def lock_ok_def table_ok_def threads_ok_def wakeups_ok_def
      row_state_None [THEN iffD2])

lemma reach_inv: "async_reach E c \<Longrightarrow> inj (e_uuid E) \<Longrightarrow> inv E c"
  by (induction rule: async_reach.induct) (auto intro: inv_init inv_step)

section \<open>What the protocol guarantees\<close>

fun finished :: "thread \<Rightarrow> bool" where
  "finished (Answered n b) = True"
| "finished (Raised e) = True"
| "finished Decided = True"
| "finished _ = False"

lemma reach_run:
  assumes "async_reach E (thr, s)" and "thr t = Some p" and "thread_step E t (p, s) (p', s')"
  shows "async_reach E (thr(t \<mapsto> p'), s')"
proof -
  have "async_step E (thr, s) (thr(t \<mapsto> p'), s')" using assms(2,3) by (rule async_step.run)
  with assms(1) show ?thesis by (rule async_reach.step)
qed

text \<open>
  C24: An asynchronous approval fails closed: whatever the interleaving, a resolver answers yes only
  when \<open>decide\<close> was called with yes for its own question, and when it has answered its row is there
  and no longer pending.
\<close>

theorem async_answer:
  assumes "async_reach E c" and "inj (e_uuid E)" and "fst c t = Some (Answered n b)"
  shows "\<exists>row. approval_get (e_uuid E n) (sh_db (snd c)) = Inr row \<and> ap_state row \<noteq> ''PENDING'' \<and>
     (b \<longrightarrow> (e_uuid E n, True) \<in> set (sh_answers (snd c)))"
proof -
  have "thread_ok E (snd c) (Answered n b)"
    using threads_okD [of E "fst c" "snd c" t] reach_inv [OF assms(1,2)] assms(3) by (simp add: inv_def)
  then show ?thesis by (auto simp: settled_def row_state_def split: sum.splits)
qed

text \<open>
  C25: No wakeup is lost: when the row of a waiting resolver is decided and no \<open>decide\<close> is still on
  its way to the Event, the resolver can go on at once, without the timeout.
\<close>

theorem async_no_lost_wakeup:
  assumes "async_reach E c" and "inj (e_uuid E)" and "fst c t = Some (Waiting n)"
    and "approval_get (e_uuid E n) (sh_db (snd c)) = Inr row" and "ap_state row \<noteq> ''PENDING''"
    and "\<nexists>t' p. fst c t' = Some p \<and> (p = Setting (Some n) \<or> (\<exists>b. p = Updated (e_uuid E n) b))"
  shows "thread_step E t (Waiting n, snd c) (Woken n, snd c)"
proof -
  have "settled E (sh_db (snd c)) n" using assms(4,5) by (simp add: settled_def row_state_def)
  then have "n \<in> sh_set (snd c)"
    using wakeups_okD [of E "fst c" "snd c" t n] reach_inv [OF assms(1,2)] assms(3,6) by (simp add: inv_def)
  then show ?thesis by (simp add: thread_step_def resolver_step.wake)
qed

text \<open>
  C26: The protocol never deadlocks and no thread fails: a thread that is not finished can take a
  step, or the thread that holds the lock can.
\<close>

theorem async_progress:
  assumes "async_reach E (thr, s)" and "inj (e_uuid E)" and "thr t = Some p"
  shows "\<not> (\<exists>e. p = Raised e) \<and> (finished p \<or> (\<exists>t' q q' s'. thr t' = Some q \<and> (t' = t \<or> sh_lock s = Some t') \<and>
     thread_step E t' (q, s) (q', s')))"
proof -
  note i = reach_inv [OF assms(1,2), unfolded inv_def]
  have can: "\<exists>q' s'. thread_step E t1 (q, s) (q', s')" if "thr t1 = Some q" "\<not> finished q" "in_lock q \<or> sh_lock s = None" for t1 q
  proof (cases q)
    case (Asking i a v)
    show ?thesis unfolding Asking thread_step_def using resolver_step.mint [of E t1 i a v s] by blast
  next
    case (Minted i a v n)
    show ?thesis unfolding Minted thread_step_def using resolver_step.register [of s E t1 i a v n] that(3) Minted by auto
  next
    case (Registered i a v n)
    obtain y db where "approval_insert (e_uuid E n) [] i (latest_action_step_index i (sh_db s)) (snapshot_json a)
      (fingerprint (e_hash E) a) (decision_value (v_decision v)) (rule_id v) (v_reason v) (v_reason v) (sh_db s) = (y, db)" by fastforce
    then show ?thesis unfolding Registered thread_step_def
      using resolver_step.insert [of E n "[]" i s a v _ db t1] resolver_step.insert_fails [of E n "[]" i s a v _ db t1] by (cases y) blast+
  next
    case (Waiting n)
    show ?thesis unfolding Waiting thread_step_def using resolver_step.expire [of E t1 n s] by blast
  next
    case (Expired n)
    show ?thesis unfolding Expired thread_step_def using resolver_step.reject [of E t1 n s "[]"] by blast
  next
    case (Closing n)
    show ?thesis unfolding Closing thread_step_def using resolver_step.drop_expired [of s E t1 n] that(3) Closing by auto
  next
    case (Woken n)
    show ?thesis unfolding Woken thread_step_def using resolver_step.drop_woken [of s E t1 n] that(3) Woken by auto
  next
    case (Reading n)
    show ?thesis unfolding Reading thread_step_def
      using resolver_step.read [of E n s _ t1] resolver_step.read_fails [of E n s _ t1] by (cases "approval_get (e_uuid E n) (sh_db s)") blast+
  next
    case (Deciding i b)
    show ?thesis unfolding Deciding thread_step_def using decide_step.update [of s t1 i b "[]"] that(3) Deciding by auto
  next
    case (Updated i b)
    show ?thesis unfolding Updated thread_step_def using decide_step.lookup [of t1 i b s] by blast
  next
    case (Setting x)
    show ?thesis unfolding Setting thread_step_def
      using decide_step.set [of t1 _ s] decide_step.nothing [of t1 s] by (cases x) blast+
  qed (use that in auto)
  have "thread_ok E s p" using threads_okD i assms(3) by blast
  then have nr: "\<not> (\<exists>e. p = Raised e)" by auto
  moreover have "\<exists>t' q q' s'. thr t' = Some q \<and> (t' = t \<or> sh_lock s = Some t') \<and> thread_step E t' (q, s) (q', s')" if "\<not> finished p"
  proof (cases "sh_lock s")
    case None
    with can [OF assms(3) that] assms(3) show ?thesis by blast
  next
    case (Some t1)
    with i obtain q where q: "thr t1 = Some q" "in_lock q" by (auto simp: lock_ok_def)
    then have "\<not> finished q" by (cases q) auto
    with can [OF q(1)] q Some show ?thesis by blast
  qed
  ultimately show ?thesis by blast
qed

text \<open>A run up to the wait\<close>

definition demo_async_env :: env where
  "demo_async_env = demo_env\<lparr>e_uuid := \<lambda>n. replicate (Suc n) CHR ''x''\<rparr>"

lemma demo_async_uuid: "inj (e_uuid demo_async_env)" "e_uuid demo_async_env 0 = ''x''" "e_uuid demo_async_env n \<noteq> []"
  by (auto simp: demo_async_env_def inj_def)

lemma demo_waiting:
  obtains db row where "async_reach demo_async_env ([0 \<mapsto> Waiting 0],
      \<lparr>sh_db = db, sh_lock = None, sh_events = [''x'' \<mapsto> 0], sh_set = {}, sh_next = 1, sh_answers = []\<rparr>)"
    "approval_get ''x'' db = Inr row"
proof -
  let ?E = demo_async_env and ?v = "mk_verdict REQUIRE_APPROVAL ''r'' ''x''"
  have "async_reach ?E (async_init empty_db)" by (rule async_reach.init) (simp add: empty_db_def)
  from async_reach.step [OF this [unfolded async_init_def] async_step.ask, of 0 "''task''" demo_action ?v]
  have "async_reach ?E ([0 \<mapsto> Asking ''task'' demo_action ?v], snd (async_init empty_db))" by (simp add: async_init_def)
  from reach_run [OF this, of 0 "Asking ''task'' demo_action ?v" "Minted ''task'' demo_action ?v 0"]
  have "async_reach ?E ([0 \<mapsto> Minted ''task'' demo_action ?v 0], (snd (async_init empty_db))\<lparr>sh_next := 1\<rparr>)"
    using resolver_step.mint [of ?E 0 "''task''" demo_action ?v "snd (async_init empty_db)"] by (simp add: thread_step_def async_init_def)
  from reach_run [OF this, of 0 "Minted ''task'' demo_action ?v 0" "Registered ''task'' demo_action ?v 0"]
  have r: "async_reach ?E ([0 \<mapsto> Registered ''task'' demo_action ?v 0],
      \<lparr>sh_db = empty_db, sh_lock = Some 0, sh_events = [''x'' \<mapsto> 0], sh_set = {}, sh_next = 1, sh_answers = []\<rparr>)" (is "async_reach _ (_, ?s)")
    using resolver_step.register [of "(snd (async_init empty_db))\<lparr>sh_next := 1\<rparr>" ?E 0 "''task''" demo_action ?v 0]
    by (simp add: thread_step_def async_init_def demo_async_uuid)
  obtain y db where ins: "approval_insert (e_uuid ?E 0) [] ''task'' (latest_action_step_index ''task'' (sh_db ?s)) (snapshot_json demo_action)
      (fingerprint (e_hash ?E) demo_action) (decision_value (v_decision ?v)) (rule_id ?v) (v_reason ?v) (v_reason ?v) (sh_db ?s) = (y, db)" by fastforce
  then obtain j where j: "y = Inr j" by (cases y) (auto simp: approval_insert_def empty_db_def)
  from approval_insert_get [OF ins [unfolded j]] obtain row where "approval_get ''x'' db = Inr row" by (auto simp: demo_async_uuid)
  moreover from reach_run [OF r, of 0 "Registered ''task'' demo_action ?v 0" "Waiting 0"] resolver_step.insert [OF ins [unfolded j], of 0]
  have "async_reach ?E ([0 \<mapsto> Waiting 0],
      \<lparr>sh_db = db, sh_lock = None, sh_events = [''x'' \<mapsto> 0], sh_set = {}, sh_next = 1, sh_answers = []\<rparr>)"
    by (simp add: thread_step_def)
  ultimately show thesis using that by blast
qed

lemma update_get: "approval_get i db = Inr row \<Longrightarrow>
    \<exists>row'. approval_get i (approval_update_state now i x by_whom db) = Inr row' \<and> ap_state row' = x \<and> ap_decided_by row' = Some by_whom"
  by (simp add: approval_get_update set_approval_state_def)

text \<open>After a wait that timed out\<close>

lemma demo_expired:
  obtains db row where "async_reach demo_async_env ([0 \<mapsto> Answered 0 False],
      \<lparr>sh_db = db, sh_lock = None, sh_events = Map.empty, sh_set = {}, sh_next = 1, sh_answers = []\<rparr>)"
    "approval_get ''x'' db = Inr row" "ap_state row = ''REJECTED''" "ap_decided_by row = Some ''timeout''"
proof -
  let ?E = demo_async_env
  obtain db row where w: "async_reach ?E ([0 \<mapsto> Waiting 0],
      \<lparr>sh_db = db, sh_lock = None, sh_events = [''x'' \<mapsto> 0], sh_set = {}, sh_next = 1, sh_answers = []\<rparr>)" (is "async_reach _ (_, ?s)")
    and row: "approval_get ''x'' db = Inr row" by (rule demo_waiting)
  let ?db = "approval_update_state ''t'' ''x'' ''REJECTED'' ''timeout'' db"
  have "async_reach ?E ([0 \<mapsto> Expired 0], ?s)"
    using reach_run [OF w, of 0 "Waiting 0" "Expired 0" ?s] resolver_step.expire [of ?E 0 0 ?s] by (simp add: thread_step_def)
  then have "async_reach ?E ([0 \<mapsto> Closing 0], ?s\<lparr>sh_db := ?db\<rparr>)"
    using reach_run [of ?E "[0 \<mapsto> Expired 0]" ?s 0 "Expired 0" "Closing 0" "?s\<lparr>sh_db := ?db\<rparr>"] resolver_step.reject [of ?E 0 0 ?s "''t''"]
    by (simp add: thread_step_def demo_async_uuid)
  then have "async_reach ?E ([0 \<mapsto> Answered 0 False], ?s\<lparr>sh_db := ?db, sh_events := Map.empty\<rparr>)"
    using reach_run [of ?E "[0 \<mapsto> Closing 0]" "?s\<lparr>sh_db := ?db\<rparr>" 0 "Closing 0" "Answered 0 False" "?s\<lparr>sh_db := ?db, sh_events := Map.empty\<rparr>"]
      resolver_step.drop_expired [of "?s\<lparr>sh_db := ?db\<rparr>" ?E 0 0]
    by (simp add: thread_step_def demo_async_uuid)
  moreover obtain row' where "approval_get ''x'' ?db = Inr row'" "ap_state row' = ''REJECTED''" "ap_decided_by row' = Some ''timeout''"
    using update_get [OF row] by blast
  ultimately show thesis using that [of ?db row'] by simp
qed

text \<open>After a yes that came in time\<close>

lemma demo_decided:
  obtains db row where "async_reach demo_async_env ([0 \<mapsto> Waiting 0, 1 \<mapsto> Decided],
      \<lparr>sh_db = db, sh_lock = None, sh_events = [''x'' \<mapsto> 0], sh_set = {0}, sh_next = 1, sh_answers = [(''x'', True)]\<rparr>)"
    "approval_get ''x'' db = Inr row" "ap_state row = ''APPROVED''"
proof -
  let ?E = demo_async_env and ?W = "[0 \<mapsto> Waiting 0]"
  obtain db row where w: "async_reach ?E (?W,
      \<lparr>sh_db = db, sh_lock = None, sh_events = [''x'' \<mapsto> 0], sh_set = {}, sh_next = 1, sh_answers = []\<rparr>)" (is "async_reach _ (_, ?s)")
    and row: "approval_get ''x'' db = Inr row" by (rule demo_waiting)
  let ?db = "approval_update_state ''t'' ''x'' ''APPROVED'' ''service'' db"
  let ?s1 = "?s\<lparr>sh_lock := Some 1, sh_answers := [(''x'', True)], sh_db := ?db\<rparr>"
  have "async_reach ?E (?W(1 \<mapsto> Deciding ''x'' True), ?s)"
    using async_reach.step [OF w async_step.call [of ?W 1 ?E ?s "''x''" True]] by simp
  then have "async_reach ?E (?W(1 \<mapsto> Updated ''x'' True), ?s1)"
    using reach_run [of ?E "?W(1 \<mapsto> Deciding ''x'' True)" ?s 1 "Deciding ''x'' True" "Updated ''x'' True" ?s1]
      decide_step.update [of ?s 1 "''x''" True "''t''"] by (simp add: thread_step_def state_of_decision_def)
  then have "async_reach ?E (?W(1 \<mapsto> Setting (Some 0)), ?s1\<lparr>sh_lock := None\<rparr>)"
    using reach_run [of ?E "?W(1 \<mapsto> Updated ''x'' True)" ?s1 1 "Updated ''x'' True" "Setting (Some 0)" "?s1\<lparr>sh_lock := None\<rparr>"]
      decide_step.lookup [of 1 "''x''" True ?s1] by (simp add: thread_step_def)
  then have "async_reach ?E (?W(1 \<mapsto> Decided), ?s1\<lparr>sh_lock := None, sh_set := {0}\<rparr>)"
    using reach_run [of ?E "?W(1 \<mapsto> Setting (Some 0))" "?s1\<lparr>sh_lock := None\<rparr>" 1 "Setting (Some 0)" Decided "?s1\<lparr>sh_lock := None, sh_set := {0}\<rparr>"]
      decide_step.set [of 1 0 "?s1\<lparr>sh_lock := None\<rparr>"] by (simp add: thread_step_def)
  moreover obtain row' where "approval_get ''x'' ?db = Inr row'" "ap_state row' = ''APPROVED''" using update_get [OF row] by blast
  ultimately show thesis using that [of ?db row'] by simp
qed

lemma demo_answered:
  obtains c where "async_reach demo_async_env c" "fst c 0 = Some (Answered 0 True)"
proof -
  let ?E = demo_async_env
  obtain db row where d: "async_reach ?E ([0 \<mapsto> Waiting 0, 1 \<mapsto> Decided],
      \<lparr>sh_db = db, sh_lock = None, sh_events = [''x'' \<mapsto> 0], sh_set = {0}, sh_next = 1, sh_answers = [(''x'', True)]\<rparr>)" (is "async_reach _ (?T, ?s)")
    and row: "approval_get ''x'' db = Inr row" "ap_state row = ''APPROVED''" by (rule demo_decided)
  let ?s1 = "?s\<lparr>sh_events := Map.empty\<rparr>"
  have "async_reach ?E (?T(0 \<mapsto> Woken 0), ?s)"
    using reach_run [OF d, of 0 "Waiting 0" "Woken 0" ?s] resolver_step.wake [of 0 ?s ?E 0] by (simp add: thread_step_def)
  then have "async_reach ?E (?T(0 \<mapsto> Woken 0, 0 \<mapsto> Reading 0), ?s1)"
    using reach_run [of ?E "?T(0 \<mapsto> Woken 0)" ?s 0 "Woken 0" "Reading 0" ?s1] resolver_step.drop_woken [of ?s ?E 0 0]
    by (simp add: thread_step_def demo_async_uuid)
  then have "async_reach ?E (?T(0 \<mapsto> Woken 0, 0 \<mapsto> Reading 0, 0 \<mapsto> Answered 0 True), ?s1)"
    using reach_run [of ?E "?T(0 \<mapsto> Woken 0, 0 \<mapsto> Reading 0)" ?s1 0 "Reading 0" "Answered 0 True" ?s1]
      resolver_step.read [of ?E 0 ?s1 row 0] row by (simp add: thread_step_def demo_async_uuid)
  then show thesis using that by simp
qed

theorem async_answer_witness:
  "\<exists>(c :: async) row. fst c 0 = Some (Answered 0 True) \<and> approval_get ''x'' (sh_db (snd c)) = Inr row \<and> ap_state row \<noteq> ''PENDING'' \<and>
     (''x'', True) \<in> set (sh_answers (snd c))"
proof -
  obtain c where c: "async_reach demo_async_env c" "fst c 0 = Some (Answered 0 True)" by (rule demo_answered)
  from async_answer [OF c(1) demo_async_uuid(1) c(2)] obtain row where "approval_get ''x'' (sh_db (snd c)) = Inr row"
    "ap_state row \<noteq> ''PENDING''" "(''x'', True) \<in> set (sh_answers (snd c))" unfolding demo_async_uuid by auto
  with c(2) show ?thesis by (intro exI [of _ c] exI [of _ row]) simp
qed

theorem async_no_lost_wakeup_witness:
  "\<exists>db. thread_step demo_async_env 0
     (Waiting 0, \<lparr>sh_db = db, sh_lock = None, sh_events = [''x'' \<mapsto> 0], sh_set = {0}, sh_next = 1, sh_answers = [(''x'', True)]\<rparr>)
     (Woken 0, \<lparr>sh_db = db, sh_lock = None, sh_events = [''x'' \<mapsto> 0], sh_set = {0}, sh_next = 1, sh_answers = [(''x'', True)]\<rparr>)"
proof -
  obtain db row where d: "async_reach demo_async_env ([0 \<mapsto> Waiting 0, 1 \<mapsto> Decided],
      \<lparr>sh_db = db, sh_lock = None, sh_events = [''x'' \<mapsto> 0], sh_set = {0}, sh_next = 1, sh_answers = [(''x'', True)]\<rparr>)"
    and row: "approval_get ''x'' db = Inr row" "ap_state row = ''APPROVED''" by (rule demo_decided)
  have "thread_step demo_async_env 0
     (Waiting 0, snd ([0 \<mapsto> Waiting 0, 1 \<mapsto> Decided] :: nat \<rightharpoonup> thread,
        \<lparr>sh_db = db, sh_lock = None, sh_events = [''x'' \<mapsto> 0], sh_set = {0}, sh_next = 1, sh_answers = [(''x'', True)]\<rparr>))
     (Woken 0, snd ([0 \<mapsto> Waiting 0, 1 \<mapsto> Decided] :: nat \<rightharpoonup> thread,
        \<lparr>sh_db = db, sh_lock = None, sh_events = [''x'' \<mapsto> 0], sh_set = {0}, sh_next = 1, sh_answers = [(''x'', True)]\<rparr>))"
    by (rule async_no_lost_wakeup [OF d demo_async_uuid(1), of 0 0 row]) (use row in \<open>auto simp: demo_async_uuid split: if_splits\<close>)
  then show ?thesis by auto
qed

theorem async_progress_witness:
  "\<exists>t' q q' s' s. [0 \<mapsto> Waiting 0] t' = Some q \<and> thread_step demo_async_env t' (q, s) (q', s')"
proof -
  obtain db row where "async_reach demo_async_env ([0 \<mapsto> Waiting 0],
      \<lparr>sh_db = db, sh_lock = None, sh_events = [''x'' \<mapsto> 0], sh_set = {}, sh_next = 1, sh_answers = []\<rparr>)"
    by (rule demo_waiting)
  from async_progress [OF this demo_async_uuid(1), of 0 "Waiting 0"] show ?thesis by auto
qed

text \<open>
  C27: \<open>decide\<close> does not look whether the question is still open.  There is a state in which a question has
  timed out, nobody has called \<open>decide\<close>, the resolver has answered no and the row says REJECTED by
  timeout; from there one complete call of \<open>decide\<close> turns the row to APPROVED, while the answer of the
  resolver stays no.
\<close>

theorem late_answer_flips_row:
  "\<exists>E thr s row thr' s' row'. inj (e_uuid E) \<and> async_reach E (thr, s) \<and> thr 0 = Some (Answered 0 False) \<and> sh_answers s = [] \<and>
     approval_get (e_uuid E 0) (sh_db s) = Inr row \<and> ap_state row = ''REJECTED'' \<and> ap_decided_by row = Some ''timeout'' \<and>
     (async_step E)\<^sup>*\<^sup>* (thr, s) (thr', s') \<and> thr' 0 = Some (Answered 0 False) \<and> thr' 1 = Some Decided \<and>
     sh_answers s' = [(e_uuid E 0, True)] \<and>
     approval_get (e_uuid E 0) (sh_db s') = Inr row' \<and> ap_state row' = ''APPROVED'' \<and> ap_decided_by row' = Some ''service''"
proof -
  let ?E = demo_async_env and ?A = "[0 \<mapsto> Answered 0 False]"
  obtain db row where a: "async_reach ?E (?A,
      \<lparr>sh_db = db, sh_lock = None, sh_events = Map.empty, sh_set = {}, sh_next = 1, sh_answers = []\<rparr>)" (is "async_reach _ (_, ?s)")
    and row: "approval_get ''x'' db = Inr row" "ap_state row = ''REJECTED''" "ap_decided_by row = Some ''timeout''" by (rule demo_expired)
  let ?db = "approval_update_state ''t'' ''x'' ''APPROVED'' ''service'' db"
  let ?s1 = "?s\<lparr>sh_lock := Some 1, sh_answers := [(''x'', True)], sh_db := ?db\<rparr>"
  let ?s2 = "?s1\<lparr>sh_lock := None\<rparr>"
  let ?B = "?A(1 \<mapsto> Deciding ''x'' True)"
  let ?C = "?B(1 \<mapsto> Updated ''x'' True)"
  let ?D = "?C(1 \<mapsto> Setting None)"
  have own: "(async_step ?E)\<^sup>*\<^sup>* (thr, s) (thr(t \<mapsto> p'), s')" if "thr t = Some p" "decide_step t (p, s) (p', s')" for thr t p s p' s'
    using async_step.run [of thr t p ?E s p' s'] that by (auto simp: thread_step_def)
  have 1: "(async_step ?E)\<^sup>*\<^sup>* (?A, ?s) (?B, ?s)" using async_step.call [of ?A 1 ?E ?s "''x''" True] by auto
  have 2: "(async_step ?E)\<^sup>*\<^sup>* (?B, ?s) (?C, ?s1)"
    using own [OF _ decide_step.update [of ?s 1 "''x''" True "''t''"], of ?B] by (simp add: state_of_decision_def)
  have 3: "(async_step ?E)\<^sup>*\<^sup>* (?C, ?s1) (?D, ?s2)"
    using own [OF _ decide_step.lookup [of 1 "''x''" True ?s1], of ?C] by simp
  have 4: "(async_step ?E)\<^sup>*\<^sup>* (?D, ?s2) (?D(1 \<mapsto> Decided), ?s2)"
    using own [OF _ decide_step.nothing [of 1 ?s2], of ?D] by simp
  obtain row' where row': "approval_get ''x'' ?db = Inr row'" "ap_state row' = ''APPROVED''" "ap_decided_by row' = Some ''service''"
    using update_get [OF row(1)] by blast
  show ?thesis
    using a row row' rtranclp_trans [OF rtranclp_trans [OF rtranclp_trans [OF 1 2] 3] 4]
    by (intro exI [of _ ?E] exI [of _ ?A] exI [of _ ?s] exI [of _ row] exI [of _ "?D(1 \<mapsto> Decided)"] exI [of _ ?s2] exI [of _ row'])
      (simp add: demo_async_uuid)
qed

end
