(* ===== verification/Async_Run.thy ===== *)
theory Async_Run
  imports Async_Approval
begin

text \<open>
  The asynchronous mode of the service (src/aegiscode/service/app_service.py), seen from the thread
  of one task: a question blocks the thread until \<open>decide\<close> is called for it or the wait expires.  What
  the request threads do meanwhile is an argument: for a question, the calls of \<open>decide\<close> in each of
  the three windows between the statements of the resolver, in order, and whether the wait saw the
  Event.  The thread answers as the step relation of Async_Approval allows, and its runs keep the
  contract of the loop.
\<close>

section \<open>The thread\<close>

text \<open>
  The calls of \<open>decide\<close> during one question, by the moment at which they change the row: after the
  row was inserted and before the wait ends, then before the resolver reads or rejects the row, then
  before it returns.  A wait can expire although a call has changed the row: its Event is set later.
\<close>

record arrivals =
  ar_waiting :: "(string \<times> bool) list"
  ar_woken :: bool                     \<comment> \<open>the Event was set before the wait expired\<close>
  ar_ending :: "(string \<times> bool) list"
  ar_late :: "(string \<times> bool) list"

type_synonym calls = "string \<Rightarrow> arrivals"

definition decide :: "Harness.env \<Rightarrow> string \<Rightarrow> bool \<Rightarrow> world \<Rightarrow> world" where
  "decide E approval_id approved = set_request_state E approval_id (state_of_decision approved) ''service''"

definition decides :: "Harness.env \<Rightarrow> (string \<times> bool) list \<Rightarrow> world \<Rightarrow> world" where
  "decides E ds = fold (\<lambda>(j, b). decide E j b) ds"

definition async_resolver :: "service \<Rightarrow> calls \<Rightarrow> string \<Rightarrow> action \<Rightarrow> verdict \<Rightarrow> (world, bool \<times> action) eff" where
  "async_resolver S ds i a v w =
     (let E = s_env S; (approval_id, w0) = read_uuid E w; q = ds approval_id in
      andThen (insert_request E i a v approval_id) (\<lambda>_ w1.
        let decided = (ar_woken q \<and> approval_id \<in> fst ` set (ar_waiting q));
            w2 = decides E (ar_ending q) (decides E (ar_waiting q) w1) in
        if \<not> decided
        then (Inr (False, a), decides E (ar_late q) (set_request_state E approval_id ''REJECTED'' ''timeout'' w2))
        else (case approval_get approval_id (w_db w2) of
                Inl e \<Rightarrow> (Inl e, w2)
              | Inr row \<Rightarrow> (Inr (ap_state row = ''APPROVED'', a), decides E (ar_late q) w2))) w0)"

definition thread_harness :: "service \<Rightarrow> calls \<Rightarrow> string \<Rightarrow> string \<Rightarrow> bool \<Rightarrow> harness" where
  "thread_harness S ds i ws_dir pre_cancel =
     harness_factory (s_env S) (s_config S) (s_model S) i ws_dir (Some (async_resolver S ds i))
       (Some (\<lambda>n. pre_cancel \<or> s_cancelled S i n))"

definition run_in_thread :: "service \<Rightarrow> calls \<Rightarrow> string \<Rightarrow> string \<Rightarrow> string \<Rightarrow> bool \<Rightarrow> (world, unit) eff" where
  "run_in_thread S ds i ws_dir description pre_cancel =
     run_harness (s_env S) (thread_harness S ds i ws_dir pre_cancel) i description"

text \<open>\<open>create_task\<close> only starts the thread.\<close>

definition create_task_async :: "service \<Rightarrow> string \<Rightarrow> string \<Rightarrow> (world, string) eff" where
  "create_task_async S ws_dir description =
     create_task_with (s_env S) (base_of (s_config S)) (\<lambda>i. ret ()) ws_dir description"

text \<open>
  The cancellation flags: every task has one from its creation on, \<open>cancel_task\<close> of an unknown task does
  nothing.  What a run sees of its flag is the stream \<open>s_cancelled\<close>.
\<close>

type_synonym flags = "string \<rightharpoonup> bool"

definition new_flag :: "string \<Rightarrow> bool \<Rightarrow> flags \<Rightarrow> flags" where
  "new_flag i pre_cancel flags = flags(i \<mapsto> pre_cancel)"

definition cancel_task :: "string \<Rightarrow> flags \<Rightarrow> flags" where
  "cancel_task i flags = (case flags i of None \<Rightarrow> flags | Some _ \<Rightarrow> flags(i \<mapsto> True))"

text \<open>No flag is ever lowered, and a cancelled task stays cancelled.\<close>

lemma cancel_raises: "fold cancel_task is flags j = (case flags j of None \<Rightarrow> None | Some b \<Rightarrow> Some (b \<or> j \<in> set is))"
  by (induction "is" arbitrary: flags) (auto simp: cancel_task_def split: option.splits)

section \<open>The answer\<close>

lemma decide_db: "w_db (decide E j b w) = approval_update_state (e_now E (w_ticks w)) j (state_of_decision b) ''service'' (w_db w)"
  by (simp add: decide_def set_request_state_def read_now_def)

text \<open>The row of a question after the calls shows the last call for it.\<close>

lemma decided_row:
  assumes "approval_get uid (w_db w) = Inr row"
  shows "\<exists>row'. approval_get uid (w_db (decides E ds w)) = Inr row' \<and>
     ap_task_id row' = ap_task_id row \<and> ap_action_fingerprint row' = ap_action_fingerprint row \<and>
     ap_state row' = (case filter (\<lambda>d. fst d = uid) ds of [] \<Rightarrow> ap_state row | es \<Rightarrow> state_of_decision (snd (last es)))"
proof (induction ds rule: rev_induct)
  case Nil
  with assms show ?case by (simp add: decides_def)
next
  case (snoc d ds)
  then show ?case
    by (auto simp: decides_def decide_db approval_get_update set_approval_state_def split: prod.splits list.splits)
qed

lemma filter_key_Nil: "filter (\<lambda>d. fst d = k) ds = [] \<longleftrightarrow> k \<notin> fst ` set ds"
  by (induction ds) auto

lemma decides_append: "decides E (xs @ ys) w = decides E ys (decides E xs w)"
  by (simp add: decides_def)

text \<open>
  C29: A thread fails closed when it asks.  The answer is yes exactly when the wait saw a call of
  \<open>decide\<close> for its question and the last such call before the row was read said yes; the action is
  never changed.  The row shows the answer, unless a later call for the question, between the last
  access of the resolver and its return, overwrites it: then it shows that call.
\<close>

theorem async_resolver_decides:
  assumes "async_resolver S ds i a v w = (Inr (b, a'), w')" and "u = e_uuid (s_env S) (w_uuids w)"
  shows "a' = a \<and>
     (b \<longleftrightarrow> ar_woken (ds u) \<and> u \<in> fst ` set (ar_waiting (ds u)) \<and>
        (\<exists>earlier. filter (\<lambda>d. fst d = u) (ar_waiting (ds u) @ ar_ending (ds u)) = earlier @ [(u, True)])) \<and>
     (\<exists>row. approval_get u (w_db w') = Inr row \<and> ap_task_id row = i \<and>
        ap_action_fingerprint row = fingerprint (e_hash (s_env S)) a \<and>
        ap_state row = (case filter (\<lambda>d. fst d = u) (ar_late (ds u)) of
           [] \<Rightarrow> if b then ''APPROVED'' else ''REJECTED'' | es \<Rightarrow> state_of_decision (snd (last es))))"
proof -
  let ?E = "s_env S" and ?w0 = "w\<lparr>w_uuids := Suc (w_uuids w)\<rparr>" and ?q = "ds u"
  let ?seen = "ar_waiting ?q @ ar_ending ?q" and ?fp = "fingerprint (e_hash ?E) a"
  obtain x w1 where ins: "insert_request ?E i a v u ?w0 = (x, w1)" by fastforce
  with assms obtain k where k: "x = Inr k"
    by (cases x) (auto simp: async_resolver_def read_uuid_def andThen_def)
  from ins k have "approval_insert u (e_now ?E (w_ticks w)) i (latest_action_step_index i (w_db w)) (snapshot_json a)
      ?fp (decision_value (v_decision v)) (rule_id v) (v_reason v) (v_reason v) (w_db w) = (Inr k, w_db w1)"
    by (auto simp: insert_request_def on_db_def read_now_def Let_def split: prod.splits)
  from approval_insert_get(2) [OF this] approval_insert_get(1) [OF this] obtain row1 where row1: "approval_get u (w_db w1) = Inr row1" "ap_task_id row1 = i"
    "ap_action_fingerprint row1 = ?fp" "ap_state row1 = ''PENDING''" by blast
  from decided_row [OF row1(1), of ?E ?seen, unfolded row1(4)] row1(2,3) obtain row2 where
    row2: "approval_get u (w_db (decides ?E ?seen w1)) = Inr row2" "ap_task_id row2 = i" "ap_action_fingerprint row2 = ?fp"
    "ap_state row2 = (case filter (\<lambda>d. fst d = u) ?seen of [] \<Rightarrow> ''PENDING'' | es \<Rightarrow> state_of_decision (snd (last es)))" by auto
  have run: "(let w2 = decides ?E ?seen w1 in
      if \<not> (ar_woken ?q \<and> u \<in> fst ` set (ar_waiting ?q))
      then (Inr (False, a), decides ?E (ar_late ?q) (set_request_state ?E u ''REJECTED'' ''timeout'' w2))
      else (Inr (ap_state row2 = ''APPROVED'', a), decides ?E (ar_late ?q) w2)) = (Inr (b, a'), w')"
    using assms ins k row2(1)
    by (auto simp: async_resolver_def read_uuid_def andThen_def decides_append Let_def split: if_splits)
  show ?thesis
  proof (cases "ar_woken ?q \<and> u \<in> fst ` set (ar_waiting ?q)")
    case False
    let ?w3 = "set_request_state ?E u ''REJECTED'' ''timeout'' (decides ?E ?seen w1)"
    from False run have "a' = a" "\<not> b" "w' = decides ?E (ar_late ?q) ?w3" by (auto simp: Let_def)
    moreover obtain row3 where row3: "approval_get u (w_db ?w3) = Inr row3" "ap_task_id row3 = i" "ap_action_fingerprint row3 = ?fp"
      "ap_state row3 = ''REJECTED''"
      using row2(1-3) by (simp add: set_request_state_def read_now_def approval_get_update set_approval_state_def)
    moreover from decided_row [OF row3(1), of ?E "ar_late ?q"] obtain row4 where "approval_get u (w_db (decides ?E (ar_late ?q) ?w3)) = Inr row4"
      "ap_task_id row4 = ap_task_id row3" "ap_action_fingerprint row4 = ap_action_fingerprint row3"
      "ap_state row4 = (case filter (\<lambda>d. fst d = u) (ar_late ?q) of [] \<Rightarrow> ap_state row3 | es \<Rightarrow> state_of_decision (snd (last es)))" by blast
    ultimately show ?thesis using False by (auto split: list.split)
  next
    case True
    with filter_key_Nil [of u ?seen] obtain earlier d where l: "filter (\<lambda>d. fst d = u) ?seen = earlier @ [d]"
      by (metis UnI1 image_Un rev_exhaust set_append)
    then have d: "fst d = u" by (metis (mono_tags, lifting) filter_eq_ConsD in_set_conv_decomp mem_Collect_eq set_filter)
    have "(case earlier @ [d] of [] \<Rightarrow> ''PENDING'' | e # es \<Rightarrow> state_of_decision (snd (last (e # es)))) = state_of_decision (snd d)"
      by (cases earlier) simp_all
    with l row2(4) have st: "ap_state row2 = state_of_decision (snd d)" by simp
    from True run have r: "a' = a" "w' = decides ?E (ar_late ?q) (decides ?E ?seen w1)" "b = (ap_state row2 = ''APPROVED'')"
      by (auto simp: Let_def)
    then have b: "b = snd d" "ap_state row2 = (if b then ''APPROVED'' else ''REJECTED'')"
      using st by (auto simp: state_of_decision_def)
    have "(\<exists>earlier. filter (\<lambda>d. fst d = u) ?seen = earlier @ [(u, True)]) \<longleftrightarrow> b"
      unfolding l using b(1) d by (cases d) simp
    with True decided_row [OF row2(1), of ?E "ar_late ?q"] row2(2,3) b(2) r(1,2) show ?thesis by (auto split: list.split)
  qed
qed

section \<open>The thread as a run of the step relation\<close>

lemma own_step: "thr t = Some p \<Longrightarrow> thread_step E t (p, s) (p', s') \<Longrightarrow> (async_step E)\<^sup>*\<^sup>* (thr, s) (thr(t \<mapsto> p'), s')"
  by (blast intro: async_step.run)

lemma resolver_own: "thr t = Some p \<Longrightarrow> resolver_step E t (p, s) (p', s') \<Longrightarrow> (async_step E)\<^sup>*\<^sup>* (thr, s) (thr(t \<mapsto> p'), s')"
  by (rule own_step) (auto simp: thread_step_def)

lemma decide_own: "thr t = Some p \<Longrightarrow> decide_step t (p, s) (p', s') \<Longrightarrow> (async_step E)\<^sup>*\<^sup>* (thr, s) (thr(t \<mapsto> p'), s')"
  by (rule own_step) (auto simp: thread_step_def)

text \<open>A call of \<open>decide\<close>, from its start to its end\<close>

lemma decide_run:
  assumes "finite (dom thr)" and "sh_lock s = None" and "thr t = Some p"
  shows "\<exists>thr' s'. (async_step E)\<^sup>*\<^sup>* (thr, s) (thr', s') \<and> finite (dom thr') \<and> thr' t = Some p \<and> sh_lock s' = None \<and>
     sh_db s' = approval_update_state now j (state_of_decision b) ''service'' (sh_db s) \<and> sh_events s' = sh_events s \<and>
     sh_set s \<subseteq> sh_set s' \<and> (\<forall>n. sh_events s j = Some n \<longrightarrow> n \<in> sh_set s')"
proof -
  obtain u where u: "thr u = None" using ex_new_if_finite [OF infinite_UNIV_nat assms(1)] by (auto simp: dom_def)
  then have ut: "t \<noteq> u" using assms(3) by auto
  define s1 where "s1 = s\<lparr>sh_lock := Some u, sh_answers := sh_answers s @ [(j, b)],
     sh_db := approval_update_state now j (state_of_decision b) ''service'' (sh_db s)\<rparr>"
  define s2 where "s2 = s1\<lparr>sh_lock := None\<rparr>"
  define s3 where "s3 = (case sh_events s j of None \<Rightarrow> s2 | Some n \<Rightarrow> s2\<lparr>sh_set := insert n (sh_set s2)\<rparr>)"
  have r1: "(async_step E)\<^sup>*\<^sup>* (thr, s) (thr(u \<mapsto> Deciding j b), s)" using async_step.call [of thr u] u by blast
  have r2: "(async_step E)\<^sup>*\<^sup>* (thr(u \<mapsto> Deciding j b), s) (thr(u \<mapsto> Deciding j b, u \<mapsto> Updated j b), s1)"
    unfolding s1_def by (intro decide_own [where p = "Deciding j b"] decide_step.update assms(2)) simp
  have r3: "(async_step E)\<^sup>*\<^sup>* (thr(u \<mapsto> Deciding j b, u \<mapsto> Updated j b), s1) (thr(u \<mapsto> Deciding j b, u \<mapsto> Updated j b, u \<mapsto> Setting (sh_events s1 j)), s2)"
    unfolding s2_def by (intro decide_own [where p = "Updated j b"] decide_step.lookup) simp
  have r4: "(async_step E)\<^sup>*\<^sup>* (thr(u \<mapsto> Deciding j b, u \<mapsto> Updated j b, u \<mapsto> Setting (sh_events s1 j)), s2)
      (thr(u \<mapsto> Deciding j b, u \<mapsto> Updated j b, u \<mapsto> Setting (sh_events s1 j), u \<mapsto> Decided), s3)"
  proof (intro decide_own [where p = "Setting (sh_events s1 j)"])
    show "decide_step u (Setting (sh_events s1 j), s2) (Decided, s3)"
      by (cases "sh_events s j") (simp_all add: s3_def s1_def decide_step.set decide_step.nothing)
  qed simp
  show ?thesis using assms ut rtranclp_trans [OF rtranclp_trans [OF rtranclp_trans [OF r1 r2] r3] r4]
    by (intro exI [of _ "thr(u \<mapsto> Deciding j b, u \<mapsto> Updated j b, u \<mapsto> Setting (sh_events s1 j), u \<mapsto> Decided)"] exI [of _ s3])
      (auto simp: s1_def s2_def s3_def split: option.splits)
qed

lemma decides_run:
  assumes "finite (dom thr)" and "sh_lock s = None" and "thr t = Some p" and "sh_db s = w_db w"
  shows "\<exists>thr' s'. (async_step E)\<^sup>*\<^sup>* (thr, s) (thr', s') \<and> finite (dom thr') \<and> thr' t = Some p \<and> sh_lock s' = None \<and>
     sh_db s' = w_db (decides E0 ds w) \<and> sh_events s' = sh_events s \<and>
     sh_set s \<subseteq> sh_set s' \<and> (\<forall>j n. j \<in> fst ` set ds \<longrightarrow> sh_events s j = Some n \<longrightarrow> n \<in> sh_set s')"
  using assms
proof (induction ds arbitrary: thr s w)
  case (Cons d ds)
  obtain j b where d: "d = (j, b)" by fastforce
  from decide_run [OF Cons.prems(1,2,3), of E "e_now E0 (w_ticks w)" j b] obtain thr1 s1 where
    1: "(async_step E)\<^sup>*\<^sup>* (thr, s) (thr1, s1)" "finite (dom thr1)" "thr1 t = Some p" "sh_lock s1 = None"
      "sh_db s1 = w_db (decide E0 j b w)" "sh_events s1 = sh_events s" "sh_set s \<subseteq> sh_set s1"
      "\<forall>n. sh_events s j = Some n \<longrightarrow> n \<in> sh_set s1" by (auto simp: decide_db Cons.prems(4))
  from Cons.IH [OF 1(2,4,3,5)] obtain thr2 s2 where
    2: "(async_step E)\<^sup>*\<^sup>* (thr1, s1) (thr2, s2)" "finite (dom thr2)" "thr2 t = Some p" "sh_lock s2 = None"
      "sh_db s2 = w_db (decides E0 ds (decide E0 j b w))" "sh_events s2 = sh_events s1" "sh_set s1 \<subseteq> sh_set s2"
      "\<forall>j n. j \<in> fst ` set ds \<longrightarrow> sh_events s1 j = Some n \<longrightarrow> n \<in> sh_set s2" by auto
  show ?case
    using rtranclp_trans [OF 1(1) 2(1)] 2 1(6-8) by (intro exI [of _ thr2] exI [of _ s2]) (auto simp: d decides_def)
qed (auto simp: decides_def)

text \<open>The end of a question, after the Event was seen and after the wait expired\<close>

lemma woken_run:
  assumes "finite (dom thr)" and "sh_lock s = None" and "thr t = Some (Waiting n)" and "sh_db s = w_db w" and "n \<in> sh_set s"
    and "w2 = decides E0 ending w" and "approval_get (e_uuid E n) (w_db w2) = x"
  shows "\<exists>thr' s'. (async_step E)\<^sup>*\<^sup>* (thr, s) (thr', s') \<and> sh_lock s' = None \<and>
     (case x of Inl e \<Rightarrow> thr' t = Some (Raised e) \<and> sh_db s' = w_db w2
      | Inr row \<Rightarrow> thr' t = Some (Answered n (ap_state row = ''APPROVED'')) \<and> sh_db s' = w_db (decides E0 late w2))"
proof -
  have 1: "(async_step E)\<^sup>*\<^sup>* (thr, s) (thr(t \<mapsto> Woken n), s)"
    using assms(3) by (rule resolver_own) (rule resolver_step.wake [OF assms(5)])
  obtain thr1 s1 where 2: "(async_step E)\<^sup>*\<^sup>* (thr(t \<mapsto> Woken n), s) (thr1, s1)" "finite (dom thr1)" "thr1 t = Some (Woken n)"
    "sh_lock s1 = None" "sh_db s1 = w_db w2"
    using decides_run [of "thr(t \<mapsto> Woken n)" s t "Woken n" w E E0 ending] assms(1,2,4,6) by auto
  let ?s2 = "s1\<lparr>sh_events := (sh_events s1)(e_uuid E n := None)\<rparr>" and ?thr2 = "thr1(t \<mapsto> Reading n)"
  have 3: "(async_step E)\<^sup>*\<^sup>* (thr1, s1) (?thr2, ?s2)"
    using 2(3) by (rule resolver_own) (simp add: resolver_step.drop_woken 2(4))
  note reading = rtranclp_trans [OF rtranclp_trans [OF 1 2(1)] 3]
  show ?thesis
  proof (cases x)
    case (Inl e)
    then have "(async_step E)\<^sup>*\<^sup>* (?thr2, ?s2) (?thr2(t \<mapsto> Raised e), ?s2)"
      using assms(7) 2(5) by (intro resolver_own [where p = "Reading n"] resolver_step.read_fails) simp_all
    from rtranclp_trans [OF reading this] Inl 2(4,5) show ?thesis
      by (intro exI [of _ "?thr2(t \<mapsto> Raised e)"] exI [of _ ?s2]) simp
  next
    case (Inr row)
    let ?p = "Answered n (ap_state row = ''APPROVED'')"
    have 4: "(async_step E)\<^sup>*\<^sup>* (?thr2, ?s2) (?thr2(t \<mapsto> ?p), ?s2)"
      using assms(7) 2(5) Inr by (intro resolver_own [where p = "Reading n"] resolver_step.read) simp_all
    obtain thr3 s3 where 5: "(async_step E)\<^sup>*\<^sup>* (?thr2(t \<mapsto> ?p), ?s2) (thr3, s3)" "thr3 t = Some ?p" "sh_lock s3 = None"
      "sh_db s3 = w_db (decides E0 late w2)"
      using decides_run [of "?thr2(t \<mapsto> ?p)" ?s2 t ?p w2 E E0 late] 2(2,4,5) by auto
    from rtranclp_trans [OF rtranclp_trans [OF reading 4] 5(1)] 5(2-4) Inr show ?thesis by auto
  qed
qed

lemma expired_run:
  assumes "finite (dom thr)" and "sh_lock s = None" and "thr t = Some (Waiting n)" and "sh_db s = w_db w"
  shows "\<exists>thr' s'. (async_step E)\<^sup>*\<^sup>* (thr, s) (thr', s') \<and> sh_lock s' = None \<and> thr' t = Some (Answered n False) \<and>
     sh_db s' = w_db (decides E0 late (set_request_state E0 (e_uuid E n) ''REJECTED'' ''timeout'' (decides E0 ending w)))"
proof -
  let ?w2 = "decides E0 ending w"
  let ?w3 = "set_request_state E0 (e_uuid E n) ''REJECTED'' ''timeout'' ?w2"
  have 1: "(async_step E)\<^sup>*\<^sup>* (thr, s) (thr(t \<mapsto> Expired n), s)" using assms(3) by (rule resolver_own) (rule resolver_step.expire)
  obtain thr1 s1 where 2: "(async_step E)\<^sup>*\<^sup>* (thr(t \<mapsto> Expired n), s) (thr1, s1)" "finite (dom thr1)" "thr1 t = Some (Expired n)"
    "sh_lock s1 = None" "sh_db s1 = w_db ?w2"
    using decides_run [of "thr(t \<mapsto> Expired n)" s t "Expired n" w E E0 ending] assms(1,2,4) by auto
  let ?s2 = "s1\<lparr>sh_db := approval_update_state (e_now E0 (w_ticks ?w2)) (e_uuid E n) ''REJECTED'' ''timeout'' (sh_db s1)\<rparr>"
  let ?s3 = "?s2\<lparr>sh_events := (sh_events ?s2)(e_uuid E n := None)\<rparr>" and ?p = "Answered n False"
  have 3: "(async_step E)\<^sup>*\<^sup>* (thr1, s1) (thr1(t \<mapsto> Closing n), ?s2)"
    using 2(3) by (rule resolver_own) (simp add: resolver_step.reject)
  have 4: "(async_step E)\<^sup>*\<^sup>* (thr1(t \<mapsto> Closing n), ?s2) (thr1(t \<mapsto> Closing n, t \<mapsto> ?p), ?s3)"
    by (rule resolver_own [where p = "Closing n"]) (simp, rule resolver_step.drop_expired, simp add: 2(4))
  obtain thr3 s3 where 5: "(async_step E)\<^sup>*\<^sup>* (thr1(t \<mapsto> Closing n, t \<mapsto> ?p), ?s3) (thr3, s3)" "thr3 t = Some ?p" "sh_lock s3 = None"
    "sh_db s3 = w_db (decides E0 late ?w3)"
    using decides_run [of "thr1(t \<mapsto> Closing n, t \<mapsto> ?p)" ?s3 t ?p ?w3 E E0 late] 2(2,4,5)
    by (auto simp: set_request_state_def read_now_def)
  from rtranclp_trans [OF rtranclp_trans [OF rtranclp_trans [OF rtranclp_trans [OF 1 2(1)] 3] 4] 5(1)] 5(2-4) show ?thesis by blast
qed

text \<open>
  C28: The thread is an execution of the approval protocol: from a state in which it is about to ask,
  the protocol can go, with the calls of \<open>decide\<close> as threads of their own, to a state in which it has
  the answer of the resolver, or its exception, and the same database, with the lock free.
\<close>

theorem async_resolver_refines:
  assumes "async_resolver S ds i a v w = (r, w')"
    and "thr t = Some (Asking i a v)" and "finite (dom thr)" and "sh_lock s = None"
    and "sh_db s = w_db w" and "sh_next s = w_uuids w"
  shows "\<exists>thr' s'. (async_step (s_env S))\<^sup>*\<^sup>* (thr, s) (thr', s') \<and> sh_lock s' = None \<and> sh_db s' = w_db w' \<and>
     thr' t = Some (case r of Inl e \<Rightarrow> Raised e | Inr (b, a') \<Rightarrow> Answered (w_uuids w) b)"
proof -
  let ?E = "s_env S" and ?n = "w_uuids w" and ?u = "e_uuid (s_env S) (w_uuids w)"
  let ?q = "ds ?u"
  define s1 where "s1 = s\<lparr>sh_next := Suc (sh_next s)\<rparr>"
  define s2 where "s2 = s1\<lparr>sh_lock := Some t, sh_events := (sh_events s1)(?u \<mapsto> ?n)\<rparr>"
  let ?thr2 = "thr(t \<mapsto> Minted i a v ?n, t \<mapsto> Registered i a v ?n)"
  have a1: "(async_step ?E)\<^sup>*\<^sup>* (thr, s) (thr(t \<mapsto> Minted i a v ?n), s1)"
    using resolver_step.mint [of ?E t i a v s] assms(2,6) by (intro resolver_own) (simp_all add: s1_def)
  have a2: "(async_step ?E)\<^sup>*\<^sup>* (thr(t \<mapsto> Minted i a v ?n), s1) (?thr2, s2)"
    unfolding s2_def using assms(4) by (intro resolver_own [where p = "Minted i a v ?n"] resolver_step.register) (simp_all add: s1_def)
  note asked = rtranclp_trans [OF a1 a2]
  have db2: "sh_db s2 = w_db w" using assms(5) by (simp add: s1_def s2_def)
  obtain x db where ins: "approval_insert ?u (e_now ?E (w_ticks w)) i (latest_action_step_index i (sh_db s2)) (snapshot_json a)
      (fingerprint (e_hash ?E) a) (decision_value (v_decision v)) (rule_id v) (v_reason v) (v_reason v) (sh_db s2) = (x, db)" by fastforce
  let ?w1 = "w\<lparr>w_uuids := Suc ?n, w_ticks := Suc (w_ticks w), w_db := db\<rparr>"
  have req: "insert_request ?E i a v ?u (w\<lparr>w_uuids := Suc ?n\<rparr>) = (x, ?w1)"
    using ins by (simp add: insert_request_def on_db_def read_now_def db2)
  show ?thesis
  proof (cases x)
    case (Inl e)
    then have "db = sh_db s2" using ins by (auto simp: approval_insert_def split: if_splits)
    moreover have "(async_step ?E)\<^sup>*\<^sup>* (?thr2, s2) (?thr2(t \<mapsto> Raised e), s2\<lparr>sh_lock := None\<rparr>)"
      using ins Inl by (intro resolver_own [where p = "Registered i a v ?n"] resolver_step.insert_fails) simp_all
    ultimately show ?thesis
      using assms(1) req Inl asked
      by (intro exI [of _ "?thr2(t \<mapsto> Raised e)"] exI [of _ "s2\<lparr>sh_lock := None\<rparr>"])
        (auto simp: async_resolver_def read_uuid_def andThen_def)
  next
    case (Inr k)
    define s3 where "s3 = s2\<lparr>sh_lock := None, sh_db := db\<rparr>"
    define thr3 where "thr3 = ?thr2(t \<mapsto> Waiting ?n)"
    have 3: "(async_step ?E)\<^sup>*\<^sup>* (?thr2, s2) (thr3, s3)"
      unfolding thr3_def s3_def using ins Inr by (intro resolver_own [where p = "Registered i a v ?n"] resolver_step.insert) auto
    have "finite (dom thr3)" "sh_lock s3 = None" "thr3 t = Some (Waiting ?n)" "sh_db s3 = w_db ?w1"
      using assms(3) by (simp_all add: thr3_def s3_def)
    from decides_run [OF this, of ?E ?E "ar_waiting ?q"] obtain thr4 s4 where
      4: "(async_step ?E)\<^sup>*\<^sup>* (thr3, s3) (thr4, s4)" "finite (dom thr4)" "thr4 t = Some (Waiting ?n)" "sh_lock s4 = None"
        "sh_db s4 = w_db (decides ?E (ar_waiting ?q) ?w1)" "sh_events s4 = sh_events s3"
        "\<forall>j n. j \<in> fst ` set (ar_waiting ?q) \<longrightarrow> sh_events s3 j = Some n \<longrightarrow> n \<in> sh_set s4" by blast
    have to4: "(async_step ?E)\<^sup>*\<^sup>* (thr, s) (thr4, s4)" using asked 3 4(1) by (blast intro: rtranclp_trans)
    show ?thesis
    proof (cases "ar_woken ?q \<and> ?u \<in> fst ` set (ar_waiting ?q)")
      case True
      then have "?u \<in> fst ` set (ar_waiting ?q)" by (rule conjunct2)
      moreover have "sh_events s3 ?u = Some ?n" by (simp add: s3_def s2_def)
      ultimately have woken: "?n \<in> sh_set s4" using 4(7) by blast
      define w2 where "w2 = decides ?E (ar_ending ?q) (decides ?E (ar_waiting ?q) ?w1)"
      define y where "y = approval_get ?u (w_db w2)"
      from woken_run [OF 4(2,4,3,5) woken w2_def y_def [symmetric], where late = "ar_late ?q"] obtain thr5 s5 where
        5: "(async_step ?E)\<^sup>*\<^sup>* (thr4, s4) (thr5, s5)" "sh_lock s5 = None"
          "(case y of Inl e \<Rightarrow> thr5 t = Some (Raised e) \<and> sh_db s5 = w_db w2
            | Inr row \<Rightarrow> thr5 t = Some (Answered ?n (ap_state row = ''APPROVED'')) \<and> sh_db s5 = w_db (decides ?E (ar_late ?q) w2))" by blast
      from assms(1) req Inr True have "(r, w') = (case y of Inl e \<Rightarrow> (Inl e, w2)
          | Inr row \<Rightarrow> (Inr (ap_state row = ''APPROVED'', a), decides ?E (ar_late ?q) w2))"
        by (simp add: async_resolver_def read_uuid_def andThen_def Let_def w2_def y_def split: sum.splits)
      with 5(2,3) rtranclp_trans [OF to4 5(1)] show ?thesis
        by (intro exI [of _ thr5] exI [of _ s5]) (simp split: sum.splits)
    next
      case False
      have
        "\<exists>thr' s'. (async_step ?E)\<^sup>*\<^sup>* (thr4, s4) (thr', s') \<and> sh_lock s' = None \<and> thr' t = Some (Answered ?n False) \<and>
          sh_db s' = w_db (decides ?E (ar_late ?q) (set_request_state ?E ?u ''REJECTED'' ''timeout''
            (decides ?E (ar_ending ?q) (decides ?E (ar_waiting ?q) ?w1))))" by (rule expired_run [OF 4(2,4,3,5)])
      then obtain thr5 s5 where
        5: "(async_step ?E)\<^sup>*\<^sup>* (thr4, s4) (thr5, s5)" "sh_lock s5 = None" "thr5 t = Some (Answered ?n False)"
          "sh_db s5 = w_db (decides ?E (ar_late ?q) (set_request_state ?E ?u ''REJECTED'' ''timeout''
            (decides ?E (ar_ending ?q) (decides ?E (ar_waiting ?q) ?w1))))" by blast
      from assms(1) req Inr False have "r = Inr (False, a)" "w' = decides ?E (ar_late ?q) (set_request_state ?E ?u ''REJECTED'' ''timeout''
            (decides ?E (ar_ending ?q) (decides ?E (ar_waiting ?q) ?w1)))"
        by (simp_all add: async_resolver_def read_uuid_def andThen_def Let_def)
      with 5(2-4) rtranclp_trans [OF to4 5(1)] show ?thesis
        by (intro exI [of _ thr5] exI [of _ s5]) simp
    qed
  qed
qed

section \<open>The run of a thread\<close>

lemma decide_quiet: "quiet w0 w \<Longrightarrow> quiet w0 (decide E j b w)"
  by (simp add: decide_def set_request_state_def read_now_def approval_update_state_def quiet_def)

lemma decides_quiet: "quiet w0 w \<Longrightarrow> quiet w0 (decides E ds w)"
  unfolding decides_def by (induction ds arbitrary: w) (auto simp: decide_quiet)

lemma request_state_quiet: "quiet w0 w \<Longrightarrow> quiet w0 (set_request_state E j x by_whom w)"
  by (simp add: set_request_state_def read_now_def approval_update_state_def quiet_def)

lemma async_resolver_quiet: "quiet w (snd (async_resolver S ds i a v w))"
proof -
  let ?u = "e_uuid (s_env S) (w_uuids w)"
  obtain x w1 where ins: "insert_request (s_env S) i a v ?u (w\<lparr>w_uuids := Suc (w_uuids w)\<rparr>) = (x, w1)" by fastforce
  then have q: "quiet w w1"
    by (auto simp: insert_request_def on_db_def approval_insert_def read_now_def quiet_def Let_def split: prod.splits if_splits)
  then show ?thesis using ins
    by (auto simp: async_resolver_def read_uuid_def andThen_def Let_def decides_quiet request_state_quiet split: sum.splits)
qed

text \<open>The harness of a thread keeps the contract of the loop, too.\<close>

interpretation async: quiet_parts "s_env S"
    "harness_factory (s_env S) (s_config S) (s_model S) i ws_dir (Some (async_resolver S ds i)) cancel" for S ds i ws_dir cancel
  by unfold_locales (auto simp: built_dispatch_quiet built_execute_quiet final_verifier_quiet async_resolver_quiet)

lemma thread_harness_sel [simp]:
  "h_config (thread_harness S ds i ws_dir pre) = s_config S" "task_id (h_ctx (thread_harness S ds i ws_dir pre)) = i"
  "h_verifier (thread_harness S ds i ws_dir pre) = final_verifier (s_env S) (s_config S) ws_dir"
  "h_cancel (thread_harness S ds i ws_dir pre) = Some (\<lambda>n. pre \<or> s_cancelled S i n)"
  by (simp_all add: thread_harness_def)

lemmas thread_logged = async.outcome_logged [where cancel = "Some (\<lambda>n. pre \<or> s_cancelled S i n)" and S = S and i = i for pre S i,
    folded thread_harness_def, unfolded thread_harness_sel]

text \<open>The end of a run, also when the projection of the steps fails\<close>

lemma finish_task_frame:
  assumes "finish_task E i r w = (x, w')"
  shows "audit_events (w_db w') = audit_events (w_db w) \<and> event_seq (w_db w') = event_seq (w_db w) \<and> os_fs w' = os_fs w \<and>
    (x = Inr () \<longrightarrow> (\<exists>n now. tasks (w_db w') = tasks (task_update_state now i (termination_to_state r) (Some (reason_value r)) (Some n) (w_db w))))"
proof -
  obtain y w1 where y: "project_steps E i w = (y, w1)" by fastforce
  note fr = project_frame [OF y]
  show ?thesis
  proof (cases y)
    case (Inl e)
    with assms y fr show ?thesis by (auto simp: finish_task_def andThen_def)
  next
    case (Inr n)
    with assms y fr show ?thesis
      by (auto simp: finish_task_def andThen_def read_now_def task_update_state_def Let_def intro!: exI [of _ n] exI [of _ "e_now E (w_ticks w1)"])
  qed
qed

text \<open>
  C30: A background run keeps the promises of an inline one: whatever the request threads decide, the
  audit log of the task is a word of the protocol of turns that ends with the reason of the run and
  verifies, and when the thread ends normally the row shows that reason; COMPLETED needs the final
  verifier and CANCELLED a cancellation.
\<close>

theorem run_in_thread_contract:
  assumes "run_in_thread S ds i ws_dir d pre w = (x, w')" and "get_task i w = Inr row0" and "chain_ok (e_hash (s_env S)) (w_db w)"
    and "task_events i (w_db w) = []" and "0 \<le> no_progress_repeat_limit (limits_of (s_config S))"
  shows "\<exists>r ts ps. map row_view (task_events i (w_db w')) = map event_view (concat ts @ ps @ [term_event r]) \<and>
     list_all turn_trace ts \<and> part_trace ps \<and> fst (get_audit (s_env S) i w') \<and> r \<noteq> FINISH_REJECTED \<and>
     (x = Inr () \<longrightarrow> (\<exists>row. get_task i w' = Inr row \<and> tk_state row = termination_to_state r \<and>
        tk_termination_reason row = Some (reason_value r))) \<and>
     (r = COMPLETED \<longrightarrow> (\<exists>w1 w2. final_verifier (s_env S) (s_config S) ws_dir w1 = (Inr True, w2) \<and> os_fs w' = os_fs w2)) \<and>
     (r = CANCELLED \<longrightarrow> pre \<or> (\<exists>n. s_cancelled S i n))"
proof -
  let ?E = "s_env S" and ?h = "thread_harness S ds i ws_dir pre"
  from assms(1) obtain r w2 where re: "run_ends ?E ?h d w r w2" and fi: "finish_task ?E i r w2 = (x, w')"
    unfolding run_in_thread_def by (rule run_harness_finish)
  note fr = finish_task_frame [OF fi] and good = outcome_good [OF re, unfolded verified_def cancel_seen_def thread_harness_sel]
  from thread_logged [OF re] assms(5) obtain ts ps where
    lg: "logged (e_hash ?E) i w (concat ts @ ps @ [term_event r]) w2" and ok: "list_all turn_trace ts" "part_trace ps" by blast
  from lg assms(3,4) have 2: "chain_ok (e_hash ?E) (w_db w2)" "tasks (w_db w2) = tasks (w_db w)"
    "map row_view (task_events i (w_db w2)) = map event_view (concat ts @ ps @ [term_event r])" by (auto simp: logged_def kept_def)
  have ev: "task_events i (w_db w') = task_events i (w_db w2)" using fr task_events_cong by blast
  have fs: "os_fs w' = os_fs w2" using fr by simp
  have audit: "fst (get_audit ?E i w')"
    using 2(1) fr chain_ok_cong [of "w_db w'" "w_db w2"] chain_ok_verify [of "e_hash ?E" "w_db w'" i] by (simp add: get_audit_def)
  have row: "\<exists>row. get_task i w' = Inr row \<and> tk_state row = termination_to_state r \<and> tk_termination_reason row = Some (reason_value r)"
    if ret: "x = Inr ()"
  proof -
    from fr ret obtain n now where "tasks (w_db w') = tasks (task_update_state now i (termination_to_state r) (Some (reason_value r)) (Some n) (w_db w2))"
      by blast
    from task_get_cong [OF this, of i] task_get_cong [OF 2(2), of i] assms(2) show ?thesis
      by (simp add: get_task_def task_get_update set_task_state_def)
  qed
  have ver: "\<exists>u1 u2. final_verifier ?E (s_config S) ws_dir u1 = (Inr True, u2) \<and> os_fs w' = os_fs u2" if "r = COMPLETED"
    using good that fs by (auto simp: audit_term_def audit_def read_now_def) blast
  from good 2(3) ev ok audit row ver show ?thesis by (intro exI [of _ r] exI [of _ ts] exI [of _ ps]) auto
qed

section \<open>Witnesses\<close>

text \<open>A question that is refused first and then granted\<close>

definition demo_calls :: calls where
  "demo_calls = (\<lambda>j. \<lparr>ar_waiting = [(j, False), (''other'', False)], ar_woken = True, ar_ending = [(j, True)], ar_late = []\<rparr>)"

definition demo_question :: action where
  "demo_question = \<lparr>tool_name = ''write_file'', arguments = [(''path'', JStr ''setup.py'')], thought = None, expectation = None\<rparr>"

definition demo_verdict :: verdict where
  "demo_verdict = mk_verdict REQUIRE_APPROVAL ''WRITE_TIER'' ''outside the allow-list''"

lemma demo_asked: "\<exists>w'. async_resolver demo_service demo_calls ''task'' demo_question demo_verdict demo_world = (Inr (True, demo_question), w')"
proof -
  obtain w1 x where ins: "insert_request demo_env ''task'' demo_question demo_verdict ''id'' (demo_world\<lparr>w_uuids := Suc 0\<rparr>) = (x, w1)" by fastforce
  then have "x = Inr ''id'' \<and> (\<exists>r. approval_get ''id'' (w_db w1) = Inr r)"
    by (auto simp: insert_request_def on_db_def read_now_def approval_insert_def demo_sels empty_db_def approval_get_def Let_def
        split: prod.splits)
  with ins obtain r where i: "insert_request demo_env ''task'' demo_question demo_verdict ''id'' (demo_world\<lparr>w_uuids := Suc 0\<rparr>) = (Inr ''id'', w1)"
    "approval_get ''id'' (w_db w1) = Inr r" by blast
  from decided_row [OF i(2), of demo_env "[(''id'', False), (''other'', False)] @ [(''id'', True)]", unfolded decides_append] i(1) show ?thesis
    by (auto simp: async_resolver_def demo_sels read_uuid_def andThen_def demo_calls_def state_of_decision_def Let_def)
qed

theorem async_resolver_decides_witness:
  "\<exists>w' row. async_resolver demo_service demo_calls ''task'' demo_question demo_verdict demo_world = (Inr (True, demo_question), w') \<and>
     approval_get ''id'' (w_db w') = Inr row \<and> ap_state row = ''APPROVED''"
proof -
  obtain w' where w: "async_resolver demo_service demo_calls ''task'' demo_question demo_verdict demo_world = (Inr (True, demo_question), w')" using demo_asked by blast
  from async_resolver_decides [OF w refl] show ?thesis using w by (auto simp: demo_sels demo_calls_def)
qed


theorem async_resolver_refines_witness:
  "\<exists>thr s. (async_step demo_env)\<^sup>*\<^sup>* ([0 \<mapsto> Asking ''task'' demo_question demo_verdict],
       \<lparr>sh_db = empty_db, sh_lock = None, sh_events = Map.empty, sh_set = {}, sh_next = 0, sh_answers = []\<rparr>) (thr, s) \<and>
     thr 0 = Some (Answered 0 True)"
proof -
  obtain w' where w: "async_resolver demo_service demo_calls ''task'' demo_question demo_verdict demo_world = (Inr (True, demo_question), w')"
    using demo_asked by blast
  have t: "[0 \<mapsto> Asking ''task'' demo_question demo_verdict] 0 = Some (Asking ''task'' demo_question demo_verdict)"
    "finite (dom [0 :: nat \<mapsto> Asking ''task'' demo_question demo_verdict])" by simp_all
  from async_resolver_refines [OF w t, where s = "\<lparr>sh_db = empty_db, sh_lock = None, sh_events = Map.empty, sh_set = {}, sh_next = 0, sh_answers = []\<rparr>"]
  show ?thesis by (auto simp: demo_sels)
qed

theorem run_in_thread_contract_witness:
  "\<exists>w0 w' x r. create_task_async demo_service ''/ws'' ''task'' demo_world = (Inr ''id'', w0) \<and>
     run_in_thread demo_service demo_calls ''id'' ''/ws'' ''task'' True w0 = (x, w') \<and>
     (\<exists>ts ps. map row_view (task_events ''id'' (w_db w')) = map event_view (concat ts @ ps @ [term_event r])) \<and>
     fst (get_audit demo_env ''id'' w')"
proof -
  obtain w0 where c: "create_task_with demo_env ''/ws'' (\<lambda>i. ret ()) ''/ws'' ''task'' demo_world = (Inr ''id'', w0)"
    and g: "\<exists>row. get_task ''id'' w0 = Inr row" and a: "audit_events (w_db w0) = []" "event_seq (w_db w0) = event_seq empty_db"
    by (simp add: create_task_with_def demo_sels demo_valid read_uuid_def read_now_def on_db_def task_insert_def andThen_def ret_def
        empty_db_def get_task_def task_get_def Let_def)
  from g obtain row0 where row: "get_task ''id'' w0 = Inr row0" by blast
  have "audit_events (w_db w0) = audit_events empty_db" using a by (simp add: empty_db_def)
  with a(2) have "chain_ok (e_hash (s_env demo_service)) (w_db w0)"
    using chain_ok_empty chain_ok_cong [of "w_db w0" empty_db] by (simp add: demo_sels)
  moreover have "task_events ''id'' (w_db w0) = []" using a by (simp add: task_events_def)
  moreover obtain x w' where t: "run_in_thread demo_service demo_calls ''id'' ''/ws'' ''task'' True w0 = (x, w')" by fastforce
  ultimately show ?thesis
    using run_in_thread_contract [OF t row _ _ demo_limit] c t by (auto simp: create_task_async_def demo_sels)
qed

end
