(* ===== verification/Credentials.thy ===== *)
theory Credentials
  imports Service "HOL-Library.Word"
begin

unbundle bit_operations_syntax

text \<open>
  The credentials (src/aegiscode/credentials/store.py, backend.py) and the choice of the model
  client (service/assembly.py).  A backend is the record of its three operations over its own
  state; the JSON file is one, the keyring of the operating system (not under src/) another.  A
  stored value is a JSON value, since the file may hold any.  The text of the file is valid UTF-8.
\<close>

section \<open>The JSON file\<close>

text \<open>
  The file and its directory with their permission bits; \<open>kf_owned\<close> and \<open>kd_owned\<close> say that \<open>chmod\<close>
  is permitted, \<open>kd_creatable\<close> that a missing directory can be made, \<open>kf_writable\<close> that the file
  can be opened for writing then.
\<close>

type_synonym mode = "12 word"

record key_file =
  kd_mode :: "mode option"
  kd_owned :: bool
  kd_creatable :: bool
  kf_content :: "string option"
  kf_mode :: mode
  kf_owned :: bool
  kf_readable :: bool
  kf_writable :: bool

definition private_mode :: mode where
  "private_mode = 0x180"

definition private_dir :: mode where
  "private_dir = 0x1C0"

text \<open>The bits of the group and of the others\<close>

definition public_bits :: mode where
  "public_bits = 0x3F"

definition kf_load :: "key_file \<Rightarrow> json res" where
  "kf_load f =
     (case kf_content f of
        None \<Rightarrow> Inr (JObj [])
      | Some t \<Rightarrow> if kf_readable f then load_payload t else Inr (JObj []))"

definition kf_makedirs :: "mode \<Rightarrow> (key_file, unit) eff" where
  "kf_makedirs um f =
     (case kd_mode f of
        Some _ \<Rightarrow> (Inr (), f)
      | None \<Rightarrow>
          if kd_creatable f then (Inr (), f\<lparr>kd_mode := Some (private_dir AND NOT um), kd_owned := True\<rparr>)
          else (Inl (exc ''OSError'' []), f))"

definition kf_chmod_dir :: "key_file \<Rightarrow> key_file" where
  "kf_chmod_dir f = (if kd_owned f then f\<lparr>kd_mode := Some private_dir\<rparr> else f)"

definition kf_open :: "mode \<Rightarrow> key_file \<Rightarrow> key_file" where
  "kf_open um f =
     (if kf_content f = None
      then f\<lparr>kf_content := Some [], kf_mode := private_mode AND NOT um, kf_owned := True, kf_readable := True\<rparr>
      else f\<lparr>kf_content := Some []\<rparr>)"

definition kf_write :: "args \<Rightarrow> key_file \<Rightarrow> key_file" where
  "kf_write d f = f\<lparr>kf_content := Some (dumps False (JObj d))\<rparr>"

definition kf_chmod :: "key_file \<Rightarrow> key_file" where
  "kf_chmod f = (if kf_owned f then f\<lparr>kf_mode := private_mode, kf_readable := True\<rparr> else f)"

definition kf_save :: "mode \<Rightarrow> args \<Rightarrow> (key_file, unit) eff" where
  "kf_save um d f =
     (case kf_makedirs um f of
        (Inl e, f1) \<Rightarrow> (Inl e, f1)
      | (Inr _, f1) \<Rightarrow>
          (let f2 = kf_chmod_dir f1
           in if kf_writable f2 then (Inr (), kf_chmod (kf_write d (kf_open um f2)))
              else (Inl (exc ''OSError'' []), f2)))"

definition backend_key :: "string \<Rightarrow> string \<Rightarrow> string" where
  "backend_key service user = service @ ''/'' @ user"

definition kf_get :: "string \<Rightarrow> string \<Rightarrow> key_file \<Rightarrow> json res" where
  "kf_get service user f = res_bind (kf_load f) (\<lambda>d. dict_get d (backend_key service user) JNull)"

definition no_setitem :: "json \<Rightarrow> exn" where
  "no_setitem v = exc ''TypeError'' (SQ # py_type v @ [SQ] @ '' object does not support item assignment'')"

definition kf_set :: "mode \<Rightarrow> string \<Rightarrow> string \<Rightarrow> string \<Rightarrow> (key_file, unit) eff" where
  "kf_set um service user v f =
     (case kf_load f of
        Inl e \<Rightarrow> (Inl e, f)
      | Inr (JObj d) \<Rightarrow> kf_save um (dset (backend_key service user) (JStr v) d) f
      | Inr w \<Rightarrow> (Inl (no_setitem w), f))"

text \<open>\<open>data.pop(key, None)\<close> of a list raises a TypeError, of any other value an AttributeError.\<close>

definition no_pop :: "json \<Rightarrow> exn" where
  "no_pop v = (case v of JList _ \<Rightarrow> exc ''TypeError'' ''pop expected at most 1 argument, got 2'' | _ \<Rightarrow> no_attr v ''pop'')"

definition kf_del :: "mode \<Rightarrow> string \<Rightarrow> string \<Rightarrow> (key_file, unit) eff" where
  "kf_del um service user f =
     (case kf_load f of
        Inl e \<Rightarrow> (Inl e, f)
      | Inr (JObj d) \<Rightarrow> kf_save um (AList.delete (backend_key service user) d) f
      | Inr w \<Rightarrow> (Inl (no_pop w), f))"

section \<open>The store\<close>

record 's backend =
  bk_get :: "string \<Rightarrow> string \<Rightarrow> 's \<Rightarrow> json res"
  bk_set :: "string \<Rightarrow> string \<Rightarrow> string \<Rightarrow> ('s, unit) eff"
  bk_del :: "string \<Rightarrow> string \<Rightarrow> ('s, unit) eff"

definition file_backend :: "mode \<Rightarrow> key_file backend" where
  "file_backend um = \<lparr>bk_get = kf_get, bk_set = kf_set um, bk_del = kf_del um\<rparr>"

text \<open>The arguments of the store besides the backend; \<open>ly_dotenv\<close> is the text of the file, if it can be opened.\<close>

record layers =
  ly_allow_dotenv :: bool
  ly_env :: "(string \<times> string) list"
  ly_dotenv_path :: "string option"
  ly_dotenv :: "string option"

definition SERVICE :: string where "SERVICE = ''aegiscode''"
definition USER :: string where "USER = ''llm_api_key''"
definition ENV_KEY :: string where "ENV_KEY = ''OPENAI_API_KEY''"

text \<open>The lines of a text file, without their ends\<close>

fun text_lines :: "string \<Rightarrow> string \<Rightarrow> string list" where
  "text_lines acc [] = (if acc = [] then [] else [acc])"
| "text_lines acc (c # s) =
     (if c = NL then acc # text_lines [] s
      else if c = CHR 0x0D then acc # (case s of d # s' \<Rightarrow> if d = NL then text_lines [] s' else text_lines [] s | [] \<Rightarrow> [])
      else text_lines (acc @ [c]) s)"

definition dotenv_value :: "string \<Rightarrow> string" where
  "dotenv_value line = strip_chars [SQ] (strip_chars [DQ] (strip (after CHR ''='' line)))"

definition dotenv_lookup :: "string \<Rightarrow> string option" where
  "dotenv_lookup t =
     map_option dotenv_value (find (\<lambda>line. startswith line (ENV_KEY @ ''='')) (text_lines [] t))"

definition env_layer :: "layers \<Rightarrow> json" where
  "env_layer L = (case map_of (ly_env L) ENV_KEY of None \<Rightarrow> JNull | Some v \<Rightarrow> JStr v)"

definition lower_layers :: "layers \<Rightarrow> json" where
  "lower_layers L =
     (if ly_allow_dotenv L \<and> ly_dotenv_path L \<noteq> None \<and> ly_dotenv_path L \<noteq> Some []
      then (case Option.bind (ly_dotenv L) dotenv_lookup of Some v \<Rightarrow> JStr v | None \<Rightarrow> env_layer L)
      else env_layer L)"

definition get_key :: "'s backend \<Rightarrow> layers \<Rightarrow> 's \<Rightarrow> json" where
  "get_key b L s =
     (case bk_get b SERVICE USER s of
        Inr v \<Rightarrow> if truthy v then v else lower_layers L
      | Inl _ \<Rightarrow> lower_layers L)"

definition set_key :: "'s backend \<Rightarrow> string \<Rightarrow> ('s, unit) eff" where
  "set_key b v = bk_set b SERVICE USER v"

definition clear_key :: "'s backend \<Rightarrow> 's \<Rightarrow> 's" where
  "clear_key b s = snd (bk_del b SERVICE USER s)"

definition ELLIPSIS :: string where
  "ELLIPSIS = utf8 8230"

definition mask :: "string \<Rightarrow> string" where
  "mask v = (if ulen v < 8 then ''***'' else utake 3 v @ ELLIPSIS @ ulast 4 v)"

definition no_mask :: "json \<Rightarrow> exn" where
  "no_mask v = exc ''TypeError'' (''no mask for '' @ py_type v)"

text \<open>\<open>None\<close> stands for a key that is not configured; a list or a dictionary has a length, too.\<close>

definition status_of :: "json \<Rightarrow> string option res" where
  "status_of v =
     (if \<not> truthy v then Inr None
      else case v of
        JStr s \<Rightarrow> Inr (Some (mask s))
      | JList vs \<Rightarrow> if length vs < 8 then Inr (Some ''***'') else Inl (no_mask v)
      | JObj d \<Rightarrow> if length d < 8 then Inr (Some ''***'') else Inl (no_mask v)
      | _ \<Rightarrow> Inl (no_mask v))"

definition key_status :: "'s backend \<Rightarrow> layers \<Rightarrow> 's \<Rightarrow> string option res" where
  "key_status b L s = status_of (get_key b L s)"

section \<open>Which backend\<close>

text \<open>\<open>str(Path(a) / b)\<close> for a name \<open>b\<close> without slash\<close>

definition path_str :: "string \<Rightarrow> string \<Rightarrow> string" where
  "path_str a b =
     (if startswith a ''//'' \<and> \<not> startswith a ''///'' then ''//'' else if startswith a ''/'' then ''/'' else []) @
     join ''/'' (filter (\<lambda>p. p \<noteq> [] \<and> p \<noteq> ''.'') (split_on CHR ''/'' a) @ [b])"

datatype backend_choice = JsonFile string | Keyring

definition bare_layers :: layers where
  "bare_layers = \<lparr>ly_allow_dotenv = False, ly_env = [], ly_dotenv_path = None, ly_dotenv = None\<rparr>"

definition build_credential_store :: "(string \<times> string) list \<Rightarrow> bool \<Rightarrow> string \<Rightarrow> backend_choice \<times> layers" where
  "build_credential_store environ keyring_works home =
     (case map_of environ ''AEGIS_HOME'' of
        Some (c # h) \<Rightarrow> (JsonFile (path_str (c # h) ''credentials.json''), bare_layers)
      | _ \<Rightarrow>
          if keyring_works then (Keyring, bare_layers)
          else (JsonFile (path_str (path_str home ''.aegiscode'') ''credentials.json''), bare_layers))"

text \<open>The model client that a configuration selects\<close>

datatype client =
    MockClient "string list"
  | OpenAIClient string json "string option"
  | AnthropicClient string json "string option"

definition no_key_error :: "string \<Rightarrow> exn" where
  "no_key_error m = exc ''NoKeyError'' m"

definition build_llm :: "llm_cfg \<Rightarrow> json \<Rightarrow> client res" where
  "build_llm c key =
     (if llm_provider c = ''mock'' then Inr (MockClient [])
      else if \<not> truthy key then Inl (no_key_error ''no API key configured; run `aegiscode key set`'')
      else if llm_provider c = ''openai'' then Inr (OpenAIClient (llm_model c) key (base_url c))
      else if llm_provider c = ''anthropic'' then Inr (AnthropicClient (llm_model c) key (base_url c))
      else Inl (no_key_error (''unknown llm provider: '' @ py_repr (llm_provider c))))"

section \<open>The contract of a backend\<close>

locale key_backend =
  fixes b :: "'s backend" and ok :: "'s \<Rightarrow> bool"
  assumes set_get: "ok s \<Longrightarrow> str_ok v \<Longrightarrow> bk_set b SERVICE USER v s = (Inr (), s') \<Longrightarrow>
      ok s' \<and> bk_get b SERVICE USER s' = Inr (JStr v)"
    and del_get: "ok s \<Longrightarrow> bk_del b SERVICE USER s = (Inr (), s') \<Longrightarrow> ok s' \<and> bk_get b SERVICE USER s' = Inr JNull"
    and failed: "ok s \<Longrightarrow> bk_del b SERVICE USER s = (Inl e, s') \<Longrightarrow> ok s' \<and> bk_get b SERVICE USER s' = bk_get b SERVICE USER s"
begin

lemma set_key_get:
  assumes "ok s" and "str_ok v" and "v \<noteq> []" and "set_key b v s = (Inr (), s')"
  shows "ok s' \<and> get_key b L s' = JStr v"
  using set_get [of s v s'] assms by (simp add: set_key_def get_key_def)

lemma clear_key_get:
  assumes "ok s"
  shows "ok (clear_key b s) \<and> get_key b L (clear_key b s) \<in> {get_key b L s, lower_layers L}"
proof (cases "bk_del b SERVICE USER s")
  case (Pair x s')
  show ?thesis
  proof (cases x)
    case (Inl e)
    with Pair failed [OF assms, of e s'] show ?thesis by (simp add: clear_key_def get_key_def)
  next
    case (Inr u)
    with Pair del_get [OF assms, of s'] show ?thesis by (simp add: clear_key_def get_key_def)
  qed
qed

text \<open>The status never fails after a key was set, and shows its mask.\<close>

lemma set_key_status:
  assumes "ok s" and "str_ok v" and "v \<noteq> []" and "set_key b v s = (Inr (), s')"
  shows "key_status b L s' = Inr (Some (mask v))"
  using set_key_get [OF assms] assms(3) by (simp add: key_status_def status_of_def)

end

text \<open>A file that is missing, or that holds no JSON or a dictionary\<close>

definition file_ok :: "key_file \<Rightarrow> bool" where
  "file_ok f \<longleftrightarrow> (case kf_content f of None \<Rightarrow> True
     | Some t \<Rightarrow> kf_readable f \<and> (\<exists>d. load_payload t = Inr (JObj d) \<and> jwf (JObj d)))"

lemma file_load: "file_ok f \<Longrightarrow> \<exists>d. kf_load f = Inr (JObj d) \<and> jwf (JObj d)"
  by (auto simp: file_ok_def kf_load_def split: option.splits)

lemma kf_makedirs_sel:
  assumes "kf_makedirs um f = (x, f')"
  shows "kf_content (kf_chmod_dir f') = kf_content f" "kf_mode (kf_chmod_dir f') = kf_mode f" "kf_owned (kf_chmod_dir f') = kf_owned f"
    "kf_readable (kf_chmod_dir f') = kf_readable f" "kf_writable (kf_chmod_dir f') = kf_writable f"
    "kf_content f' = kf_content f" "kf_readable f' = kf_readable f"
    "kd_owned (kf_chmod_dir f') \<longrightarrow> kd_mode (kf_chmod_dir f') = Some private_dir"
  using assms by (auto simp: kf_makedirs_def kf_chmod_dir_def split: option.splits if_splits)

lemma kf_save_cases:
  assumes "kf_save um d f = (x, f')"
  obtains (failed) e where "x = Inl e" "kf_content f' = kf_content f" "kf_readable f' = kf_readable f"
  | (saved) f1 where "x = Inr ()" "kf_makedirs um f = (Inr (), f1)" "kf_writable f" "f' = kf_chmod (kf_write d (kf_open um (kf_chmod_dir f1)))"
proof -
  obtain y f1 where y: "kf_makedirs um f = (y, f1)" by fastforce
  note sel = kf_makedirs_sel [OF y]
  show thesis
  proof (cases y)
    case (Inl e)
    with y assms sel(6,7) show thesis by (intro failed) (auto simp: kf_save_def)
  next
    case (Inr u)
    show thesis
    proof (cases "kf_writable f")
      case True
      with Inr y assms sel(5) show thesis by (intro saved) (auto simp: kf_save_def Let_def)
    next
      case False
      with Inr y assms sel show thesis by (intro failed) (auto simp: kf_save_def Let_def)
    qed
  qed
qed

lemma kf_save_ok:
  assumes "kf_save um d f = (Inr (), f')" and "jwf (JObj d)" and "file_ok f"
  shows "file_ok f' \<and> kf_load f' = Inr (JObj d)"
proof -
  have "load_payload (dumps False (JObj d)) = Inr (JObj d)" using loads_dumps [OF assms(2)] by (simp add: load_payload_def)
  moreover obtain f1 where f1: "kf_makedirs um f = (Inr (), f1)" "f' = kf_chmod (kf_write d (kf_open um (kf_chmod_dir f1)))"
    using assms(1) by (auto elim: kf_save_cases)
  ultimately show ?thesis using kf_makedirs_sel [OF f1(1)] assms(3)
    by (auto simp: f1(2) kf_chmod_def kf_write_def kf_open_def file_ok_def kf_load_def assms(2)
      simp del: dumps.simps jwf.simps split: if_splits option.splits intro!: exI [of _ d] intro: assms(2))
qed

lemma jwf_update: "jwf (JObj d) \<Longrightarrow> str_ok k \<Longrightarrow> jwf v \<Longrightarrow> jwf (JObj (dset k v d))"
  by (induction d) (auto simp: list_all_iff distinct_update dom_update image_iff split: if_splits)

lemma jwf_delete: "jwf (JObj d) \<Longrightarrow> jwf (JObj (AList.delete k d))"
  by (auto simp: list_all_iff AList.delete_eq distinct_map_filter)

lemma backend_key_ok: "str_ok (backend_key SERVICE USER)"
  by (simp add: backend_key_def SERVICE_def USER_def str_ok_ascii)

interpretation key_file: key_backend "file_backend um" file_ok for um
proof
  fix s v s' assume s: "file_ok s" "str_ok v" "bk_set (file_backend um) SERVICE USER v s = (Inr (), s')"
  obtain d where d: "kf_load s = Inr (JObj d)" "jwf (JObj d)" using file_load [OF s(1)] by blast
  with s(3) have "kf_save um (dset (backend_key SERVICE USER) (JStr v) d) s = (Inr (), s')"
    by (simp add: file_backend_def kf_set_def)
  from kf_save_ok [OF this jwf_update [OF d(2) backend_key_ok] s(1)] s(2)
  show "file_ok s' \<and> bk_get (file_backend um) SERVICE USER s' = Inr (JStr v)"
    by (simp add: file_backend_def kf_get_def dict_get_def get_or_def update_conv)
next
  fix s s' assume s: "file_ok s" "bk_del (file_backend um) SERVICE USER s = (Inr (), s')"
  obtain d where d: "kf_load s = Inr (JObj d)" "jwf (JObj d)" using file_load [OF s(1)] by blast
  with s(2) have "kf_save um (AList.delete (backend_key SERVICE USER) d) s = (Inr (), s')"
    by (simp add: file_backend_def kf_del_def)
  from kf_save_ok [OF this jwf_delete [OF d(2)] s(1)]
  show "file_ok s' \<and> bk_get (file_backend um) SERVICE USER s' = Inr JNull"
    by (simp add: file_backend_def kf_get_def dict_get_def get_or_def delete_conv)
next
  fix s e s' assume s: "file_ok s" "bk_del (file_backend um) SERVICE USER s = (Inl e, s')"
  obtain d where "kf_load s = Inr (JObj d)" using file_load [OF s(1)] by blast
  with s(2) have "kf_save um (AList.delete (backend_key SERVICE USER) d) s = (Inl e, s')"
    by (simp add: file_backend_def kf_del_def)
  then have "kf_content s' = kf_content s \<and> kf_readable s' = kf_readable s" by (auto elim: kf_save_cases)
  with s(1) show "file_ok s' \<and> bk_get (file_backend um) SERVICE USER s' = bk_get (file_backend um) SERVICE USER s"
    by (cases "kf_content s") (simp_all add: file_ok_def file_backend_def kf_get_def kf_load_def)
qed

section \<open>What the user can rely on\<close>

text \<open>
  C31: A key that was stored in the file is the key that is read, whatever the lower layers hold; the
  file and its directory are then open to their owner only, where \<open>chmod\<close> is permitted; and after
  the key is cleared the lower layers count.
\<close>

theorem stored_key_roundtrip:
  assumes "file_ok f" and "str_ok v" and "v \<noteq> []" and "set_key (file_backend um) v f = (Inr (), f')"
  shows "get_key (file_backend um) L f' = JStr v \<and> (kf_owned f' \<longrightarrow> kf_mode f' = private_mode) \<and>
     (kd_owned f' \<longrightarrow> kd_mode f' = Some private_dir) \<and>
     get_key (file_backend um) L (clear_key (file_backend um) f') = lower_layers L"
proof -
  note g = key_file.set_key_get [OF assms]
  have "\<exists>d. kf_save um d f = (Inr (), f')"
    using assms(4) by (auto simp: set_key_def file_backend_def kf_set_def split: sum.splits json.splits)
  then obtain d f1 where f1: "kf_makedirs um f = (Inr (), f1)" "kf_writable f" "f' = kf_chmod (kf_write d (kf_open um (kf_chmod_dir f1)))"
    by (auto elim: kf_save_cases)
  note sel = kf_makedirs_sel [OF f1(1)]
  have dirs: "kd_mode f' = kd_mode (kf_chmod_dir f1)" "kd_owned f' = kd_owned (kf_chmod_dir f1)" "kd_creatable f' = kd_creatable (kf_chmod_dir f1)"
    by (simp_all add: f1(3) kf_chmod_def kf_write_def kf_open_def)
  have some: "kd_mode (kf_chmod_dir f1) \<noteq> None"
    using f1(1) by (auto simp: kf_makedirs_def kf_chmod_dir_def split: option.splits if_splits)
  have w: "kf_writable f'" "kf_owned f' \<longrightarrow> kf_mode f' = private_mode"
    using f1(2) sel by (auto simp: f1(3) kf_chmod_def kf_write_def kf_open_def)
  obtain d where "kf_load f' = Inr (JObj d)" using g file_load by blast
  with w(1) have "\<exists>f2. bk_del (file_backend um) SERVICE USER f' = (Inr (), f2)"
    using some dirs by (auto simp: file_backend_def kf_del_def kf_save_def kf_makedirs_def kf_chmod_dir_def Let_def)
  with key_file.del_get g have "get_key (file_backend um) L (clear_key (file_backend um) f') = lower_layers L"
    by (fastforce simp: clear_key_def get_key_def)
  with g w dirs sel(8) show ?thesis by simp
qed

definition demo_key_file :: key_file where
  "demo_key_file = \<lparr>kd_mode = None, kd_owned = False, kd_creatable = True, kf_content = None, kf_mode = 0, kf_owned = False, kf_readable = False, kf_writable = True\<rparr>"

lemma demo_set_key: "file_ok demo_key_file" "set_key (file_backend 0x12) v demo_key_file = (Inr (), snd (set_key (file_backend 0x12) v demo_key_file))"
  by (simp_all add: demo_key_file_def file_ok_def set_key_def file_backend_def kf_set_def kf_load_def kf_save_def
      kf_makedirs_def kf_chmod_dir_def Let_def)

theorem stored_key_roundtrip_witness:
  "get_key (file_backend 0x12) bare_layers (snd (set_key (file_backend 0x12) ''sk-12345678'' demo_key_file)) = JStr ''sk-12345678''"
proof -
  have "str_ok ''sk-12345678''" by (simp add: str_ok_ascii)
  from stored_key_roundtrip [OF demo_set_key(1) this _ demo_set_key(2)] show ?thesis by simp
qed

lemma sublist_at:
  assumes "sublist v (xs @ c # ys)" and "c \<notin> set v"
  shows "sublist v xs \<or> sublist v ys"
proof -
  from assms(1) obtain ps ss where "xs @ c # ys = ps @ v @ ss" by (auto simp: sublist_def)
  then consider us where "xs = ps @ us" "us @ c # ys = v @ ss" | us where "xs @ us = ps" "c # ys = us @ v @ ss"
    by (auto simp: append_eq_append_conv2)
  then show ?thesis
  proof cases
    case (1 us)
    then consider ws where "us = v @ ws" | ws where "us @ ws = v" "c # ys = ws @ ss" by (auto simp: append_eq_append_conv2)
    then show ?thesis
    proof cases
      case (2 ws)
      with assms(2) have "ws = []" by (cases ws) auto
      with 2 1 show ?thesis by (auto simp: sublist_def intro: exI [of _ "[]"])
    qed (use 1 in \<open>auto simp: sublist_def\<close>)
  next
    case (2 us)
    with assms(2) show ?thesis by (cases us; cases v) (auto simp: sublist_def)
  qed
qed

lemma ELLIPSIS_bytes: "ELLIPSIS = [CHR 0xE2, CHR 0x80, CHR 0xA6]"
proof -
  have "char_of (of_char c :: nat) = c" for c by simp
  from this [of "CHR 0xE2"] this [of "CHR 0x80"] this [of "CHR 0xA6"] show ?thesis
    by (simp add: ELLIPSIS_def utf8.simps)
qed

lemma mask_long:
  assumes "ascii v" and "8 \<le> length v"
  shows "\<not> sublist v (mask v)" and "ulen (mask v) = 8"
proof -
  have m: "mask v = take 3 v @ CHR 0xE2 # CHR 0x80 # CHR 0xA6 # drop (length v - 4) v"
    using assms by (simp add: mask_def ulen_ascii utake_ascii ulast_ascii ELLIPSIS_bytes)
  have c: "c \<notin> set v" if "128 \<le> (of_char c :: nat)" for c
    using assms(1) that by (auto simp: ascii_def list_all_iff)
  have b: "128 \<le> (of_char CHR 0xE2 :: nat)" "128 \<le> (of_char CHR 0x80 :: nat)" "128 \<le> (of_char CHR 0xA6 :: nat)" by simp_all
  show "\<not> sublist v (mask v)"
  proof
    assume "sublist v (mask v)"
    then consider "sublist v (take 3 v)" | "sublist v ([] @ CHR 0x80 # CHR 0xA6 # drop (length v - 4) v)"
      unfolding m using sublist_at [OF _ c [OF b(1)]] by fastforce
    then show False
    proof cases
      case 1
      from sublist_length_le [OF this] assms(2) show False by simp
    next
      case 2
      from sublist_at [OF 2 c [OF b(2)]] assms(2) have "sublist v ([] @ CHR 0xA6 # drop (length v - 4) v)" by auto
      from sublist_at [OF this c [OF b(3)]] assms(2) have "sublist v (drop (length v - 4) v)" by auto
      from sublist_length_le [OF this] assms(2) show False by simp
    qed
  qed
  have "mask v = utf8s (take 3 (cps v) @ 8230 # drop (length v - 4) (cps v)) @ []"
    using assms by (simp add: mask_def ulen_ascii utake_def ulast_def ELLIPSIS_def cps_ascii)
  moreover have "\<forall>x \<in> set (take 3 (cps v) @ 8230 # drop (length v - 4) (cps v)). x < 1114112"
    using assms(1) by (fastforce simp: cps_ascii ascii_def list_all_iff dest!: in_set_takeD in_set_dropD)
  ultimately have "cps (mask v) = take 3 (cps v) @ 8230 # drop (length v - 4) (cps v)"
    using cps_utf8s [of _ "[]"] by (metis append_Nil2 cps.simps(1))
  then show "ulen (mask v) = 8" using assms by (simp add: ulen_def cps_ascii)
qed

text \<open>
  C32: The status never shows the key: the mask is at most eight characters long and does not
  contain the key (of ASCII characters, not all of them stars).
\<close>

theorem status_hides_key:
  assumes "file_ok f" and "ascii v" and "\<not> set v \<subseteq> {CHR ''*''}" and "set_key (file_backend um) v f = (Inr (), f')"
  shows "\<exists>m. key_status (file_backend um) L f' = Inr (Some m) \<and> \<not> str_in v m \<and> ulen m \<le> 8"
proof -
  have ne: "v \<noteq> []" using assms(3) by auto
  have st: "key_status (file_backend um) L f' = Inr (Some (mask v))"
    using key_file.set_key_status [OF assms(1) str_ok_ascii [OF assms(2)] ne assms(4)] .
  show ?thesis
  proof (cases "length v < 8")
    case True
    then have m: "mask v = ''***''" using assms(2) by (simp add: mask_def ulen_ascii)
    have "\<not> sublist v ''***''"
    proof
      assume "sublist v ''***''"
      then have "set v \<subseteq> set ''***''" by (rule set_mono_sublist)
      with assms(3) show False by auto
    qed
    with st m show ?thesis by (simp add: str_in_iff_sublist ulen_ascii)
  next
    case False
    with mask_long [OF assms(2)] st show ?thesis by (simp add: str_in_iff_sublist)
  qed
qed

theorem status_hides_key_witness:
  "\<exists>m. key_status (file_backend 0x12) bare_layers (snd (set_key (file_backend 0x12) ''sk-12345678'' demo_key_file)) = Inr (Some m) \<and>
     \<not> str_in ''sk-12345678'' m"
proof -
  have "ascii ''sk-12345678''" "\<not> set ''sk-12345678'' \<subseteq> {CHR ''*''}" by simp_all
  from status_hides_key [OF demo_set_key(1) this demo_set_key(2)] show ?thesis by blast
qed

text \<open>
  A key file that is new is never open to others, with any umask; a file that was there keeps its
  permissions while the key is written, so a key file that others can read shows them the new key
  until \<open>chmod\<close> runs.
\<close>

theorem key_write_window:
  "kf_mode (kf_write d (kf_open um f)) AND public_bits = (if kf_content f = None then 0 else kf_mode f AND public_bits) \<and>
   kf_content (kf_write d (kf_open um f)) = Some (dumps False (JObj d))"
proof -
  have "(private_mode AND NOT um) AND public_bits = (private_mode AND public_bits) AND NOT um" by (simp add: and.commute and.left_commute)
  also have "private_mode AND public_bits = 0" by (simp add: private_mode_def public_bits_def)
  finally show ?thesis by (simp add: kf_write_def kf_open_def)
qed

text \<open>
  The key in the environment is never used: the store that the program builds reads its backend
  only, so with an empty backend and a real provider no model client is made, even when
  \<open>OPENAI_API_KEY\<close> is set and the configuration allows the \<open>.env\<close> file.
\<close>

theorem environment_key_ignored:
  "get_key b (snd (build_credential_store environ kw home)) s =
     (case bk_get b SERVICE USER s of Inr v \<Rightarrow> if truthy v then v else JNull | Inl _ \<Rightarrow> JNull) \<and>
   (\<exists>e. build_llm (llm default_config)
       (get_key (file_backend um) (snd (build_credential_store ((''OPENAI_API_KEY'', ''sk-1'') # environ) kw home)) demo_key_file) = Inl e \<and>
     exn_class e = ''NoKeyError'')"
proof -
  have bare: "snd (build_credential_store environ kw home) = bare_layers" for environ
    by (simp add: build_credential_store_def split: option.splits list.splits)
  have "lower_layers bare_layers = JNull" by (simp add: lower_layers_def bare_layers_def env_layer_def)
  moreover have "get_key (file_backend um) bare_layers demo_key_file = JNull"
    by (simp add: get_key_def file_backend_def kf_get_def kf_load_def demo_key_file_def dict_get_def get_or_def
        lower_layers_def bare_layers_def env_layer_def)
  ultimately show ?thesis
    by (simp add: bare get_key_def build_llm_def default_config_def no_key_error_def exc_def split: sum.splits)
qed

end
