(* ===== verification/Api.thy ===== *)
theory Api
  imports Async_Run Credentials
begin

text \<open>
  The HTTP clients of the providers (src/aegiscode/llm/openai_adapter.py, anthropic_adapter.py) and
  the REST layer (service/api.py) with the demo mode (service/demo_mode.py).  The transport, the
  copying of the demo project and the framework that turns a handler into a response are
  arguments; a handler is modelled from the decoded request to the status and the body.
\<close>

section \<open>Indexing of decoded values\<close>

definition not_subscriptable :: "json \<Rightarrow> exn" where
  "not_subscriptable v = exc ''TypeError'' (SQ # py_type v @ [SQ] @ '' object is not subscriptable'')"

text \<open>\<open>v[k]\<close> for a text and for the number 0\<close>

definition item_str :: "json \<Rightarrow> string \<Rightarrow> json res" where
  "item_str v k =
     (case v of
        JObj d \<Rightarrow> get_item d k
      | JList _ \<Rightarrow> Inl (exc ''TypeError'' ''list indices must be integers or slices, not str'')
      | JStr _ \<Rightarrow> Inl (exc ''TypeError'' ''string indices must be integers, not str'')
      | _ \<Rightarrow> Inl (not_subscriptable v))"

definition item_0 :: "json \<Rightarrow> json res" where
  "item_0 v =
     (case v of
        JObj _ \<Rightarrow> Inl (exc ''KeyError'' ''0'')
      | JList [] \<Rightarrow> Inl (exc ''IndexError'' ''list index out of range'')
      | JList (x # _) \<Rightarrow> Inr x
      | JStr [] \<Rightarrow> Inl (exc ''IndexError'' ''string index out of range'')
      | JStr s \<Rightarrow> Inr (JStr (utake 1 s))
      | _ \<Rightarrow> Inl (not_subscriptable v))"

section \<open>The clients\<close>

record request =
  rq_url :: string
  rq_headers :: "(string \<times> string) list"
  rq_body :: json

definition or_default :: "string option \<Rightarrow> string \<Rightarrow> string" where
  "or_default b d = (case b of None \<Rightarrow> d | Some [] \<Rightarrow> d | Some u \<Rightarrow> u)"

definition message_json :: "message \<Rightarrow> json" where
  "message_json m = JObj [(''role'', JStr (role m)), (''content'', JStr (content m))]"

definition openai_request :: "string \<Rightarrow> string \<Rightarrow> string option \<Rightarrow> message list \<Rightarrow> request" where
  "openai_request model key base msgs =
     \<lparr>rq_url = or_default base ''https://api.openai.com/v1'' @ ''/chat/completions'',
      rq_headers = [(''Authorization'', ''Bearer '' @ key)],
      rq_body = JObj [(''model'', JStr model), (''messages'', JList (map message_json msgs))]\<rparr>"

definition openai_reply :: "json \<Rightarrow> json res" where
  "openai_reply r =
     res_bind (item_str r ''choices'') (\<lambda>cs. res_bind (item_0 cs) (\<lambda>c.
       res_bind (item_str c ''message'') (\<lambda>m. item_str m ''content'')))"

definition openai_complete :: "(request \<Rightarrow> json res) \<Rightarrow> string \<Rightarrow> string \<Rightarrow> string option \<Rightarrow> message list \<Rightarrow> json res" where
  "openai_complete post model key base msgs = res_bind (post (openai_request model key base msgs)) openai_reply"

definition anthropic_request :: "string \<Rightarrow> string \<Rightarrow> string option \<Rightarrow> message list \<Rightarrow> request" where
  "anthropic_request model key base msgs =
     \<lparr>rq_url = or_default base ''https://api.anthropic.com'' @ ''/v1/messages'',
      rq_headers = [(''x-api-key'', key), (''anthropic-version'', ''2023-06-01'')],
      rq_body = JObj [(''model'', JStr model), (''max_tokens'', JInt 4096),
        (''system'', JStr (join [NL] (map content (filter (\<lambda>m. role m = ''system'') msgs)))),
        (''messages'', JList (map message_json (filter (\<lambda>m. role m \<noteq> ''system'') msgs)))]\<rparr>"

text \<open>The texts of the blocks of type text\<close>

fun block_texts :: "json list \<Rightarrow> string list res" where
  "block_texts [] = Inr []"
| "block_texts (b # bs) =
     res_bind (dict_get b ''type'' JNull) (\<lambda>t.
       if t = JStr ''text''
       then res_bind (item_str b ''text'') (\<lambda>x.
              case x of
                JStr s \<Rightarrow> res_bind (block_texts bs) (\<lambda>rest. Inr (s # rest))
              | _ \<Rightarrow> Inl (exc ''TypeError'' ''sequence item: expected str instance''))
       else block_texts bs)"

text \<open>The loop over \<open>r["content"]\<close>: a dictionary yields its keys, a text its characters\<close>

definition iterate :: "json \<Rightarrow> json list res" where
  "iterate v =
     (case v of
        JList vs \<Rightarrow> Inr vs
      | JObj d \<Rightarrow> Inr (map (JStr \<circ> fst) d)
      | JStr s \<Rightarrow> Inr (map (\<lambda>c. JStr (utf8 c)) (cps s))
      | _ \<Rightarrow> Inl (exc ''TypeError'' (SQ # py_type v @ [SQ] @ '' object is not iterable'')))"

definition anthropic_reply :: "json \<Rightarrow> json res" where
  "anthropic_reply r =
     res_bind (item_str r ''content'') (\<lambda>c. res_bind (iterate c) (\<lambda>bs.
       res_bind (block_texts bs) (\<lambda>ts. Inr (JStr (concat ts)))))"

definition anthropic_complete :: "(request \<Rightarrow> json res) \<Rightarrow> string \<Rightarrow> string \<Rightarrow> string option \<Rightarrow> message list \<Rightarrow> json res" where
  "anthropic_complete post model key base msgs = res_bind (post (anthropic_request model key base msgs)) anthropic_reply"

section \<open>Rows as dictionaries\<close>

definition opt_json :: "string option \<Rightarrow> json" where
  "opt_json x = (case x of None \<Rightarrow> JNull | Some s \<Rightarrow> JStr s)"

definition task_json :: "task_row \<Rightarrow> json" where
  "task_json r = JObj
     [(''task_id'', JStr (tk_id r)), (''workspace_path'', JStr (tk_workspace_path r)),
      (''workspace_hash'', JStr (tk_workspace_hash r)), (''task_description'', JStr (tk_description r)),
      (''state'', JStr (tk_state r)), (''termination_reason'', opt_json (tk_termination_reason r)),
      (''step_count'', JInt (tk_step_count r)), (''created_at'', JStr (tk_created_at r)), (''updated_at'', JStr (tk_updated_at r))]"

definition approval_json :: "approval_row \<Rightarrow> json" where
  "approval_json r = JObj
     [(''approval_id'', JStr (ap_id r)), (''task_id'', JStr (ap_task_id r)), (''step_index'', JInt (ap_step_index r)),
      (''action_snapshot_json'', JStr (ap_action_snapshot_json r)), (''action_fingerprint'', JStr (ap_action_fingerprint r)),
      (''governance_decision'', JStr (ap_governance_decision r)), (''triggered_rule_id'', JStr (ap_triggered_rule_id r)),
      (''reason'', JStr (ap_reason r)), (''risk_explanation'', JStr (ap_risk_explanation r)), (''state'', JStr (ap_state r)),
      (''remember_choice'', JInt (ap_remember_choice r)), (''created_at'', JStr (ap_created_at r)),
      (''decided_at'', opt_json (ap_decided_at r)), (''decided_by'', opt_json (ap_decided_by r))]"

definition event_json :: "audit_row \<Rightarrow> json" where
  "event_json r = JObj
     [(''event_id'', JInt (int (ev_id r))), (''task_id'', JStr (ev_task_id r)), (''step_index'', JInt (ev_step_index r)),
      (''timestamp'', JStr (ev_timestamp r)), (''event_type'', JStr (ev_type r)), (''payload_json'', JStr (ev_payload_json r)),
      (''prev_hash'', JStr (ev_prev_hash r)), (''hash'', JStr (ev_hash r))]"

section \<open>Demo mode\<close>

definition is_demo_mode :: "(string \<times> string) list \<Rightarrow> bool" where
  "is_demo_mode environ \<longleftrightarrow> map_of environ ''AEGIS_DEMO_MODE'' = Some ''1''"

definition validate_demo_request :: "(string \<times> string) list \<Rightarrow> string \<Rightarrow> unit res" where
  "validate_demo_request environ ws_dir =
     (if is_demo_mode environ \<and> ws_dir \<noteq> ''demo''
      then Inl (exc ''ValueError'' ''In demo mode, workspace must be 'demo' (arbitrary paths are not permitted)'')
      else Inr ())"

section \<open>Handlers\<close>

record response =
  rs_status :: nat
  rs_body :: json

definition respond :: "json \<Rightarrow> response" where
  "respond v = \<lparr>rs_status = 200, rs_body = v\<rparr>"

definition http_error :: "nat \<Rightarrow> string \<Rightarrow> response" where
  "http_error c m = \<lparr>rs_status = c, rs_body = JObj [(''detail'', JStr m)]\<rparr>"

definition internal_error :: response where
  "internal_error = http_error 500 ''internal error''"

definition no_task :: "string \<Rightarrow> response" where
  "no_task i = http_error 404 (''Task not found: '' @ i)"

text \<open>What the layer asks of the service and of the copying of the demo project\<close>

record services =
  sv_create :: "string \<Rightarrow> string \<Rightarrow> (world, string) eff"
  sv_decide :: "string \<Rightarrow> bool \<Rightarrow> world \<Rightarrow> world"
  sv_cancel :: "string \<Rightarrow> world \<Rightarrow> world"
  sv_copy_demo :: "(world, string) eff"
  sv_remove_demo :: "string \<Rightarrow> world \<Rightarrow> world"

definition post_created :: "(string \<Rightarrow> world \<Rightarrow> world) \<Rightarrow> string option \<Rightarrow> string res \<times> world \<Rightarrow> response \<times> world" where
  "post_created remove tmp xw =
     (case xw of
        (Inr i, w) \<Rightarrow> (respond (JObj [(''task_id'', JStr i)]), w)
      | (Inl e, w) \<Rightarrow>
          if exn_class e = ''WorkspaceNotAllowedError''
          then (http_error 400 (exn_msg e), case tmp of None \<Rightarrow> w | Some t \<Rightarrow> if t = [] then w else remove t w)
          else (internal_error, w))"

definition post_tasks :: "services \<Rightarrow> (string \<times> string) list \<Rightarrow> string \<Rightarrow> string \<Rightarrow> world \<Rightarrow> response \<times> world" where
  "post_tasks V environ ws_dir d w =
     (case validate_demo_request environ ws_dir of
        Inl e \<Rightarrow> (http_error 400 (exn_msg e), w)
      | Inr _ \<Rightarrow>
          if is_demo_mode environ \<and> ws_dir = ''demo''
          then (case sv_copy_demo V w of
                  (Inl e, w1) \<Rightarrow> (internal_error, w1)
                | (Inr t, w1) \<Rightarrow> post_created (sv_remove_demo V) (Some t) (sv_create V t d w1))
          else post_created (sv_remove_demo V) None (sv_create V ws_dir d w))"

definition get_task_response :: "string \<Rightarrow> world \<Rightarrow> response" where
  "get_task_response i w = (case get_task i w of Inl _ \<Rightarrow> no_task i | Inr r \<Rightarrow> respond (task_json r))"

definition get_events_response :: "string \<Rightarrow> int \<Rightarrow> world \<Rightarrow> response" where
  "get_events_response i since w =
     (case get_task i w of
        Inl _ \<Rightarrow> no_task i
      | Inr r \<Rightarrow>
          (case loads (redact (dumps False (JList (map event_json (get_events i since w)))) (Some (tk_workspace_path r))) of
             Inl _ \<Rightarrow> internal_error
           | Inr v \<Rightarrow> respond v))"

definition get_approvals_response :: "string \<Rightarrow> world \<Rightarrow> response" where
  "get_approvals_response i w =
     (case get_task i w of Inl _ \<Rightarrow> no_task i | Inr _ \<Rightarrow> respond (JList (map approval_json (list_approvals i w))))"

definition post_decision :: "services \<Rightarrow> string \<Rightarrow> bool \<Rightarrow> world \<Rightarrow> response \<times> world" where
  "post_decision V i approved w = (respond (JObj [(''status'', JStr ''ok'')]), sv_decide V i approved w)"

definition post_cancel :: "services \<Rightarrow> string \<Rightarrow> world \<Rightarrow> response \<times> world" where
  "post_cancel V i w = (respond (JObj [(''status'', JStr ''ok'')]), sv_cancel V i w)"

definition get_audit_response :: "env \<Rightarrow> string \<Rightarrow> world \<Rightarrow> response" where
  "get_audit_response E i w =
     (case get_task i w of
        Inl _ \<Rightarrow> no_task i
      | Inr _ \<Rightarrow> (case get_audit E i w of (valid, events) \<Rightarrow>
          respond (JObj [(''chain_valid'', JBool valid), (''events'', JList (map event_json events))])))"

definition get_credentials_response :: "'s backend \<Rightarrow> layers \<Rightarrow> 's \<Rightarrow> response" where
  "get_credentials_response b L s =
     (case key_status b L s of
        Inl _ \<Rightarrow> internal_error
      | Inr None \<Rightarrow> respond (JObj [(''configured'', JBool False), (''masked'', JNull)])
      | Inr (Some m) \<Rightarrow> respond (JObj [(''configured'', JBool True), (''masked'', JStr m)]))"

definition healthz_response :: "(string \<times> string) list \<Rightarrow> response" where
  "healthz_response environ =
     respond (JObj [(''status'', JStr ''ok''), (''service'', JStr ''aegiscode''),
       (''mode'', JStr (if is_demo_mode environ then ''demo'' else ''standard''))])"

definition ui_config_response :: "(string \<times> string) list \<Rightarrow> response" where
  "ui_config_response environ = respond (JObj [(''demo_mode'', JBool (is_demo_mode environ))])"

text \<open>The backend without any key\<close>

definition null_backend :: "unit backend" where
  "null_backend = \<lparr>bk_get = \<lambda>_ _ _. Inr JNull, bk_set = \<lambda>_ _ _ s. (Inr (), s), bk_del = \<lambda>_ _ s. (Inr (), s)\<rparr>"

section \<open>The contract of the service\<close>

locale task_service =
  fixes V :: services and base :: string
  assumes rejected: "sv_create V ws_dir d w = (Inl e, w') \<Longrightarrow> exn_class e = ''WorkspaceNotAllowedError'' \<Longrightarrow> w' = w"
    and created: "sv_create V ws_dir d w = (Inr i, w') \<Longrightarrow>
      validate_workspace (os_fs w) (os_cwd w) ws_dir base = Inr () \<and> (\<exists>row. get_task i w' = Inr row \<and> tk_workspace_path row = ws_dir)"
begin

lemma post_created_status:
  assumes "post_created remove tmp (sv_create V t d w1) = (r, w')"
  shows "rs_status r = 400 \<and> w' = (case tmp of None \<Rightarrow> w1 | Some u \<Rightarrow> if u = [] then w1 else remove u w1) \<or> rs_status r = 500 \<or>
    rs_status r = 200 \<and> validate_workspace (os_fs w1) (os_cwd w1) t base = Inr () \<and>
      (\<exists>i row. rs_body r = JObj [(''task_id'', JStr i)] \<and> get_task i w' = Inr row \<and> tk_workspace_path row = t)"
proof -
  obtain x w2 where c: "sv_create V t d w1 = (x, w2)" by fastforce
  show ?thesis
  proof (cases x)
    case (Inl e)
    with assms c rejected [of t d w1 e w2] show ?thesis
      by (auto simp: post_created_def internal_error_def http_error_def split: if_splits)
  next
    case (Inr i)
    with assms c created [of t d w1 i w2] show ?thesis by (auto simp: post_created_def respond_def)
  qed
qed

lemma post_contract:
  assumes "post_tasks V environ ws_dir d w = (r, w')"
  shows "rs_status r \<in> {200, 400, 500} \<and>
    (is_demo_mode environ \<and> ws_dir \<noteq> ''demo'' \<longrightarrow> rs_status r = 400) \<and>
    (rs_status r = 400 \<longrightarrow> w' = w \<or>
       is_demo_mode environ \<and> ws_dir = ''demo'' \<and> (\<exists>t w1. sv_copy_demo V w = (Inr t, w1) \<and> w' = (if t = [] then w1 else sv_remove_demo V t w1))) \<and>
    (rs_status r = 200 \<longrightarrow> (\<exists>t w1 i row. (if is_demo_mode environ then ws_dir = ''demo'' \<and> sv_copy_demo V w = (Inr t, w1) else t = ws_dir \<and> w1 = w) \<and>
       validate_workspace (os_fs w1) (os_cwd w1) t base = Inr () \<and>
       rs_body r = JObj [(''task_id'', JStr i)] \<and> get_task i w' = Inr row \<and> tk_workspace_path row = t))"
proof (cases "is_demo_mode environ")
  case False
  with assms have "post_created (sv_remove_demo V) None (sv_create V ws_dir d w) = (r, w')"
    by (simp add: post_tasks_def validate_demo_request_def)
  from post_created_status [OF this] False show ?thesis by auto
next
  case demo: True
  show ?thesis
  proof (cases "ws_dir = ''demo''")
    case False
    with assms demo show ?thesis by (auto simp: post_tasks_def validate_demo_request_def http_error_def)
  next
    case True
    obtain x w1 where x: "sv_copy_demo V w = (x, w1)" by fastforce
    show ?thesis
    proof (cases x)
      case (Inl e)
      with assms demo True x show ?thesis by (auto simp: post_tasks_def validate_demo_request_def internal_error_def http_error_def)
    next
      case (Inr t)
      with assms demo True x have "post_created (sv_remove_demo V) (Some t) (sv_create V t d w1) = (r, w')"
        by (simp add: post_tasks_def validate_demo_request_def)
      from post_created_status [OF this] demo True x Inr show ?thesis by auto
    qed
  qed
qed

end

section \<open>The services behind the layer\<close>

text \<open>\<open>decide\<close> of a service whose approvals are decided at once finds no thread to wake.\<close>

definition sync_services :: "service \<Rightarrow> (world, string) eff \<Rightarrow> (string \<Rightarrow> world \<Rightarrow> world) \<Rightarrow> services" where
  "sync_services S copy_demo remove_demo =
     \<lparr>sv_create = (\<lambda>ws_dir d. create_task S ws_dir d False),
      sv_decide = (\<lambda>i b. set_request_state (s_env S) i (state_of_decision b) ''service''),
      sv_cancel = (\<lambda>i w. w), sv_copy_demo = copy_demo, sv_remove_demo = remove_demo\<rparr>"

text \<open>
  The service that \<open>serve\<close> assembles, also the one of the manager of the demonstrations
  (\<open>S = manager_service U\<close>): a created task runs in a thread of its own.  The cancellation flags lie outside
  the world, a run reads them from \<open>s_cancelled\<close>.
\<close>

definition async_services :: "service \<Rightarrow> (world, string) eff \<Rightarrow> (string \<Rightarrow> world \<Rightarrow> world) \<Rightarrow> services" where
  "async_services S copy_demo remove_demo =
     \<lparr>sv_create = create_task_async S, sv_decide = decide (s_env S),
      sv_cancel = (\<lambda>i w. w), sv_copy_demo = copy_demo, sv_remove_demo = remove_demo\<rparr>"

lemma collect_error: "collect_steps rs m = Inl e \<Longrightarrow> e = int_limit_error"
proof (induction rs arbitrary: m)
  case (Cons r rs)
  then show ?case by (auto simp: load_payload_def res_bind_def split: sum.splits jerr.splits)
qed simp

lemma insert_step_error: "insert_step E i se w = (Inl e, w') \<Longrightarrow> exn_class e \<in> {''AttributeError'', ''ProgrammingError''}"
  by (auto simp: insert_step_def dict_get_def binding_error_def no_attr_def exc_def res_bind_def
      split: prod.splits sum.splits json.splits if_splits)

lemma insert_steps_error: "insert_steps E i ses n w = (Inl e, w') \<Longrightarrow> exn_class e \<in> {''AttributeError'', ''ProgrammingError''}"
proof (induction ses arbitrary: n w)
  case (Cons se ses)
  obtain x w1 where "insert_step E i se w = (x, w1)" by fastforce
  with Cons insert_step_error [of E i se w] show ?case by (cases x) auto
qed simp

lemma run_harness_error: "run_harness E h i d w = (Inl e, w') \<Longrightarrow> exn_class e \<noteq> ''WorkspaceNotAllowedError''"
proof (erule run_harness_finish)
  fix r w1 assume "finish_task E i r w1 = (Inl e, w')"
  then have "fst (project_steps E i w1) = Inl e"
    by (cases "project_steps E i w1") (auto simp: finish_task_def andThen_def read_now_def split: sum.splits)
  then show ?thesis
    using collect_error insert_steps_error
    by (cases "project_steps E i w1") (fastforce simp: project_steps_def int_limit_error_def exc_def split: sum.splits)
qed

lemma create_task_rejected:
  assumes "create_task_with E base start_run ws_dir d w = (Inl e, w')" and "exn_class e = ''WorkspaceNotAllowedError''"
    and start_run: "\<And>i w e w'. start_run i w = (Inl e, w') \<Longrightarrow> exn_class e \<noteq> ''WorkspaceNotAllowedError''"
  shows "w' = w \<and> validate_workspace (os_fs w) (os_cwd w) ws_dir base = Inl e"
proof (cases "validate_workspace (os_fs w) (os_cwd w) ws_dir base")
  case (Inl e')
  with assms(1) show ?thesis by (simp add: create_task_with_def)
next
  case (Inr u)
  let ?w1 = "w\<lparr>w_uuids := Suc (w_uuids w), w_ticks := Suc (w_ticks w)\<rparr>"
  obtain y db where ins: "task_insert (e_uuid E (w_uuids w)) (e_now E (w_ticks w)) ws_dir
      (workspace_hash (e_hash E) ws_dir) d (w_db w) = (y, db)" by fastforce
  show ?thesis
  proof (cases y)
    case (Inl e')
    then have "exn_class e' = ''IntegrityError''"
      using ins by (auto simp: task_insert_def integrity_error_def exc_def split: if_splits)
    with Inl assms(1,2) Inr ins show ?thesis
      by (simp add: create_task_with_def read_uuid_def read_now_def on_db_def andThen_def)
  next
    case y: (Inr j)
    obtain z w2 where z: "start_run j (?w1\<lparr>w_db := db\<rparr>) = (z, w2)" by fastforce
    with assms(1) Inr ins y have "z = Inl e"
      by (cases z) (simp_all add: create_task_with_def read_uuid_def read_now_def on_db_def andThen_def)
    with start_run z assms(2) show ?thesis by blast
  qed
qed

interpretation sync_api: task_service "sync_services S copy_demo remove_demo" "base_of (s_config S)" for S copy_demo remove_demo
proof
  fix ws_dir d w e w' assume s: "sv_create (sync_services S copy_demo remove_demo) ws_dir d w = (Inl e, w')"
    and x: "exn_class e = ''WorkspaceNotAllowedError''"
  from s have "create_task_with (s_env S) (base_of (s_config S)) (\<lambda>i. run_inline S i ws_dir d False) ws_dir d w = (Inl e, w')"
    by (simp add: sync_services_def create_task_def)
  from create_task_rejected [OF this x] run_harness_error show "w' = w" unfolding run_inline_def by blast
next
  fix ws_dir d w i w' assume "sv_create (sync_services S copy_demo remove_demo) ws_dir d w = (Inr i, w')"
  then have "create_task S ws_dir d False w = (Inr i, w')" by (simp add: sync_services_def)
  from created_row [OF this] create_task_steps [OF this]
  show "validate_workspace (os_fs w) (os_cwd w) ws_dir (base_of (s_config S)) = Inr () \<and>
      (\<exists>row. get_task i w' = Inr row \<and> tk_workspace_path row = ws_dir)" by blast
qed

interpretation async_api: task_service "async_services S copy_demo remove_demo" "base_of (s_config S)" for S copy_demo remove_demo
proof
  fix ws_dir d w e w' assume s: "sv_create (async_services S copy_demo remove_demo) ws_dir d w = (Inl e, w')"
    and x: "exn_class e = ''WorkspaceNotAllowedError''"
  from s have "create_task_with (s_env S) (base_of (s_config S)) (\<lambda>i. ret ()) ws_dir d w = (Inl e, w')"
    by (simp add: async_services_def create_task_async_def)
  from create_task_rejected [OF this x] show "w' = w" by (simp add: ret_def)
next
  fix ws_dir d w i w' assume "sv_create (async_services S copy_demo remove_demo) ws_dir d w = (Inr i, w')"
  then have c: "create_task_with (s_env S) (base_of (s_config S)) (\<lambda>i. ret ()) ws_dir d w = (Inr i, w')"
    by (simp add: async_services_def create_task_async_def)
  from create_task_with_Inr [OF c] obtain w1 where w1: "validate_workspace (os_fs w) (os_cwd w) ws_dir (base_of (s_config S)) = Inr ()"
    "task_insert i (e_now (s_env S) (w_ticks w)) ws_dir (workspace_hash (e_hash (s_env S)) ws_dir) d (w_db w) = (Inr i, w_db w1)" "w' = w1"
    by (auto simp: ret_def)
  from task_insert_get(2) [OF w1(2)] w1(1,3)
  show "validate_workspace (os_fs w) (os_cwd w) ws_dir (base_of (s_config S)) = Inr () \<and>
      (\<exists>row. get_task i w' = Inr row \<and> tk_workspace_path row = ws_dir)" by (simp add: get_task_def)
qed

section \<open>What a caller can rely on\<close>

text \<open>
  C33: A request for a task, of the panel and of the demonstrations (\<open>async_services\<close>) as well as of a
  synchronous service.  Answered with 400 it changes nothing; the one exception is the demo mode, where
  the copy made for the workspace \<open>demo\<close> is handed to its removal, and where every other workspace is
  refused.  Answered with 200 its workspace, in demo mode the copy, lies in the allowed base, and the task
  can be read under the identifier in the answer.
\<close>

theorem post_tasks_contract:
  assumes "post_tasks V environ ws_dir d w = (r, w')"
    and "V = async_services S copy_demo remove_demo \<or> V = sync_services S copy_demo remove_demo"
  shows "rs_status r \<in> {200, 400, 500} \<and>
    (is_demo_mode environ \<and> ws_dir \<noteq> ''demo'' \<longrightarrow> rs_status r = 400) \<and>
    (rs_status r = 400 \<longrightarrow> w' = w \<or>
       is_demo_mode environ \<and> ws_dir = ''demo'' \<and> (\<exists>t w1. copy_demo w = (Inr t, w1) \<and> w' = (if t = [] then w1 else remove_demo t w1))) \<and>
    (rs_status r = 200 \<longrightarrow> (\<exists>t w1 i row. (if is_demo_mode environ then ws_dir = ''demo'' \<and> copy_demo w = (Inr t, w1) else t = ws_dir \<and> w1 = w) \<and>
       validate_workspace (os_fs w1) (os_cwd w1) t (base_of (s_config S)) = Inr () \<and>
       rs_body r = JObj [(''task_id'', JStr i)] \<and> rs_status (get_task_response i w') = 200 \<and>
       get_task i w' = Inr row \<and> tk_workspace_path row = t))"
proof -
  have sel: "sv_copy_demo V = copy_demo" "sv_remove_demo V = remove_demo"
    using assms(2) by (auto simp: async_services_def sync_services_def)
  have ok: "rs_status (get_task_response i w') = 200" if "get_task i w' = Inr row" for i row
    using that by (simp add: get_task_response_def respond_def)
  have V: "task_service V (base_of (s_config S))"
    using assms(2) sync_api.task_service_axioms async_api.task_service_axioms by blast
  note contract = task_service.post_contract [OF V assms(1), unfolded sel]
  show ?thesis
  proof (intro conjI)
    show "rs_status r = 200 \<longrightarrow> (\<exists>t w1 i row. (if is_demo_mode environ then ws_dir = ''demo'' \<and> copy_demo w = (Inr t, w1) else t = ws_dir \<and> w1 = w) \<and>
       validate_workspace (os_fs w1) (os_cwd w1) t (base_of (s_config S)) = Inr () \<and>
       rs_body r = JObj [(''task_id'', JStr i)] \<and> rs_status (get_task_response i w') = 200 \<and>
       get_task i w' = Inr row \<and> tk_workspace_path row = t)"
      using contract [THEN conjunct2, THEN conjunct2, THEN conjunct2] ok by fast
  qed (use contract in blast)+
qed

lemma demo_rejected: "validate_workspace [([''ws''], Dir)] [''ws''] ''/tmp'' ''/ws'' \<noteq> Inr ()"
proof -
  have "names_ok [''ws'']" "NUL \<notin> set ''/ws''" by (simp_all add: names_ok_def name_ok_def)
  moreover have "realpath_segs [([''ws''], Dir)] [''ws''] ''/ws'' = [''ws'']" "realpath_segs [([''ws''], Dir)] [''ws''] ''/tmp'' = [''tmp'']" by code_simp+
  ultimately show ?thesis by (simp add: validate_workspace_exact)
qed

definition no_demo :: "(world, string) eff" where
  "no_demo = raise (exc ''RuntimeError'' [])"

theorem post_tasks_contract_witness:
  "snd (post_tasks (async_services demo_service no_demo (\<lambda>t w. w)) [(''AEGIS_DEMO_MODE'', ''1'')] ''/ws'' ''task'' demo_world) = demo_world"
proof -
  let ?x = "post_tasks (async_services demo_service no_demo (\<lambda>t w. w)) [(''AEGIS_DEMO_MODE'', ''1'')] ''/ws'' ''task'' demo_world"
  have x: "?x = (fst ?x, snd ?x)" by simp
  have "is_demo_mode [(''AEGIS_DEMO_MODE'', ''1'')]" by (simp add: is_demo_mode_def)
  with post_tasks_contract [OF x disjI1 [OF refl]] show ?thesis by simp
qed

lemma validate_error: "validate_workspace fs cwd ws_dir base = Inl e \<Longrightarrow> NUL \<notin> set base \<Longrightarrow> NUL \<notin> set ws_dir \<Longrightarrow>
    exn_class e = ''WorkspaceNotAllowedError''"
  by (auto simp: validate_workspace_def os_realpath_def workspace_error_def exc_def split: sum.splits if_splits)

text \<open>
  In demo mode no task can be created: every workspace but \<open>demo\<close> is refused, and the copy made for
  \<open>demo\<close>, in a fresh directory for temporary files outside the allowed base, is refused, too.
\<close>

theorem demo_mode_refuses_all:
  assumes "is_demo_mode environ" and "sv_copy_demo V w = (Inr t, w1)"
    and "sv_create V = (\<lambda>ws_dir d. create_task S ws_dir d False)" and "names_ok (os_cwd w1)" and "NUL \<notin> set (base_of (s_config S) @ t)"
    and "\<not> prefix (realpath_segs (os_fs w1) (os_cwd w1) (base_of (s_config S))) (realpath_segs (os_fs w1) (os_cwd w1) t)"
  shows "rs_status (fst (post_tasks V environ ws_dir d w)) = 400"
proof (cases "ws_dir = ''demo''")
  case True
  have "validate_workspace (os_fs w1) (os_cwd w1) t (base_of (s_config S)) \<noteq> Inr ()"
    using validate_workspace_exact [of "os_cwd w1" "base_of (s_config S)" "os_fs w1" t] assms(4,5,6) by simp
  then obtain e where e: "validate_workspace (os_fs w1) (os_cwd w1) t (base_of (s_config S)) = Inl e"
    by (cases "validate_workspace (os_fs w1) (os_cwd w1) t (base_of (s_config S))") auto
  moreover from this have "exn_class e = ''WorkspaceNotAllowedError''" using validate_error assms(5) by auto
  ultimately show ?thesis
    using True assms(1,2,3) by (auto simp: post_tasks_def validate_demo_request_def post_created_def create_task_def create_task_with_def http_error_def Let_def)
qed (use assms(1) in \<open>simp add: post_tasks_def validate_demo_request_def http_error_def\<close>)

definition demo_services :: services where
  "demo_services = sync_services demo_service (\<lambda>w. (Inr ''/tmp'', w)) (\<lambda>t w. w)"

theorem demo_mode_refuses_all_witness:
  "rs_status (fst (post_tasks demo_services [(''AEGIS_DEMO_MODE'', ''1'')] ''demo'' ''task'' demo_world)) = 400"
proof -
  have "realpath_segs [([''ws''], Dir)] [''ws''] ''/ws'' = [''ws'']" "realpath_segs [([''ws''], Dir)] [''ws''] ''/tmp'' = [''tmp'']" by code_simp+
  then show ?thesis
    by (intro demo_mode_refuses_all [where t = "''/tmp''" and ?w1.0 = demo_world and S = demo_service])
      (simp_all add: is_demo_mode_def demo_services_def sync_services_def demo_sels names_ok_def name_ok_def)
qed

lemma hexd_shown: "hexd 0 = CHR ''0''" "hexd 14 = CHR ''e''" "hexd 9 = CHR ''9''"
proof -
  have "char_of (of_char c :: nat) = c" for c by simp
  from this [of "CHR ''0''"] this [of "CHR ''e''"] this [of "CHR ''9''"]
  show "hexd 0 = CHR ''0''" "hexd 14 = CHR ''e''" "hexd 9 = CHR ''9''" by (simp_all add: hexd_def)
qed

lemma dumps_escaped: "dumps False (JStr [SL, CHR 0xC3, CHR 0xA9, SL, CHR ''a'']) = DQ # SL # BSL # ''u00e9/a'' @ [DQ]"
proof -
  have "char_of (of_char c :: nat) = c" for c by simp
  from this [of SL] this [of "CHR ''a''"] show ?thesis
    by (simp add: jstr_def esc_cp_def u_escape_def hex4_def hexd_shown)
qed

text \<open>
  The removal of the workspace root from the events misses a root that is not ASCII: it runs on the
  JSON text, where such characters are escaped, so the absolute path reaches the client.
\<close>

theorem events_show_root:
  "loads (redact (dumps False (JStr ''/w/a'')) (Some ''/w'')) = Inr (JStr ''a'') \<and>
   loads (redact (dumps False (JStr [SL, CHR 0xC3, CHR 0xA9, SL, CHR ''a''])) (Some [SL, CHR 0xC3, CHR 0xA9])) =
     Inr (JStr [SL, CHR 0xC3, CHR 0xA9, SL, CHR ''a''])"
proof
  show "loads (redact (dumps False (JStr ''/w/a'')) (Some ''/w'')) = Inr (JStr ''a'')"
    by code_simp
  have "redact (DQ # SL # BSL # ''u00e9/a'' @ [DQ]) (Some [SL, CHR 0xC3, CHR 0xA9]) = DQ # SL # BSL # ''u00e9/a'' @ [DQ]"
    by code_simp
  then have "redact (dumps False (JStr [SL, CHR 0xC3, CHR 0xA9, SL, CHR ''a''])) (Some [SL, CHR 0xC3, CHR 0xA9]) =
      dumps False (JStr [SL, CHR 0xC3, CHR 0xA9, SL, CHR ''a''])" unfolding dumps_escaped .
  moreover have "str_ok [SL, CHR 0xC3, CHR 0xA9, SL, CHR ''a'']"
  proof -
    have "char_of (of_char c :: nat) = c" for c by simp
    from this [of SL] this [of "CHR ''a''"] this [of "CHR 0xC3"] this [of "CHR 0xA9"] show ?thesis
      by (simp add: str_ok_def wf_str_def utf8.simps is_high_def)
  qed
  ultimately show "loads (redact (dumps False (JStr [SL, CHR 0xC3, CHR 0xA9, SL, CHR ''a''])) (Some [SL, CHR 0xC3, CHR 0xA9])) =
     Inr (JStr [SL, CHR 0xC3, CHR 0xA9, SL, CHR ''a''])" using loads_dumps [of "JStr [SL, CHR 0xC3, CHR 0xA9, SL, CHR ''a'']"] by simp
qed

end
