(* ===== verification/Demo_Scenarios.thy ===== *)
theory Demo_Scenarios
  imports Api
begin

text \<open>
  The demonstration scenarios (src/aegiscode/demo/scenarios.py): three whitelisted scripts for the
  scripted model, the reading of a finished run from its audit rows and the conditions that it is
  judged by.  A row is a dictionary; a title that is not ASCII is written by its code points.
\<close>

section \<open>The outcome of a run\<close>

record run_outcome =
  ro_scenario_id :: string
  ro_final_state :: string
  ro_events :: "args list"
  ro_tool_executions :: int
  ro_governance_decisions :: "args list"
  ro_approval_states :: "json list"

definition has_deny :: "run_outcome \<Rightarrow> bool" where
  "has_deny o1 \<longleftrightarrow> (\<exists>d \<in> set (ro_governance_decisions o1). get_or d ''decision'' JNull = JStr ''DENY'')"

definition deny_rule_id :: "run_outcome \<Rightarrow> json" where
  "deny_rule_id o1 =
     (case find (\<lambda>d. get_or d ''decision'' JNull = JStr ''DENY'') (ro_governance_decisions o1) of
        None \<Rightarrow> JNull | Some d \<Rightarrow> get_or d ''rule'' JNull)"

definition feedback_categories :: "run_outcome \<Rightarrow> json list" where
  "feedback_categories o1 =
     filter (\<lambda>c. c \<noteq> JNull) (map (\<lambda>ev. get_or ev ''category'' JNull)
       (filter (\<lambda>ev. get_or ev ''event_type'' JNull = JStr ''FEEDBACK'') (ro_events o1)))"

text \<open>The first APPROVED and, behind it, a SUPERSEDED\<close>

definition approved_then_superseded :: "run_outcome \<Rightarrow> bool" where
  "approved_then_superseded o1 \<longleftrightarrow>
     (case dropWhile (\<lambda>s. s \<noteq> JStr ''APPROVED'') (ro_approval_states o1) of
        [] \<Rightarrow> False | _ # later \<Rightarrow> JStr ''SUPERSEDED'' \<in> set later)"

section \<open>Reading the audit rows\<close>

text \<open>\<open>json.loads(raw or "{}")\<close>, where every failure and every value but a dictionary counts as \<open>{}\<close>\<close>

definition decoded :: "json \<Rightarrow> args" where
  "decoded raw =
     (case (if truthy raw then raw else JStr ''{}'') of
        JStr t \<Rightarrow> (case loads t of Inr (JObj d) \<Rightarrow> d | _ \<Rightarrow> [])
      | _ \<Rightarrow> [])"

definition payload_of :: "args \<Rightarrow> args" where
  "payload_of row =
     (case dget row ''payload_json'' of
        Some raw \<Rightarrow> decoded raw
      | None \<Rightarrow> filter (\<lambda>(k, v). k \<notin> {''event_type'', ''step_index'', ''task_id''}) row)"

text \<open>\<open>{"event_type": t, **payload}\<close>\<close>

definition event_of :: "json \<Rightarrow> args \<Rightarrow> args" where
  "event_of t payload = fold (\<lambda>(k, v). dset k v) payload [(''event_type'', t)]"

definition note_row :: "args \<Rightarrow> run_outcome \<Rightarrow> run_outcome" where
  "note_row row o1 =
     (let t = get_or row ''event_type'' JNull; p = payload_of row;
          o2 = o1\<lparr>ro_events := ro_events o1 @ [event_of t p]\<rparr>
      in if t = JStr ''TOOL_EXECUTED'' then o2\<lparr>ro_tool_executions := ro_tool_executions o2 + 1\<rparr>
         else if t = JStr ''GOVERNANCE_DECISION'' then o2\<lparr>ro_governance_decisions := ro_governance_decisions o2 @ [p]\<rparr>
         else if t = JStr ''APPROVAL_DECIDED''
           then (let s = get_or p ''state'' JNull
                 in if s = JNull then o2 else o2\<lparr>ro_approval_states := ro_approval_states o2 @ [s]\<rparr>)
         else o2)"

definition build_run_outcome :: "string \<Rightarrow> string \<Rightarrow> args list \<Rightarrow> run_outcome" where
  "build_run_outcome i state rows =
     fold note_row rows
       \<lparr>ro_scenario_id = i, ro_final_state = state, ro_events = [], ro_tool_executions = 0,
        ro_governance_decisions = [], ro_approval_states = []\<rparr>"

section \<open>Scenarios\<close>

record demo_scenario =
  sc_id :: string
  sc_title :: string
  sc_description :: string
  sc_learning_objective :: string
  sc_mock_script :: "string list"
  sc_interactive_approval :: bool
  sc_enabled_tools :: "string list"
  sc_max_steps :: int
  sc_max_consecutive_failures :: int
  sc_fixture :: "string option"
  sc_success_conditions :: "(string \<times> string \<times> (run_outcome \<Rightarrow> bool res)) list"

text \<open>A predicate that raises counts as not passed.\<close>

definition evaluate_scenario :: "demo_scenario \<Rightarrow> run_outcome \<Rightarrow> (string \<times> string \<times> bool) list" where
  "evaluate_scenario sc o1 =
     map (\<lambda>(key, label, p). (key, label, case p o1 of Inr b \<Rightarrow> b | Inl _ \<Rightarrow> False)) (sc_success_conditions sc)"

definition tool_call :: "string \<Rightarrow> args \<Rightarrow> string" where
  "tool_call t a = dumps False (JObj [(''tool'', JStr t), (''arguments'', JObj a)])"

definition WRONG_IMPL :: string where
  "WRONG_IMPL = ''def add(a, b):'' @ [NL] @ ''    return a - b'' @ [NL]"

definition RIGHT_IMPL :: string where
  "RIGHT_IMPL = ''def add(a, b):'' @ [NL] @ ''    return a + b'' @ [NL]"

definition APPROVED_PATH :: string where "APPROVED_PATH = ''docs/approved.txt''"
definition SUPERSEDED_PATH :: string where "SUPERSEDED_PATH = ''docs/superseded.txt''"
definition APPROVED_CONTENT :: string where "APPROVED_CONTENT = ''approved-write'' @ [NL]"
definition SUPERSEDED_CONTENT :: string where
  "SUPERSEDED_CONTENT = ''original-content-the-human-would-have-seen'' @ [NL]"

definition dangerous_action_denial :: demo_scenario where
  "dangerous_action_denial =
    \<lparr>sc_id = ''dangerous-action-denial'',
      sc_title = utf8s [21361, 38505, 21629, 20196, 25318, 25130],
      sc_description =
        ''MockLLM '' @ utf8s [25552, 20986] @ '' `rm -rf /`'' @ utf8s [65292, 30495, 23454, 27835, 29702, 24341, 25806, 22312, 25191, 34892, 21069, 25298, 32477, 35813,
          21629, 20196, 12290],
      sc_learning_objective =
        utf8s [29702, 35299, 27835, 29702, 23618, 22914, 20309, 22312, 24037, 20855, 25191, 34892, 21069, 25318,
          25130, 39640, 21361, 21629, 20196, 65292, 24182, 21521] @ '' Agent '' @
        utf8s [21453, 39304] @ '' POLICY_DENIED'' @ utf8s [12290],
      sc_mock_script =
       [tool_call ''run_command'' [(''command'', JStr ''rm -rf /'')]],
      sc_interactive_approval = False,
      sc_enabled_tools = [''run_command''],
      sc_max_steps = 1,
      sc_max_consecutive_failures = 5,
      sc_fixture = None,
      sc_success_conditions =
       [(''denied'', utf8s [21361, 38505, 21629, 20196, 34987, 25298, 32477] @ ''(DENY)'',
         \<lambda>o1. Inr (has_deny o1)),
        (''no_exec'', utf8s [24037, 20855, 25191, 34892, 27425, 25968] @ ''=0'',
         \<lambda>o1. Inr (ro_tool_executions o1 = 0)),
        (''rule_id'', utf8s [25298, 32477, 25658, 24102, 31574, 30053] @ '' rule_id'',
         \<lambda>o1. Inr (truthy (deny_rule_id o1))),
        (''feedback'', ''Agent '' @ utf8s [25910, 21040] @ '' POLICY_DENIED '' @ utf8s [21453, 39304],
         \<lambda>o1. Inr (JStr ''POLICY_DENIED'' \<in> set (feedback_categories o1)))]\<rparr>"

definition feedback_driven_repair :: demo_scenario where
  "feedback_driven_repair =
    \<lparr>sc_id = ''feedback-driven-repair'',
      sc_title = utf8s [22833, 36133, 21453, 39304, 39537, 21160, 20462, 22797],
      sc_description =
        ''Agent '' @ utf8s [20808, 20889, 20986, 38169, 35823, 23454, 29616, 65292, 27979, 35797, 30495, 23454, 22833, 36133,
          21518, 25910, 21040, 21453, 39304, 65292, 20877, 20889, 20986, 27491, 30830, 23454, 29616, 24182,
          36890, 36807, 39564, 35777, 12290],
      sc_learning_objective =
        utf8s [29702, 35299, 22833, 36133, 21453, 39304, 22914, 20309, 39537, 21160] @ '' Agent '' @ utf8s [20462, 27491, 21160, 20316, 65292, 24182, 30001, 30495, 23454, 39564, 35777, 22120, 30830, 35748,
          23436, 25104, 12290],
      sc_mock_script =
       [tool_call ''write_file'' [(''path'', JStr ''src/calc.py''), (''content'', JStr WRONG_IMPL)],
        tool_call ''run_tests'' [],
        tool_call ''write_file'' [(''path'', JStr ''src/calc.py''), (''content'', JStr RIGHT_IMPL)],
        tool_call ''run_tests'' [],
        tool_call ''finish'' []],
      sc_interactive_approval = False,
      sc_enabled_tools = [''write_file'', ''run_tests'', ''finish''],
      sc_max_steps = 20,
      sc_max_consecutive_failures = 5,
      sc_fixture = Some ''calc'',
      sc_success_conditions =
       [(''completed'', utf8s [26368, 32456, 39564, 35777, 36890, 36807] @ '' '' @ utf8s [8594] @ '' COMPLETED'',
         \<lambda>o1. Inr (ro_final_state o1 = ''COMPLETED'')),
        (''test_failure'', utf8s [20986, 29616] @ '' TEST_FAILURE '' @ utf8s [21453, 39304],
         \<lambda>o1. Inr (JStr ''TEST_FAILURE'' \<in> set (feedback_categories o1))),
        (''tools_ran'', utf8s [24037, 20855, 30495, 23454, 25191, 34892] @ ''(>0)'',
         \<lambda>o1. Inr (0 < ro_tool_executions o1))]\<rparr>"

definition approval_binding_invalidation :: demo_scenario where
  "approval_binding_invalidation =
    \<lparr>sc_id = ''approval-binding-invalidation'',
      sc_title = utf8s [39640, 39118, 38505, 25805, 20316, 23457, 25209] @ '' + '' @ utf8s [22833, 25928],
      sc_description =
        ''MockLLM '' @ utf8s [20808, 20889, 20837, 38656, 20154, 24037, 23457, 25209, 30340, 25991, 20214, 24182, 33719, 25209,
          25191, 34892, 65292, 38543, 21518, 23457, 25209, 35299, 26512, 22120, 22312, 32465, 23450, 25351,
          32441, 21518, 31713, 25913, 21160, 20316, 21442, 25968, 65292, 35302, 21457] @
        '' SUPERSEDED '' @ utf8s [32780, 19981, 25191, 34892, 12290],
      sc_learning_objective =
        utf8s [29702, 35299, 23457, 25209, 25351, 32441, 32465, 23450, 26426, 21046, 65306, 25209, 20934, 21518,
          21160, 20316, 21457, 29983, 20559, 31227, 20250, 20351, 21407, 23457, 25209, 22833, 25928, 65292,
          32477, 19981, 25191, 34892, 34987, 31713, 25913, 30340, 21160, 20316, 12290],
      sc_mock_script =
       [tool_call ''write_file'' [(''path'', JStr APPROVED_PATH), (''content'', JStr APPROVED_CONTENT)],
        tool_call ''write_file'' [(''path'', JStr SUPERSEDED_PATH), (''content'', JStr SUPERSEDED_CONTENT)],
        tool_call ''finish'' []],
      sc_interactive_approval = True,
      sc_enabled_tools = [''write_file'', ''finish''],
      sc_max_steps = 3,
      sc_max_consecutive_failures = 5,
      sc_fixture = None,
      sc_success_conditions =
       [(''approved'', utf8s [21407, 21160, 20316, 33719, 25209, 20934, 25191, 34892],
         \<lambda>o1. Inr (JStr ''APPROVED'' \<in> set (ro_approval_states o1))),
        (''superseded'', utf8s [25913, 21442, 21518, 26087, 23457, 25209, 22833, 25928] @ ''(SUPERSEDED)'',
         \<lambda>o1. Inr (JStr ''SUPERSEDED'' \<in> set (ro_approval_states o1))),
        (''flow'', utf8s [23457, 35745, 21547] @ '' APPROVED'' @ utf8s [8594] @ ''SUPERSEDED'',
         \<lambda>o1. Inr (approved_then_superseded o1))]\<rparr>"

definition REGISTRY :: "(string \<times> demo_scenario) list" where
  "REGISTRY = map (\<lambda>sc. (sc_id sc, sc)) [dangerous_action_denial, feedback_driven_repair, approval_binding_invalidation]"

definition ORDER :: "string list" where
  "ORDER = [''dangerous-action-denial'', ''feedback-driven-repair'', ''approval-binding-invalidation'']"

definition unknown_scenario :: "string \<Rightarrow> exn" where
  "unknown_scenario i = exc ''UnknownScenarioError'' (py_repr i)"

definition get_scenario :: "string \<Rightarrow> demo_scenario res" where
  "get_scenario i = (case map_of REGISTRY i of Some sc \<Rightarrow> Inr sc | None \<Rightarrow> Inl (unknown_scenario i))"

definition list_scenarios :: "demo_scenario list" where
  "list_scenarios = map (\<lambda>i. the (map_of REGISTRY i)) ORDER"

lemma scenario_sels [simp]:
  "sc_id dangerous_action_denial = ''dangerous-action-denial''"
  "sc_id feedback_driven_repair = ''feedback-driven-repair''"
  "sc_id approval_binding_invalidation = ''approval-binding-invalidation''"
  "sc_fixture dangerous_action_denial = None" "sc_fixture feedback_driven_repair = Some ''calc''"
  "sc_fixture approval_binding_invalidation = None"
  "sc_mock_script dangerous_action_denial = [tool_call ''run_command'' [(''command'', JStr ''rm -rf /'')]]"
  "sc_max_steps dangerous_action_denial = 1" "sc_max_consecutive_failures dangerous_action_denial = 5"
  "sc_enabled_tools dangerous_action_denial = [''run_command'']"
  "\<not> sc_interactive_approval dangerous_action_denial"
  unfolding dangerous_action_denial_def feedback_driven_repair_def approval_binding_invalidation_def demo_scenario.select_convs
  by (rule refl | simp only: not_False_eq_True)+

lemma REGISTRY_eq: "REGISTRY =
    [(''dangerous-action-denial'', dangerous_action_denial), (''feedback-driven-repair'', feedback_driven_repair),
     (''approval-binding-invalidation'', approval_binding_invalidation)]"
  by (simp add: REGISTRY_def)

lemma list_scenarios_eq: "list_scenarios = [dangerous_action_denial, feedback_driven_repair, approval_binding_invalidation]"
  by (simp add: list_scenarios_def ORDER_def REGISTRY_eq)

lemma get_scenario_iff: "get_scenario i = Inr sc \<longleftrightarrow> sc \<in> set list_scenarios \<and> sc_id sc = i"
proof
  assume "get_scenario i = Inr sc"
  then have "map_of REGISTRY i = Some sc" by (simp add: get_scenario_def split: option.splits)
  then have "(i, sc) \<in> set REGISTRY" by (rule map_of_SomeD)
  then show "sc \<in> set list_scenarios \<and> sc_id sc = i" unfolding REGISTRY_def list_scenarios_eq by auto
next
  assume a: "sc \<in> set list_scenarios \<and> sc_id sc = i"
  then consider "sc = dangerous_action_denial" | "sc = feedback_driven_repair" | "sc = approval_binding_invalidation"
    by (auto simp: list_scenarios_eq)
  then show "get_scenario i = Inr sc" using a by cases (auto simp: get_scenario_def REGISTRY_eq)
qed

end
