(* ===== verification/Demo.thy ===== *)
theory Demo
  imports Demo_Scenarios
begin

text \<open>
  The manager of the demonstration runs (src/aegiscode/demo/service.py) with its REST endpoints
  (service/api.py, the part that is mounted for a manager).  The manager keeps four dictionaries
  beside the world that its service changes; a name for a temporary directory is the next of a
  stream.  Rows come from the database, so their event type is a text and their step a number.
\<close>

section \<open>Temporary directories\<close>

text \<open>\<open>os.path.normpath\<close> and \<open>os.path.abspath\<close>\<close>

fun norm_comps :: "bool \<Rightarrow> string list \<Rightarrow> string list \<Rightarrow> string list" where
  "norm_comps ab acc [] = acc"
| "norm_comps ab acc (c # cs) =
     (if c = [] \<or> c = ''.'' then norm_comps ab acc cs
      else if c \<noteq> ''..'' \<or> \<not> ab \<and> acc = [] \<or> acc \<noteq> [] \<and> last acc = ''..'' then norm_comps ab (acc @ [c]) cs
      else norm_comps ab (butlast acc) cs)"

definition normpath :: "string \<Rightarrow> string" where
  "normpath p =
     (let lead = (if startswith p ''//'' \<and> \<not> startswith p ''///'' then ''//'' else if startswith p ''/'' then ''/'' else []);
          r = lead @ join ''/'' (norm_comps (lead \<noteq> []) [] (segs p))
      in if r = [] then ''.'' else r)"

definition abspath :: "path \<Rightarrow> string \<Rightarrow> string" where
  "abspath cwd p = normpath (if isabs p then p else path_join (abs_str cwd) p)"

text \<open>\<open>shutil.rmtree(path, ignore_errors=True)\<close>: a link is not followed, but refused and left alone.\<close>

definition rmtree :: "string \<Rightarrow> 's os_state_scheme \<Rightarrow> 's os_state_scheme" where
  "rmtree name s =
     (case resolve (os_fs s) (os_cwd s) name of
        None \<Rightarrow> s
      | Some q \<Rightarrow>
          if isdir_py s name \<and> \<not> islink (os_fs s) (os_cwd s) name
          then s\<lparr>os_fs := filter (\<lambda>(p, _). \<not> prefix q p) (os_fs s)\<rparr>
          else s)"

section \<open>The manager\<close>

record demo_setup =
  du_env :: env
  du_base :: string                            \<comment> \<open>\<open>allowed_base\<close>\<close>
  du_sync :: bool
  du_decide :: "(string \<Rightarrow> bool res) option"
  du_cancelled :: "string \<Rightarrow> nat \<Rightarrow> bool"
  du_names :: "nat \<Rightarrow> string"                   \<comment> \<open>random names of \<open>tempfile\<close>\<close>
  du_python :: string                          \<comment> \<open>\<open>sys.executable\<close>\<close>

record manager_state =
  ds_world :: world
  ds_scenarios :: "(string \<times> string) list"            \<comment> \<open>workspace to scenario\<close>
  ds_meta :: "(string \<times> string \<times> string) list"        \<comment> \<open>run to scenario and workspace\<close>
  ds_llms :: "(string \<times> nat \<times> string list) list"     \<comment> \<open>workspace to scripted model\<close>
  ds_names :: nat

definition new_manager :: "demo_setup \<Rightarrow> world \<Rightarrow> unit res \<times> manager_state" where
  "new_manager U w =
     (case makedirs (Suc (length (du_base U))) (e_os (du_env U)) (du_base U) w of
        (r, w1) \<Rightarrow> (r, \<lparr>ds_world = w1, ds_scenarios = [], ds_meta = [], ds_llms = [], ds_names = 0\<rparr>))"

definition TERMINAL_STATES :: "string list" where
  "TERMINAL_STATES = [''COMPLETED'', ''CANCELLED'', ''FAILED'']"

definition CHECK_PY :: string where
  "CHECK_PY = concat (map (\<lambda>l. l @ [NL])
     [''import os'',
      ''src = os.path.join(os.path.dirname(os.path.abspath(__file__)), 'src', 'calc.py')'',
      ''ns = {}'',
      ''with open(src, encoding='utf-8') as fh:'',
      ''    exec(compile(fh.read(), src, 'exec'), ns)'',
      ''got = ns['add'](1, 2)'',
      ''assert got == 3, f'add(1,2)={got} expected 3'' @ [SQ],
      ''print('ok')''])"

definition materialize_fixture :: "os_env \<Rightarrow> string option \<Rightarrow> string \<Rightarrow> ('s os_state_scheme, unit) eff" where
  "materialize_fixture E fixture ws_dir =
     (case fixture of
        None \<Rightarrow> ret ()
      | Some f \<Rightarrow>
          if f = ''calc''
          then (let src_dir = path_join ws_dir ''src''
                in andThen (makedirs (Suc (length src_dir)) E src_dir) (\<lambda>_.
                     write_text E (path_join ws_dir ''check.py'') CHECK_PY))
          else raise (exc ''ValueError'' (''unknown demo fixture: '' @ py_repr f)))"

definition scenario_config :: "demo_setup \<Rightarrow> demo_scenario \<Rightarrow> string \<Rightarrow> aegis_config" where
  "scenario_config U sc ws_dir = default_config\<lparr>
     workspace := \<lparr>ws_root = ws_dir, allowed_base = Some (du_base U)\<rparr>,
     limits_of := default_limits\<lparr>max_steps := sc_max_steps sc, max_consecutive_failures := sc_max_consecutive_failures sc\<rparr>,
     tools := (tools default_config)\<lparr>enabled := sc_enabled_tools sc\<rparr>,
     feedback := (if sc_fixture sc = Some ''calc'' then (feedback default_config)\<lparr>test_command := du_python U @ '' check.py''\<rparr>
                  else feedback default_config)\<rparr>"

definition scenario_verifier :: "demo_setup \<Rightarrow> demo_scenario \<Rightarrow> aegis_config \<Rightarrow> string \<Rightarrow> (world, bool) eff" where
  "scenario_verifier U sc config ws_dir =
     (if sc_fixture sc = Some ''calc'' then final_verifier (du_env U) config ws_dir else ret True)"

text \<open>
  The first question goes to the resolver of the service; every later one is answered yes after the
  arguments of the action were changed.  \<open>base\<close> is the number of questions when the harness was built.
\<close>

definition wrap_supersede_resolver ::
  "nat \<Rightarrow> (action \<Rightarrow> verdict \<Rightarrow> (world, bool \<times> action) eff) \<Rightarrow> action \<Rightarrow> verdict \<Rightarrow> (world, bool \<times> action) eff" where
  "wrap_supersede_resolver base base_resolver a v w =
     (let w1 = w\<lparr>w_asks := Suc (w_asks w)\<rparr>
      in if w_asks w1 - base = 1 then base_resolver a v w1
         else (Inr (True, a\<lparr>arguments := dset ''content'' (JStr ''<mutated>'') (arguments a)\<rparr>), w1))"

text \<open>A harness without memory and prompt builder, as both factories of the manager build it\<close>

definition bare_harness ::
  "demo_setup \<Rightarrow> aegis_config \<Rightarrow> (nat \<Rightarrow> message list \<Rightarrow> string res) \<Rightarrow> string \<Rightarrow> string \<Rightarrow> (world, bool) eff \<Rightarrow>
   (action \<Rightarrow> verdict \<Rightarrow> (world, bool \<times> action) eff) option \<Rightarrow> (nat \<Rightarrow> bool) option \<Rightarrow> harness" where
  "bare_harness U config model i ws_dir verifier resolver cancel =
     \<lparr>h_llm = model, h_dispatcher = build_dispatcher config (build_registry (e_os (du_env U)) config), h_config = config,
      h_ctx = \<lparr>task_id = i, workspace_root = ws_dir, write_max_bytes = cfg_write_max_bytes (tools config)\<rparr>,
      h_verifier = verifier, h_resolver = resolver, h_cancel = cancel, h_memory = False, h_project = None, h_prompt = None\<rparr>"

definition fallback_harness :: "demo_setup \<Rightarrow> string \<Rightarrow> string \<Rightarrow> (nat \<Rightarrow> bool) option \<Rightarrow> harness" where
  "fallback_harness U i ws_dir cancel =
     bare_harness U (default_config\<lparr>workspace := \<lparr>ws_root = ws_dir, allowed_base = Some (du_base U)\<rparr>\<rparr>)
       (\<lambda>n. mock_llm n [] n) i ws_dir (ret False) None cancel"

definition demo_harness ::
  "demo_setup \<Rightarrow> manager_state \<Rightarrow> string \<Rightarrow> string \<Rightarrow> (action \<Rightarrow> verdict \<Rightarrow> (world, bool \<times> action) eff) option \<Rightarrow>
   (nat \<Rightarrow> bool) option \<Rightarrow> harness res" where
  "demo_harness U s i ws_dir approval_resolver cancel =
     (case map_of (ds_scenarios s) ws_dir of
        None \<Rightarrow> Inr (fallback_harness U i ws_dir cancel)
      | Some sid \<Rightarrow>
          res_bind (get_scenario sid) (\<lambda>sc.
            case map_of (ds_llms s) ws_dir of
              None \<Rightarrow> Inl (key_error ws_dir)
            | Some (base, script) \<Rightarrow>
                (let config = scenario_config U sc ws_dir;
                     resolver = (case approval_resolver of
                         None \<Rightarrow> None
                       | Some f \<Rightarrow> Some (if sc_interactive_approval sc then wrap_supersede_resolver (w_asks (ds_world s)) f else f))
                 in Inr (bare_harness U config (mock_llm base script) i ws_dir (scenario_verifier U sc config ws_dir) resolver cancel))))"

text \<open>The service of the manager; its own factory is \<open>demo_harness\<close>.\<close>

definition manager_service :: "demo_setup \<Rightarrow> service" where
  "manager_service U = \<lparr>s_env = du_env U,
     s_config = default_config\<lparr>workspace := \<lparr>ws_root = du_base U, allowed_base = Some (du_base U)\<rparr>\<rparr>,
     s_model = \<lambda>n msgs. Inl exhausted_error, s_decide = du_decide U, s_cancelled = du_cancelled U\<rparr>"

text \<open>What \<open>create_task\<close> starts: the run itself, or a thread whose run comes later\<close>

definition run_demo :: "demo_setup \<Rightarrow> manager_state \<Rightarrow> string \<Rightarrow> string \<Rightarrow> string \<Rightarrow> (world, unit) eff" where
  "run_demo U s ws_dir description i w =
     (if du_sync U
      then (case demo_harness U s i ws_dir (Some (sync_resolver (manager_service U) i)) (Some (du_cancelled U i)) of
              Inl e \<Rightarrow> (Inl e, w)
            | Inr h \<Rightarrow> run_harness (du_env U) h i description w)
      else (Inr (), w))"

section \<open>Cleaning up\<close>

definition cleanup_workspace :: "string \<Rightarrow> manager_state \<Rightarrow> manager_state" where
  "cleanup_workspace ws_dir s =
     s\<lparr>ds_world := (if ws_dir \<noteq> [] \<and> isdir_py (ds_world s) ws_dir then rmtree ws_dir (ds_world s) else ds_world s),
       ds_scenarios := AList.delete ws_dir (ds_scenarios s), ds_llms := AList.delete ws_dir (ds_llms s)\<rparr>"

definition sweep_run :: "string \<times> string \<times> string \<Rightarrow> manager_state \<Rightarrow> manager_state" where
  "sweep_run m s =
     (case m of (i, _, ws_dir) \<Rightarrow>
        if ws_dir = [] \<or> \<not> isdir_py (ds_world s) ws_dir then s
        else (case get_task i (ds_world s) of
                Inl _ \<Rightarrow> s
              | Inr row \<Rightarrow> if tk_state row \<in> set TERMINAL_STATES then cleanup_workspace ws_dir s else s))"

definition sweep_orphaned_runs :: "manager_state \<Rightarrow> manager_state" where
  "sweep_orphaned_runs s = fold sweep_run (ds_meta s) s"

section \<open>Starting a run\<close>

text \<open>\<open>tempfile.mkdtemp(prefix="aegis_demorun_", dir=allowed_base)\<close>\<close>

definition TMP_MAX :: nat where "TMP_MAX = 10000"

fun mkdtemp :: "nat \<Rightarrow> demo_setup \<Rightarrow> (manager_state, string) eff" where
  "mkdtemp 0 U s = (Inl (file_exists ''No usable temporary directory name found''), s)"
| "mkdtemp (Suc n) U s =
     (let name = path_join (du_base U) (''aegis_demorun_'' @ du_names U (ds_names s))
      in case mkdir (e_os (du_env U)) name (ds_world s) of
           (Inr _, w) \<Rightarrow> (Inr (abspath (os_cwd w) name), s\<lparr>ds_world := w, ds_names := Suc (ds_names s)\<rparr>)
         | (Inl e, w) \<Rightarrow>
             if exn_class e = ''FileExistsError'' then mkdtemp n U (s\<lparr>ds_world := w, ds_names := Suc (ds_names s)\<rparr>)
             else (Inl e, s\<lparr>ds_world := w, ds_names := Suc (ds_names s)\<rparr>))"

definition on_world :: "(world, 'a) eff \<Rightarrow> (manager_state, 'a) eff" where
  "on_world f s = (case f (ds_world s) of (r, w) \<Rightarrow> (r, s\<lparr>ds_world := w\<rparr>))"

text \<open>The workspace of a new run, filled and registered with a fresh model\<close>

definition register_run :: "string \<Rightarrow> demo_scenario \<Rightarrow> string \<Rightarrow> manager_state \<Rightarrow> manager_state" where
  "register_run sid sc ws_dir s =
     s\<lparr>ds_scenarios := dset ws_dir sid (ds_scenarios s),
       ds_llms := dset ws_dir (w_llm (ds_world s), sc_mock_script sc) (ds_llms s)\<rparr>"

definition launch_run :: "demo_setup \<Rightarrow> string \<Rightarrow> string \<Rightarrow> (manager_state, string) eff" where
  "launch_run U sid ws_dir s =
     andThen (on_world (create_task_with (du_env U) (du_base U) (run_demo U s ws_dir sid) ws_dir sid)) (\<lambda>i s1.
       (Inr i, s1\<lparr>ds_meta := dset i (sid, ws_dir) (ds_meta s1)\<rparr>)) s"

definition start_run :: "demo_setup \<Rightarrow> string \<Rightarrow> (manager_state, string) eff" where
  "start_run U sid s =
     (case get_scenario sid of
        Inl e \<Rightarrow> (Inl e, s)
      | Inr sc \<Rightarrow>
          andThen (mkdtemp TMP_MAX U) (\<lambda>ws_dir.
          andThen (on_world (materialize_fixture (e_os (du_env U)) (sc_fixture sc) ws_dir)) (\<lambda>_ s1.
            launch_run U sid ws_dir (register_run sid sc ws_dir s1))) (sweep_orphaned_runs s))"

section \<open>The result of a run\<close>

definition normalize_event_type :: "string \<Rightarrow> string" where
  "normalize_event_type t = (if startswith t ''EventType.'' then drop (length ''EventType.'') t else t)"

definition normalize_row :: "args \<Rightarrow> args" where
  "normalize_row row =
     (case dget row ''event_type'' of
        Some (JStr t) \<Rightarrow> dset ''event_type'' (JStr (normalize_event_type t)) row
      | _ \<Rightarrow> row)"

definition normalize_events :: "args list \<Rightarrow> args list" where
  "normalize_events rows = map normalize_row rows"

definition summary_field :: "json \<Rightarrow> (string \<times> string) option" where
  "summary_field t =
     (if t = JStr ''ACTION_PROPOSED'' then Some (''tool'', ''tool'')
      else if t = JStr ''GOVERNANCE_DECISION'' then Some (''governance_decision'', ''decision'')
      else if t = JStr ''APPROVAL_DECIDED'' then Some (''approval_state'', ''state'')
      else if t = JStr ''TOOL_EXECUTED'' then Some (''tool_status'', ''status'')
      else if t = JStr ''FEEDBACK'' then Some (''feedback_category'', ''category'')
      else None)"

definition summarize_row :: "args \<Rightarrow> (int \<times> args) list \<Rightarrow> (int \<times> args) list" where
  "summarize_row row m =
     (case get_or row ''step_index'' JNull of
        JInt i \<Rightarrow>
          (let payload = decoded (get_or row ''payload_json'' JNull);
               entry = (case map_of m i of None \<Rightarrow> [(''step'', JInt i)] | Some e \<Rightarrow> e)
           in AList.update i
                (case summary_field (get_or row ''event_type'' JNull) of
                   None \<Rightarrow> entry
                 | Some (k, f) \<Rightarrow> dset k (get_or payload f JNull) entry) m)
      | _ \<Rightarrow> m)"

definition summarize_steps :: "args list \<Rightarrow> args list" where
  "summarize_steps rows = map snd (sort_key fst (fold summarize_row rows []))"

record run_view =
  rv_scenario_id :: string
  rv_state :: string
  rv_acceptance :: "(string \<times> string \<times> bool) list"
  rv_steps :: "args list"
  rv_done :: bool

definition event_args :: "audit_row \<Rightarrow> args" where
  "event_args r = (case event_json r of JObj d \<Rightarrow> d | _ \<Rightarrow> [])"

definition run_view_of :: "demo_scenario \<Rightarrow> string \<Rightarrow> audit_row list \<Rightarrow> run_view" where
  "run_view_of sc state events =
     (let rows = normalize_events (map event_args events)
      in \<lparr>rv_scenario_id = sc_id sc, rv_state = state,
          rv_acceptance = evaluate_scenario sc (build_run_outcome (sc_id sc) state rows),
          rv_steps = summarize_steps rows, rv_done = (state \<in> set TERMINAL_STATES)\<rparr>)"

definition get_run :: "string \<Rightarrow> (manager_state, run_view) eff" where
  "get_run i s =
     (case map_of (ds_meta s) i of
        None \<Rightarrow> (Inl (key_error i), s)
      | Some (sid, ws_dir) \<Rightarrow>
          (case get_scenario sid of
             Inl e \<Rightarrow> (Inl e, s)
           | Inr sc \<Rightarrow>
               (case get_task i (ds_world s) of
                  Inl e \<Rightarrow> (Inl e, s)
                | Inr row \<Rightarrow>
                    (let v = run_view_of sc (tk_state row) (get_events i 0 (ds_world s))
                     in (Inr v, if rv_done v then cleanup_workspace ws_dir s else s)))))"

section \<open>The endpoints\<close>

definition list_demos_response :: response where
  "list_demos_response = respond (JList (map (\<lambda>sc. JObj
     [(''id'', JStr (sc_id sc)), (''title'', JStr (sc_title sc)), (''description'', JStr (sc_description sc)),
      (''learning_objective'', JStr (sc_learning_objective sc)),
      (''interactive_approval'', JBool (sc_interactive_approval sc))]) list_scenarios))"

definition post_demo_run :: "demo_setup \<Rightarrow> string \<Rightarrow> manager_state \<Rightarrow> response \<times> manager_state" where
  "post_demo_run U sid s =
     (case start_run U sid s of
        (Inr i, s1) \<Rightarrow> (respond (JObj [(''run_id'', JStr i)]), s1)
      | (Inl e, s1) \<Rightarrow>
          (if exn_class e = ''UnknownScenarioError'' then http_error 400 (exn_msg e) else internal_error, s1))"

definition view_json :: "run_view \<Rightarrow> json" where
  "view_json v = JObj
     [(''scenario_id'', JStr (rv_scenario_id v)), (''state'', JStr (rv_state v)),
      (''acceptance'', JList (map (\<lambda>(k, l, b). JObj [(''key'', JStr k), (''label'', JStr l), (''passed'', JBool b)]) (rv_acceptance v))),
      (''steps'', JList (map JObj (rv_steps v))), (''done'', JBool (rv_done v))]"

definition get_demo_run :: "string \<Rightarrow> manager_state \<Rightarrow> response \<times> manager_state" where
  "get_demo_run i s =
     (case get_run i s of
        (Inr v, s1) \<Rightarrow> (respond (view_json v), s1)
      | (Inl e, s1) \<Rightarrow>
          (if exn_class e \<in> {''KeyError'', ''UnknownScenarioError''} then http_error 404 (exn_msg e) else internal_error, s1))"

end
