(* ===== verification/Demo_Contract.thy ===== *)
theory Demo_Contract
  imports Demo
begin

text \<open>
  What the manager of the demonstration runs promises: only whitelisted scenarios run, in fresh
  directories; cleaning up removes nothing but the directories of finished runs; the result of a
  run does not change when it is asked for again, shows no argument of a tool, and counts the events
  that the audit log holds.
\<close>

section \<open>Removing a tree\<close>

definition sub_fs :: "fs \<Rightarrow> fs \<Rightarrow> bool" where
  "sub_fs fs' fs \<longleftrightarrow> (\<forall>p nd. lstat fs' p = Some nd \<longrightarrow> lstat fs p = Some nd)"

lemma sub_fs_refl [simp]: "sub_fs fs fs"
  by (simp add: sub_fs_def)

lemma sub_fs_trans: "sub_fs a b \<Longrightarrow> sub_fs b c \<Longrightarrow> sub_fs a c"
  by (simp add: sub_fs_def)

lemma walk_sub: "sub_fs fs' fs \<Longrightarrow> walk fs' False n p r = Some x \<Longrightarrow> walk fs False n p r = Some x"
proof (induction fs' "False" n p r rule: walk.induct)
  case (2 fs' n p s r)
  then show ?case
    by (auto simp: walk.simps(2) sub_fs_def split: if_splits option.splits node.splits nat.splits)
qed simp

lemma resolve_sub: "sub_fs fs' fs \<Longrightarrow> resolve fs' cwd name = Some q \<Longrightarrow> resolve fs cwd name = Some q"
  using walk_sub by (auto simp: resolve_def split: if_splits)

lemma lstat_filter: "lstat (filter (\<lambda>(p, _). \<not> prefix q p) fs) p = (if p = [] then Some Dir else if prefix q p then None else lstat fs p)"
  by (induction fs) (auto simp: lstat_def)

lemma rmtree_frame [simp]: "os_cwd (rmtree name w) = os_cwd w" "os_procs (rmtree name w) = os_procs w" "w_db (rmtree name v) = w_db v"
  by (simp_all add: rmtree_def split: option.splits)

lemma rmtree_sub: "sub_fs (os_fs (rmtree name w)) (os_fs w)"
  by (auto simp: rmtree_def sub_fs_def lstat_filter split: option.splits if_splits)

lemma rmtree_changed:
  assumes "lstat (os_fs (rmtree name w)) p \<noteq> lstat (os_fs w) p"
  obtains q where "resolve (os_fs w) (os_cwd w) name = Some q" "prefix q p" "lstat (os_fs (rmtree name w)) p = None"
  using assms by (auto simp: rmtree_def lstat_filter split: option.splits if_splits)

lemma rmtree_again:
  assumes "isdir_py (rmtree name w) name"
  shows "rmtree name (rmtree name w) = rmtree name w"
proof (cases "resolve (os_fs (rmtree name w)) (os_cwd w) name")
  case None
  then show ?thesis by (simp add: rmtree_def [of name "rmtree name w"])
next
  case (Some q)
  with resolve_sub [OF rmtree_sub] have q: "resolve (os_fs w) (os_cwd w) name = Some q" by blast
  show ?thesis
  proof (cases "isdir_py w name \<and> \<not> islink (os_fs w) (os_cwd w) name")
    case True
    with q have "os_fs (rmtree name w) = filter (\<lambda>(p, _). \<not> prefix q p) (os_fs w)" by (simp add: rmtree_def)
    with Some show ?thesis by (simp add: rmtree_def [of name "rmtree name w"])
  next
    case False
    with q have "rmtree name w = w" by (auto simp: rmtree_def)
    then show ?thesis by simp
  qed
qed

section \<open>Cleaning up\<close>

lemma cleanup_frame [simp]:
  "ds_meta (cleanup_workspace d s) = ds_meta s" "ds_names (cleanup_workspace d s) = ds_names s"
  "w_db (ds_world (cleanup_workspace d s)) = w_db (ds_world s)" "os_cwd (ds_world (cleanup_workspace d s)) = os_cwd (ds_world s)"
  "os_procs (ds_world (cleanup_workspace d s)) = os_procs (ds_world s)"
  by (simp_all add: cleanup_workspace_def)

lemma cleanup_sub: "sub_fs (os_fs (ds_world (cleanup_workspace d s))) (os_fs (ds_world s))"
  by (simp add: cleanup_workspace_def rmtree_sub)

lemma cleanup_changed:
  assumes "lstat (os_fs (ds_world (cleanup_workspace d s))) p \<noteq> lstat (os_fs (ds_world s)) p"
  obtains q where "resolve (os_fs (ds_world s)) (os_cwd (ds_world s)) d = Some q" "prefix q p"
    "lstat (os_fs (ds_world (cleanup_workspace d s))) p = None"
  using assms by (auto simp: cleanup_workspace_def split: if_splits elim: rmtree_changed)

lemma delete_again [simp]: "AList.delete k (AList.delete k m) = AList.delete k m"
  by (simp add: AList.delete_eq)

lemma cleanup_again [simp]: "cleanup_workspace d (cleanup_workspace d s) = cleanup_workspace d s"
  by (simp add: cleanup_workspace_def rmtree_again)

definition removed_below :: "manager_state \<Rightarrow> manager_state \<Rightarrow> path \<Rightarrow> bool" where
  "removed_below s s' p \<longleftrightarrow> lstat (os_fs (ds_world s')) p = None \<and>
     (\<exists>run sid ws_dir row q. (run, sid, ws_dir) \<in> set (ds_meta s) \<and> get_task run (ds_world s) = Inr row \<and>
        tk_state row \<in> set TERMINAL_STATES \<and>
        resolve (os_fs (ds_world s)) (os_cwd (ds_world s)) ws_dir = Some q \<and> prefix q p)"

lemma get_task_db: "w_db w = w_db w' \<Longrightarrow> get_task i w = get_task i w'"
  by (simp add: get_task_def)

lemma sweep_run_frame [simp]:
  "ds_meta (sweep_run m s) = ds_meta s" "w_db (ds_world (sweep_run m s)) = w_db (ds_world s)"
  "os_cwd (ds_world (sweep_run m s)) = os_cwd (ds_world s)" "ds_names (sweep_run m s) = ds_names s"
  "os_procs (ds_world (sweep_run m s)) = os_procs (ds_world s)"
  by (simp_all add: sweep_run_def split: prod.splits sum.splits)

lemma sweep_run_sub: "sub_fs (os_fs (ds_world (sweep_run m s))) (os_fs (ds_world s))"
  by (simp add: sweep_run_def cleanup_sub split: prod.splits sum.splits)

lemma sweep_run_changed:
  assumes "lstat (os_fs (ds_world (sweep_run m s))) p \<noteq> lstat (os_fs (ds_world s)) p" and "m \<in> set (ds_meta s)"
  shows "removed_below s (sweep_run m s) p"
  using assms
  by (fastforce simp: sweep_run_def removed_below_def split: prod.splits sum.splits if_splits elim: cleanup_changed)

lemma sweep_all_changed:
  assumes "lstat (os_fs (ds_world (fold sweep_run ms s))) p \<noteq> lstat (os_fs (ds_world s)) p" and "set ms \<subseteq> set (ds_meta s)"
  shows "removed_below s (fold sweep_run ms s) p"
  using assms
proof (induction ms arbitrary: s)
  case (Cons m ms)
  let ?s1 = "sweep_run m s"
  have gone: "lstat (os_fs (ds_world (fold sweep_run ns t))) p = None" if "lstat (os_fs (ds_world t)) p = None" for ns t
    using that
  proof (induction ns arbitrary: t)
    case (Cons n ns)
    from Cons.prems sweep_run_sub [of n t] have "lstat (os_fs (ds_world (sweep_run n t))) p = None"
      by (cases "lstat (os_fs (ds_world (sweep_run n t))) p") (auto simp: sub_fs_def)
    from Cons.IH [OF this] show ?case by simp
  qed simp
  show ?case
  proof (cases "lstat (os_fs (ds_world ?s1)) p = lstat (os_fs (ds_world s)) p")
    case True
    with Cons have "removed_below ?s1 (fold sweep_run ms ?s1) p" by simp
    then show ?thesis
      unfolding removed_below_def using get_task_db [of "ds_world ?s1" "ds_world s"] resolve_sub [OF sweep_run_sub [of m s]]
      by simp blast
  next
    case False
    with Cons.prems(2) sweep_run_changed have r: "removed_below s ?s1 p" by simp
    then have "lstat (os_fs (ds_world (fold sweep_run ms ?s1))) p = None"
      by (intro gone) (simp add: removed_below_def)
    with r show ?thesis by (simp add: removed_below_def)
  qed
qed simp

text \<open>
  C36: Cleaning up touches nothing but finished runs: a path that changes when a result is asked for or
  orphaned runs are swept is gone, and it lay in the directory of a registered run whose task is
  terminal.
\<close>

theorem demo_cleanup_contained:
  assumes "s' = sweep_orphaned_runs s \<or> s' = snd (get_run i s)"
    and "lstat (os_fs (ds_world s')) p \<noteq> lstat (os_fs (ds_world s)) p"
  shows "lstat (os_fs (ds_world s')) p = None \<and>
     (\<exists>run sid ws_dir row q. (run, sid, ws_dir) \<in> set (ds_meta s) \<and> get_task run (ds_world s) = Inr row \<and>
        tk_state row \<in> {''COMPLETED'', ''CANCELLED'', ''FAILED''} \<and>
        resolve (os_fs (ds_world s)) (os_cwd (ds_world s)) ws_dir = Some q \<and> prefix q p)"
proof -
  have "removed_below s s' p"
    using assms(1)
  proof
    assume s': "s' = sweep_orphaned_runs s"
    from assms(2) show ?thesis unfolding s' sweep_orphaned_runs_def by (rule sweep_all_changed) simp
  next
    assume s': "s' = snd (get_run i s)"
    from assms(2) show ?thesis unfolding s'
      by (fastforce simp: get_run_def removed_below_def run_view_of_def Let_def
          split: option.splits sum.splits if_splits dest: map_of_SomeD elim: cleanup_changed)
  qed
  then show ?thesis by (simp add: removed_below_def TERMINAL_STATES_def)
qed

text \<open>
  The result of a finished run can be asked for again: the second answer is the first, and
  nothing changes any more.
\<close>

theorem get_run_settled:
  assumes "get_run i s = (Inr v, s')"
  shows "get_run i s' = (Inr v, s') \<and> (rv_done v \<or> s' = s)"
proof -
  from assms obtain sid ws_dir sc row where m: "map_of (ds_meta s) i = Some (sid, ws_dir)" "get_scenario sid = Inr sc"
    "get_task i (ds_world s) = Inr row" and v: "v = run_view_of sc (tk_state row) (get_events i 0 (ds_world s))"
    "s' = (if rv_done v then cleanup_workspace ws_dir s else s)"
    by (auto simp: get_run_def Let_def split: option.splits sum.splits)
  have db: "w_db (ds_world s') = w_db (ds_world s)" "ds_meta s' = ds_meta s" using v(2) by simp_all
  have "get_run i s' = (Inr v, if rv_done v then cleanup_workspace ws_dir s' else s')"
    using m v(1) db by (simp add: get_run_def get_task_def get_events_def Let_def)
  with v(2) show ?thesis by simp
qed

section \<open>What a result shows\<close>

lemma normalize_str [simp]: "normalize_event_type (event_str e) = event_value e"
  by (simp add: normalize_event_type_def event_str_def startswith_def)

lemma normalize_value [simp]: "normalize_event_type (event_value e) = event_value e"
  by (cases e) (simp_all add: normalize_event_type_def startswith_def)

lemma event_args_sel [simp]:
  "get_or (event_args r) ''event_type'' JNull = JStr (ev_type r)" "dget (event_args r) ''event_type'' = Some (JStr (ev_type r))"
  "get_or (event_args r) ''step_index'' JNull = JInt (ev_step_index r)"
  "get_or (event_args r) ''payload_json'' JNull = JStr (ev_payload_json r)" "payload_of (event_args r) = decoded (JStr (ev_payload_json r))"
  by (simp_all add: event_args_def event_json_def get_or_def payload_of_def)

lemma normalize_row_sel [simp]:
  "get_or (normalize_row (event_args r)) ''event_type'' JNull = JStr (normalize_event_type (ev_type r))"
  "get_or (normalize_row (event_args r)) ''step_index'' JNull = JInt (ev_step_index r)"
  "get_or (normalize_row (event_args r)) ''payload_json'' JNull = JStr (ev_payload_json r)"
  "payload_of (normalize_row (event_args r)) = decoded (JStr (ev_payload_json r))"
  by (simp_all add: normalize_row_def get_or_def payload_of_def update_conv' event_args_def event_json_def)

text \<open>The counts of an outcome, by the types of the rows\<close>

definition typed_count :: "string \<Rightarrow> args list \<Rightarrow> nat" where
  "typed_count t rows = length (filter (\<lambda>row. get_or row ''event_type'' JNull = JStr t) rows)"

lemma fold_note_row:
  "ro_tool_executions (fold note_row rows o1) = ro_tool_executions o1 + int (typed_count ''TOOL_EXECUTED'' rows)"
  "ro_governance_decisions (fold note_row rows o1) = ro_governance_decisions o1 @
     map payload_of (filter (\<lambda>row. get_or row ''event_type'' JNull = JStr ''GOVERNANCE_DECISION'') rows)"
  "ro_events (fold note_row rows o1) = ro_events o1 @ map (\<lambda>row. event_of (get_or row ''event_type'' JNull) (payload_of row)) rows"
  "ro_approval_states (fold note_row rows o1) = ro_approval_states o1 @ filter (\<lambda>st. st \<noteq> JNull)
     (map (\<lambda>row. get_or (payload_of row) ''state'' JNull)
       (filter (\<lambda>row. get_or row ''event_type'' JNull = JStr ''APPROVAL_DECIDED'') rows))"
  "ro_final_state (fold note_row rows o1) = ro_final_state o1" "ro_scenario_id (fold note_row rows o1) = ro_scenario_id o1"
  by (induction rows arbitrary: o1) (simp_all add: note_row_def typed_count_def Let_def)

text \<open>
  The result of a run counts what the audit log holds: after the normalisation of the event
  types the executions and the decisions of the outcome are those of the log, row by row; without it
  they would all be missed.
\<close>

theorem outcome_counts_events:
  assumes "\<forall>r \<in> set events. \<exists>e. ev_type r = event_str e"
  shows "ro_tool_executions (build_run_outcome sid st (normalize_events (map event_args events))) =
       int (length (filter (\<lambda>r. ev_type r = event_str TOOL_EXECUTED) events)) \<and>
     ro_governance_decisions (build_run_outcome sid st (normalize_events (map event_args events))) =
       map (\<lambda>r. decoded (JStr (ev_payload_json r))) (filter (\<lambda>r. ev_type r = event_str GOVERNANCE_DECISION) events) \<and>
     ro_tool_executions (build_run_outcome sid st (map event_args events)) = 0 \<and>
     ro_governance_decisions (build_run_outcome sid st (map event_args events)) = []"
proof -
  have eq: "normalize_event_type (ev_type r) = event_value e \<longleftrightarrow> ev_type r = event_str e" if "r \<in> set events" for r e
  proof -
    from assms that obtain e' where e': "ev_type r = event_str e'" by blast
    have "event_value e' = event_value e \<longleftrightarrow> event_str e' = event_str e" by (simp add: event_str_def)
    with e' show ?thesis by simp
  qed
  have ne: "ev_type r \<noteq> event_value e" if "r \<in> set events" for r e
    using assms that event_str_not_value by metis
  have f: "filter (\<lambda>r. normalize_event_type (ev_type r) = event_value e) events = filter (\<lambda>r. ev_type r = event_str e) events"
    "filter (\<lambda>r. ev_type r = event_value e) events = []" for e
    using eq ne by (auto intro: filter_cong simp: filter_empty_conv)
  show ?thesis
    using f [of TOOL_EXECUTED] f [of GOVERNANCE_DECISION]
    by (simp add: build_run_outcome_def fold_note_row typed_count_def normalize_events_def filter_map comp_def)
qed

definition public_fields :: "string set" where
  "public_fields = {''step'', ''tool'', ''governance_decision'', ''approval_state'', ''tool_status'', ''feedback_category''}"

text \<open>
  What a summary may depend on, and where each field comes from: key of the summary, type of the event,
  key of its payload.
\<close>

definition payload_field :: "args \<Rightarrow> string \<Rightarrow> json" where
  "payload_field row f = get_or (decoded (get_or row ''payload_json'' JNull)) f JNull"

definition same_public :: "args \<Rightarrow> args \<Rightarrow> bool" where
  "same_public row row' \<longleftrightarrow> get_or row ''step_index'' JNull = get_or row' ''step_index'' JNull \<and>
     get_or row ''event_type'' JNull = get_or row' ''event_type'' JNull \<and>
     (\<forall>f \<in> {''tool'', ''decision'', ''state'', ''status'', ''category''}. payload_field row f = payload_field row' f)"

definition public_sources :: "(string \<times> string \<times> string) list" where
  "public_sources =
     [(''tool'', ''ACTION_PROPOSED'', ''tool''), (''governance_decision'', ''GOVERNANCE_DECISION'', ''decision''),
      (''approval_state'', ''APPROVAL_DECIDED'', ''state''), (''tool_status'', ''TOOL_EXECUTED'', ''status''),
      (''feedback_category'', ''FEEDBACK'', ''category'')]"

definition comes_from :: "args set \<Rightarrow> json \<Rightarrow> args \<Rightarrow> bool" where
  "comes_from R i e \<longleftrightarrow> (\<forall>(k, t, f) \<in> set public_sources. \<forall>v. dget e k = Some v \<longrightarrow>
     (\<exists>row \<in> R. get_or row ''step_index'' JNull = i \<and> get_or row ''event_type'' JNull = JStr t \<and> v = payload_field row f))"

definition summary_ok :: "int set \<Rightarrow> (int \<times> args) list \<Rightarrow> bool" where
  "summary_ok I m \<longleftrightarrow> distinct (map fst m) \<and> fst ` set m = I \<and>
     (\<forall>(i, e) \<in> set m. dget e ''step'' = Some (JInt i) \<and> fst ` set e \<subseteq> public_fields)"

lemma summary_field_public: "summary_field t = Some (k, f) \<Longrightarrow> k \<in> public_fields \<and> k \<noteq> ''step''"
  by (auto simp: summary_field_def public_fields_def split: if_splits)

lemma summary_ok_update:
  assumes "summary_ok I m" and "dget e ''step'' = Some (JInt i)" and "fst ` set e \<subseteq> public_fields"
  shows "summary_ok (insert i I) (AList.update i e m)"
proof -
  have "(j, e') \<in> set (AList.update i e m) \<Longrightarrow> (j, e') = (i, e) \<or> (j, e') \<in> set m" for j e'
    by (induction m) (auto split: if_splits)
  then have "\<forall>(j, e') \<in> set (AList.update i e m). dget e' ''step'' = Some (JInt j) \<and> fst ` set e' \<subseteq> public_fields"
    using assms unfolding summary_ok_def by blast
  then show ?thesis using assms(1) by (simp add: summary_ok_def dom_update distinct_update)
qed

lemma summary_ok_entry:
  assumes "summary_ok I m" and "map_of m i = Some e"
  shows "dget e ''step'' = Some (JInt i)" "fst ` set e \<subseteq> public_fields"
  using map_of_SomeD [OF assms(2)] assms(1) unfolding summary_ok_def by blast+

lemma summarize_row_ok:
  assumes "summary_ok I m"
  shows "summary_ok (I \<union> {i. JInt i = get_or row ''step_index'' JNull}) (summarize_row row m)"
proof (cases "get_or row ''step_index'' JNull")
  case (JInt i)
  define e where "e = (case map_of m i of None \<Rightarrow> [(''step'', JInt i)] | Some e \<Rightarrow> e)"
  have e: "dget e ''step'' = Some (JInt i)" "fst ` set e \<subseteq> public_fields"
    using summary_ok_entry [OF assms, of i] by (auto simp: e_def public_fields_def split: option.splits)
  define e' where "e' = (case summary_field (get_or row ''event_type'' JNull) of None \<Rightarrow> e
     | Some (k, f) \<Rightarrow> dset k (get_or (decoded (get_or row ''payload_json'' JNull)) f JNull) e)"
  have "dget e' ''step'' = Some (JInt i) \<and> fst ` set e' \<subseteq> public_fields"
  proof (cases "summary_field (get_or row ''event_type'' JNull)")
    case None
    with e show ?thesis by (simp add: e'_def)
  next
    case (Some kf)
    obtain k f where kf: "kf = (k, f)" by fastforce
    with Some summary_field_public have "k \<in> public_fields" "''step'' \<noteq> k" by blast+
    with e Some kf show ?thesis by (simp only: e'_def option.case prod.case update_conv' dom_update fun_upd_apply if_False Un_subset_iff insert_subset empty_subsetI simp_thms)
  qed
  then have "dget e' ''step'' = Some (JInt i)" "fst ` set e' \<subseteq> public_fields" by blast+
  from summary_ok_update [OF assms this] show ?thesis
    by (simp add: summarize_row_def JInt e_def [symmetric] e'_def Let_def)
qed (simp_all add: summarize_row_def assms)

lemma summarize_rows_ok:
  "summary_ok I m \<Longrightarrow> summary_ok (I \<union> {i. \<exists>row \<in> set rows. JInt i = get_or row ''step_index'' JNull}) (fold summarize_row rows m)"
proof (induction rows arbitrary: I m)
  case (Cons row rows)
  have "I \<union> {i. \<exists>r \<in> set (row # rows). JInt i = get_or r ''step_index'' JNull} =
      I \<union> {i. JInt i = get_or row ''step_index'' JNull} \<union> {i. \<exists>r \<in> set rows. JInt i = get_or r ''step_index'' JNull}"
    by auto
  with Cons.IH [OF summarize_row_ok [OF Cons.prems]] show ?case by simp
qed simp

lemma summary_field_source:
  assumes "summary_field t = Some (k, f)"
  shows "\<exists>u. t = JStr u \<and> (k, u, f) \<in> set public_sources \<and> (\<forall>u' f'. (k, u', f') \<in> set public_sources \<longrightarrow> u' = u \<and> f' = f)"
  using assms by (auto simp: summary_field_def public_sources_def split: if_splits)

lemma summarize_row_public:
  assumes "same_public row row'"
  shows "summarize_row row m = summarize_row row' m"
proof -
  have "payload_field row f = payload_field row' f" if "summary_field (get_or row ''event_type'' JNull) = Some (k, f)" for k f
    using that assms by (auto simp: same_public_def summary_field_def split: if_splits)
  then show ?thesis
    using assms by (auto simp: same_public_def payload_field_def summarize_row_def Let_def split: json.splits option.splits)
qed

lemma summarize_public: "list_all2 same_public rows rows' \<Longrightarrow> fold summarize_row rows m = fold summarize_row rows' m"
  by (induction rows rows' arbitrary: m rule: list_all2_induct) (simp_all add: summarize_row_public)

definition summary_from :: "args set \<Rightarrow> (int \<times> args) list \<Rightarrow> bool" where
  "summary_from R m \<longleftrightarrow> (\<forall>(i, e) \<in> set m. comes_from R (JInt i) e)"

lemma comes_from_mono: "comes_from R i e \<Longrightarrow> R \<subseteq> R' \<Longrightarrow> comes_from R' i e"
  unfolding comes_from_def by blast

lemma summarize_row_from:
  assumes "summary_from R m"
  shows "summary_from (insert row R) (summarize_row row m)"
proof -
  have "comes_from (insert row R) (JInt j) d" if "(j, d) \<in> set m" for j d
    using that assms comes_from_mono [of R "JInt j" d "insert row R"] unfolding summary_from_def by blast
  then have mono: "summary_from (insert row R) m" unfolding summary_from_def by blast
  show ?thesis
  proof (cases "get_or row ''step_index'' JNull")
    case (JInt i)
    define e where "e = (case map_of m i of None \<Rightarrow> [(''step'', JInt i)] | Some e \<Rightarrow> e)"
    have e: "comes_from (insert row R) (JInt i) e"
    proof (cases "map_of m i")
      case None
      then show ?thesis by (simp add: e_def comes_from_def public_sources_def)
    next
      case (Some e0)
      then have "comes_from R (JInt i) e0" using map_of_SomeD [OF Some] assms unfolding summary_from_def by blast
      then show ?thesis using Some comes_from_mono [of R "JInt i" e0 "insert row R"] by (simp add: e_def subset_insertI)
    qed
    define e' where "e' = (case summary_field (get_or row ''event_type'' JNull) of None \<Rightarrow> e
       | Some (k, f) \<Rightarrow> dset k (payload_field row f) e)"
    have e': "comes_from (insert row R) (JInt i) e'"
    proof (cases "summary_field (get_or row ''event_type'' JNull)")
      case None
      with e show ?thesis by (simp add: e'_def)
    next
      case (Some kf)
      obtain k f where kf: "kf = (k, f)" by fastforce
      from summary_field_source [OF Some [unfolded kf]] obtain u where u: "get_or row ''event_type'' JNull = JStr u"
        "\<forall>u' f'. (k, u', f') \<in> set public_sources \<longrightarrow> u' = u \<and> f' = f" by blast
      show ?thesis unfolding comes_from_def
      proof (intro ballI, clarify)
        fix k' t' f' v assume src: "(k', t', f') \<in> set public_sources" and v: "dget e' k' = Some v"
        show "\<exists>row' \<in> insert row R. get_or row' ''step_index'' JNull = JInt i \<and> get_or row' ''event_type'' JNull = JStr t' \<and> v = payload_field row' f'"
        proof (cases "k' = k")
          case True
          with src u have "t' = u" "f' = f" by blast+
          moreover have "v = payload_field row f" using v True Some kf by (simp add: e'_def update_conv')
          ultimately show ?thesis using u(1) JInt by blast
        next
          case False
          with v Some kf have "dget e k' = Some v" by (simp add: e'_def update_conv')
          with e src show ?thesis unfolding comes_from_def by blast
        qed
      qed
    qed
    have "summary_from (insert row R) (AList.update i e' m)"
    proof -
      have "(j, d) \<in> set (AList.update i e' m) \<Longrightarrow> (j, d) = (i, e') \<or> (j, d) \<in> set m" for j d
        by (induction m) (auto split: if_splits)
      moreover have "comes_from (insert row R) (JInt j) d" if "(j, d) \<in> set m" for j d
        using that assms comes_from_mono [of R "JInt j" d "insert row R"] unfolding summary_from_def by blast
      ultimately show ?thesis using e' unfolding summary_from_def by blast
    qed
    moreover have "summarize_row row m = AList.update i e' m"
      by (simp add: summarize_row_def JInt e_def e'_def payload_field_def Let_def split: option.split)
    ultimately show ?thesis by simp
  qed (use mono in \<open>simp_all add: summarize_row_def\<close>)
qed

lemma summarize_rows_from: "summary_from R m \<Longrightarrow> summary_from (set rows \<union> R) (fold summarize_row rows m)"
proof (induction rows arbitrary: R m)
  case (Cons row rows)
  from Cons.IH [OF summarize_row_from [OF Cons.prems, of row]] show ?case by simp
qed simp

text \<open>
  C37: The summary of a run hides the arguments of its tools.  It depends on the step, the type and five
  public fields of the payload of the events only, every other field, \<open>arguments\<close> among them, can be
  anything; it shows no other key; what it shows under a key is the field of that name of an event of the
  right type of this step; and it lists every step of the log once, in order.
\<close>

theorem summary_hides_arguments:
  assumes "list_all2 same_public rows rows'"
  shows "summarize_steps rows = summarize_steps rows' \<and>
     (\<Union>e \<in> set (summarize_steps rows). fst ` set e) \<subseteq>
       {''step'', ''tool'', ''governance_decision'', ''approval_state'', ''tool_status'', ''feedback_category''} \<and>
     (\<forall>e \<in> set (summarize_steps rows). comes_from (set rows) (get_or e ''step'' JNull) e) \<and>
     (\<exists>is. map (\<lambda>e. get_or e ''step'' JNull) (summarize_steps rows) = map JInt is \<and> sorted is \<and> distinct is \<and>
        set is = {i. \<exists>row \<in> set rows. JInt i = get_or row ''step_index'' JNull})"
proof -
  define m where "m = sort_key fst (fold summarize_row rows [])"
  have "summary_ok {} []" by (simp add: summary_ok_def)
  from summarize_rows_ok [OF this, of rows]
  have ok: "summary_ok {i. \<exists>row \<in> set rows. JInt i = get_or row ''step_index'' JNull} m"
    by (simp add: summary_ok_def m_def distinct_map)
  have "summary_from {} []" by (simp add: summary_from_def)
  from summarize_rows_from [OF this, of rows] have src: "summary_from (set rows) m" by (simp add: summary_from_def m_def)
  have eq: "summarize_steps rows = map snd m" "summarize_steps rows = summarize_steps rows'"
    using summarize_public [OF assms, of "[]"] by (simp_all add: summarize_steps_def m_def)
  from ok have "(\<Union>e \<in> set (map snd m). fst ` set e) \<subseteq> public_fields"
    by (fastforce simp: summary_ok_def)
  moreover have step: "get_or e ''step'' JNull = JInt i" if "(i, e) \<in> set m" for i e
    using that ok by (auto simp: summary_ok_def get_or_def)
  then have "map (\<lambda>e. get_or e ''step'' JNull) (map snd m) = map JInt (map fst m)" by auto
  moreover have "\<forall>e \<in> set (map snd m). comes_from (set rows) (get_or e ''step'' JNull) e"
    using src step by (fastforce simp: summary_from_def)
  moreover have "sorted (map fst m)" by (simp add: m_def)
  moreover have "distinct (map fst m)" "set (map fst m) = {i. \<exists>row \<in> set rows. JInt i = get_or row ''step_index'' JNull}"
    using ok by (simp_all add: summary_ok_def)
  ultimately show ?thesis
    using eq unfolding public_fields_def by metis
qed

section \<open>A finished run\<close>

definition ended_row :: task_row where
  "ended_row = \<lparr>tk_id = ''id'', tk_workspace_path = ''/ws/a'', tk_workspace_hash = [], tk_description = [], tk_state = ''COMPLETED'',
     tk_termination_reason = Some ''COMPLETED'', tk_step_count = 0, tk_created_at = ''t'', tk_updated_at = ''t''\<rparr>"

definition ended_manager :: manager_state where
  "ended_manager = \<lparr>ds_world = demo_world\<lparr>os_fs := [([''ws''], Dir), ([''ws'', ''a''], Dir), ([''ws'', ''b''], Dir)],
       w_db := empty_db\<lparr>tasks := [ended_row]\<rparr>\<rparr>,
     ds_scenarios = [], ds_meta = [(''id'', ''dangerous-action-denial'', ''/ws/a'')], ds_llms = [], ds_names = 0\<rparr>"

lemma ended_swept: "os_fs (ds_world (sweep_orphaned_runs ended_manager)) = [([''ws''], Dir), ([''ws'', ''b''], Dir)]"
proof -
  let ?w = "ds_world ended_manager"
  have fs: "os_fs ?w = [([''ws''], Dir), ([''ws'', ''a''], Dir), ([''ws'', ''b''], Dir)]" "os_cwd ?w = [''ws'']"
    by (simp_all add: ended_manager_def demo_sels)
  have "resolve (os_fs ?w) (os_cwd ?w) ''/ws/a'' = Some [''ws'', ''a'']" "\<not> islink (os_fs ?w) (os_cwd ?w) ''/ws/a''"
    "lstat (os_fs ?w) [''ws'', ''a''] = Some Dir" "NUL \<notin> set ''/ws/a''"
    unfolding fs by code_simp+
  moreover from this have "isdir_py ?w ''/ws/a''" by (simp add: isdir_py_def)
  ultimately have "os_fs (rmtree ''/ws/a'' ?w) = [([''ws''], Dir), ([''ws'', ''b''], Dir)]"
    by (simp add: rmtree_def) (simp add: fs)
  moreover have "get_task ''id'' ?w = Inr ended_row" by (simp add: get_task_def task_get_def ended_manager_def ended_row_def)
  moreover have "ds_meta ended_manager = [(''id'', ''dangerous-action-denial'', ''/ws/a'')]" by (simp add: ended_manager_def)
  ultimately show ?thesis using \<open>isdir_py ?w ''/ws/a''\<close>
    by (simp add: sweep_orphaned_runs_def sweep_run_def cleanup_workspace_def ended_row_def TERMINAL_STATES_def)
qed

theorem demo_cleanup_contained_witness:
  "lstat (os_fs (ds_world (sweep_orphaned_runs ended_manager))) [''ws'', ''a''] = None \<and>
     (\<exists>sid ws_dir. (''id'', sid, ws_dir) \<in> set (ds_meta ended_manager))"
proof -
  have "lstat (os_fs (ds_world (sweep_orphaned_runs ended_manager))) [''ws'', ''a''] \<noteq> lstat (os_fs (ds_world ended_manager)) [''ws'', ''a'']"
    unfolding ended_swept by (simp add: lstat_def ended_manager_def)
  from demo_cleanup_contained [OF _ this, of "''id''"]
  have "lstat (os_fs (ds_world (sweep_orphaned_runs ended_manager))) [''ws'', ''a''] = None" by simp
  then show ?thesis by (simp add: ended_manager_def)
qed

theorem get_run_settled_witness:
  "\<exists>v s'. get_run ''id'' ended_manager = (Inr v, s') \<and> get_run ''id'' s' = (Inr v, s') \<and> rv_done v"
proof -
  have "\<exists>v s'. get_run ''id'' ended_manager = (Inr v, s') \<and> rv_done v"
    by (simp add: get_run_def ended_manager_def get_scenario_def REGISTRY_eq get_task_def task_get_def ended_row_def run_view_of_def
        TERMINAL_STATES_def Let_def)
  then obtain v s' where "get_run ''id'' ended_manager = (Inr v, s')" "rv_done v" by blast
  with get_run_settled [OF this(1)] show ?thesis by blast
qed

definition one_event :: audit_row where
  "one_event = \<lparr>ev_id = 1, ev_task_id = ''id'', ev_step_index = 0, ev_timestamp = ''t'', ev_type = event_str TOOL_EXECUTED,
     ev_payload_json = ''{}'', ev_prev_hash = [], ev_hash = []\<rparr>"

theorem outcome_counts_events_witness:
  "ro_tool_executions (build_run_outcome [] [] (normalize_events (map event_args [one_event]))) = 1 \<and>
   ro_tool_executions (build_run_outcome [] [] (map event_args [one_event])) = 0"
proof -
  have "\<forall>r \<in> set [one_event]. \<exists>e. ev_type r = event_str e" by (simp add: one_event_def) blast
  from outcome_counts_events [OF this, of "[]" "[]"] show ?thesis by (simp add: one_event_def)
qed

theorem summary_hides_arguments_witness:
  "summarize_steps [[(''event_type'', JStr ''ACTION_PROPOSED''), (''step_index'', JInt 0),
       (''payload_json'', JStr ''{\"tool\": \"write_file\", \"arguments\": {\"content\": \"secret\"}}'')]] =
   summarize_steps [[(''event_type'', JStr ''ACTION_PROPOSED''), (''step_index'', JInt 0),
       (''payload_json'', JStr ''{\"tool\": \"write_file\"}'')]]"
proof -
  have "same_public [(''event_type'', JStr ''ACTION_PROPOSED''), (''step_index'', JInt 0),
       (''payload_json'', JStr ''{\"tool\": \"write_file\", \"arguments\": {\"content\": \"secret\"}}'')]
    [(''event_type'', JStr ''ACTION_PROPOSED''), (''step_index'', JInt 0),
       (''payload_json'', JStr ''{\"tool\": \"write_file\"}'')]" by code_simp
  then have "list_all2 same_public [[(''event_type'', JStr ''ACTION_PROPOSED''), (''step_index'', JInt 0),
       (''payload_json'', JStr ''{\"tool\": \"write_file\", \"arguments\": {\"content\": \"secret\"}}'')]]
    [[(''event_type'', JStr ''ACTION_PROPOSED''), (''step_index'', JInt 0),
       (''payload_json'', JStr ''{\"tool\": \"write_file\"}'')]]" by simp
  from summary_hides_arguments [OF this] show ?thesis by blast
qed

end
