(* ===== verification/Demo_Run.thy ===== *)
theory Demo_Run
  imports Demo_Contract
begin

text \<open>
  Starting a run: what a client can make the manager do, and the whole way of one scenario, from the
  request through parser, fences, command judge, loop, audit log and projection to the answer.
\<close>

section \<open>Starting a run\<close>

lemma mkdir_cases:
  obtains (made) q where "mkdir E name w = (Inr (), w\<lparr>os_fs := (q, Dir) # os_fs w\<rparr>)" "lstat (os_fs w) q = None"
    "resolve_create (os_fs w) (os_cwd w) (rstrip_chars ''/'' name) = Some q"
  | (failed) e where "mkdir E name w = (Inl e, w)"
proof (cases "fst (mkdir E name w)")
  case (Inl e)
  then have "mkdir E name w = (Inl e, w)" by (auto simp: mkdir_def split: option.splits if_splits)
  then show thesis by (rule failed)
next
  case (Inr u)
  then obtain q where "mkdir E name w = (Inr (), w\<lparr>os_fs := (q, Dir) # os_fs w\<rparr>)" "lstat (os_fs w) q = None"
    "resolve_create (os_fs w) (os_cwd w) (rstrip_chars ''/'' name) = Some q"
    by (auto simp: mkdir_def split: option.splits if_splits)
  then show thesis by (rule made)
qed

lemma mkdtemp_effect:
  assumes "mkdtemp n U s = (r, s')"
  shows "ds_meta s' = ds_meta s \<and> os_cwd (ds_world s') = os_cwd (ds_world s) \<and> w_db (ds_world s') = w_db (ds_world s) \<and>
     os_procs (ds_world s') = os_procs (ds_world s) \<and> ds_names s \<le> ds_names s' \<and>
     (\<forall>d. r = Inr d \<longrightarrow> (\<exists>k q. ds_names s \<le> k \<and> ds_names s' = Suc k \<and>
        d = abspath (os_cwd (ds_world s)) (path_join (du_base U) (''aegis_demorun_'' @ du_names U k)) \<and>
        resolve_create (os_fs (ds_world s)) (os_cwd (ds_world s))
          (rstrip_chars ''/'' (path_join (du_base U) (''aegis_demorun_'' @ du_names U k))) = Some q \<and>
        lstat (os_fs (ds_world s)) q = None))"
  using assms
proof (induction n arbitrary: s)
  case (Suc n)
  let ?name = "path_join (du_base U) (''aegis_demorun_'' @ du_names U (ds_names s))"
  show ?case
  proof (cases rule: mkdir_cases [of "e_os (du_env U)" ?name "ds_world s"])
    case (made q)
    with Suc.prems show ?thesis by (auto simp: Let_def intro!: exI [of _ "ds_names s"])
  next
    case (failed e)
    show ?thesis
    proof (cases "exn_class e = ''FileExistsError''")
      case True
      with Suc.prems failed have "mkdtemp n U (s\<lparr>ds_world := ds_world s, ds_names := Suc (ds_names s)\<rparr>) = (r, s')"
        by (simp add: Let_def)
      from Suc.IH [OF this] show ?thesis by (fastforce simp: Suc_le_eq)
    next
      case False
      with Suc.prems failed show ?thesis by (auto simp: Let_def)
    qed
  qed
qed auto

lemma on_world_frame: "on_world f s = (r, s') \<Longrightarrow> ds_meta s' = ds_meta s \<and> ds_names s' = ds_names s"
  by (auto simp: on_world_def split: prod.splits)

lemma sweep_frame [simp]:
  "ds_meta (sweep_orphaned_runs s) = ds_meta s" "ds_names (sweep_orphaned_runs s) = ds_names s"
  "os_cwd (ds_world (sweep_orphaned_runs s)) = os_cwd (ds_world s)" "w_db (ds_world (sweep_orphaned_runs s)) = w_db (ds_world s)"
  "os_procs (ds_world (sweep_orphaned_runs s)) = os_procs (ds_world s)"
proof -
  have "ds_meta (fold sweep_run ms s) = ds_meta s \<and> ds_names (fold sweep_run ms s) = ds_names s \<and>
      os_cwd (ds_world (fold sweep_run ms s)) = os_cwd (ds_world s) \<and> w_db (ds_world (fold sweep_run ms s)) = w_db (ds_world s) \<and>
      os_procs (ds_world (fold sweep_run ms s)) = os_procs (ds_world s)" for ms
    by (induction ms arbitrary: s) simp_all
  then show "ds_meta (sweep_orphaned_runs s) = ds_meta s" "ds_names (sweep_orphaned_runs s) = ds_names s"
    "os_cwd (ds_world (sweep_orphaned_runs s)) = os_cwd (ds_world s)" "w_db (ds_world (sweep_orphaned_runs s)) = w_db (ds_world s)"
    "os_procs (ds_world (sweep_orphaned_runs s)) = os_procs (ds_world s)"
    by (simp_all add: sweep_orphaned_runs_def)
qed

lemma register_frame [simp]:
  "ds_meta (register_run sid sc d s) = ds_meta s" "ds_names (register_run sid sc d s) = ds_names s"
  "ds_world (register_run sid sc d s) = ds_world s"
  by (simp_all add: register_run_def)

text \<open>The steps of a start that succeeds\<close>

lemma start_run_steps:
  assumes "start_run U sid s = (Inr rid, s')"
  obtains sc ws_dir s1 s2 w where "get_scenario sid = Inr sc"
    "mkdtemp TMP_MAX U (sweep_orphaned_runs s) = (Inr ws_dir, s1)"
    "on_world (materialize_fixture (e_os (du_env U)) (sc_fixture sc) ws_dir) s1 = (Inr (), s2)"
    "create_task_with (du_env U) (du_base U) (run_demo U (register_run sid sc ws_dir s2) ws_dir sid) ws_dir sid (ds_world s2) = (Inr rid, w)"
    "s' = (register_run sid sc ws_dir s2)\<lparr>ds_world := w, ds_meta := dset rid (sid, ws_dir) (ds_meta s2)\<rparr>"
proof -
  from assms obtain sc where sc: "get_scenario sid = Inr sc" by (auto simp: start_run_def split: sum.splits)
  with assms obtain ws_dir s1 where 1: "mkdtemp TMP_MAX U (sweep_orphaned_runs s) = (Inr ws_dir, s1)"
    "andThen (on_world (materialize_fixture (e_os (du_env U)) (sc_fixture sc) ws_dir)) (\<lambda>_ s1.
            launch_run U sid ws_dir (register_run sid sc ws_dir s1)) s1 = (Inr rid, s')"
    by (auto simp: start_run_def elim: andThen_InrE)
  from 1(2) obtain s2 where 2: "on_world (materialize_fixture (e_os (du_env U)) (sc_fixture sc) ws_dir) s1 = (Inr (), s2)"
    "launch_run U sid ws_dir (register_run sid sc ws_dir s2) = (Inr rid, s')"
    by (auto elim: andThen_InrE)
  obtain x w where x: "create_task_with (du_env U) (du_base U) (run_demo U (register_run sid sc ws_dir s2) ws_dir sid) ws_dir sid (ds_world s2) = (x, w)"
    by fastforce
  with 2(2) have "x = Inr rid" "s' = (register_run sid sc ws_dir s2)\<lparr>ds_world := w, ds_meta := dset rid (sid, ws_dir) (ds_meta s2)\<rparr>"
    by (cases x; simp add: launch_run_def andThen_def on_world_def)+
  with sc 1 2 x show thesis by (intro that) simp_all
qed

text \<open>The harness of a demonstration keeps the contract of the loop, too.\<close>

definition demo_resolver :: "demo_setup \<Rightarrow> bool \<Rightarrow> nat \<Rightarrow> string \<Rightarrow> action \<Rightarrow> verdict \<Rightarrow> (world, bool \<times> action) eff" where
  "demo_resolver U interactive base i =
     (let f = sync_resolver (manager_service U) i in if interactive then wrap_supersede_resolver base f else f)"

lemma demo_resolver_quiet: "quiet w (snd (demo_resolver U b base i a v w))"
proof -
  have "quiet w (w\<lparr>w_asks := k\<rparr>)" for k by (simp add: quiet_def)
  from quiet_trans [OF this sync_resolver_quiet] this sync_resolver_quiet show ?thesis
    by (simp add: demo_resolver_def wrap_supersede_resolver_def Let_def)
qed

lemma scenario_verifier_quiet: "quiet w (snd (scenario_verifier U sc config ws_dir w))"
  by (simp add: scenario_verifier_def final_verifier_quiet ret_def quiet_refl)

interpretation demo: quiet_parts "du_env U"
    "bare_harness U config model i ws_dir (scenario_verifier U sc cfg ws_dir) (Some (demo_resolver U b base i)) cancel"
    for U config model i ws_dir sc cfg b base cancel
  by unfold_locales (auto simp: bare_harness_def built_dispatch_quiet built_execute_quiet scenario_verifier_quiet demo_resolver_quiet)

lemma demo_harness_bare:
  assumes "demo_harness U s i ws_dir (Some (sync_resolver (manager_service U) i)) cancel = Inr h"
    and "map_of (ds_scenarios s) ws_dir = Some sid"
  obtains config model sc b base where
    "h = bare_harness U config model i ws_dir (scenario_verifier U sc config ws_dir) (Some (demo_resolver U b base i)) cancel"
proof -
  from assms obtain sc model where
    "h = bare_harness U (scenario_config U sc ws_dir) model i ws_dir (scenario_verifier U sc (scenario_config U sc ws_dir) ws_dir)
       (Some (demo_resolver U (sc_interactive_approval sc) (w_asks (ds_world s)) i)) cancel"
    by (auto simp: demo_harness_def demo_resolver_def Let_def elim!: res_bind_InrE split: option.splits)
  then show thesis by (rule that)
qed

lemma demo_run_row:
  assumes "run_demo U s ws_dir d i w = (Inr (), w')" and "map_of (ds_scenarios s) ws_dir = Some sid"
    and "get_task i w = Inr row"
  shows "(\<exists>row'. get_task i w' = Inr row' \<and> tk_workspace_path row' = tk_workspace_path row) \<and>
     (du_sync U \<longrightarrow> (\<exists>h. workspace_root (h_ctx h) = ws_dir \<and> task_id (h_ctx h) = i \<and> run_harness (du_env U) h i d w = (Inr (), w')))"
proof (cases "du_sync U")
  case False
  with assms show ?thesis by (simp add: run_demo_def)
next
  case True
  with assms(1) obtain h where h: "demo_harness U s i ws_dir (Some (sync_resolver (manager_service U) i)) (Some (du_cancelled U i)) = Inr h"
    "run_harness (du_env U) h i d w = (Inr (), w')" by (auto simp: run_demo_def split: sum.splits)
  from demo_harness_bare [OF h(1) assms(2)] obtain config model sc b base where
    b: "h = bare_harness U config model i ws_dir (scenario_verifier U sc config ws_dir) (Some (demo_resolver U b base i)) (Some (du_cancelled U i))" .
  from h(2) obtain r w1 where re: "run_ends (du_env U) h d w r w1" and fi: "finish_task (du_env U) i r w1 = (Inr (), w')"
    by (rule run_harness_finish)
  from demo.outcome_logged [OF re [unfolded b]] have "tasks (w_db w1) = tasks (w_db w)" by (auto simp: logged_def kept_def)
  from task_get_cong [OF this, of i] assms(3) have "task_get i (w_db w1) = Inr row" by (simp add: get_task_def)
  moreover from finish_task_frame [OF fi] obtain n now where
    "tasks (w_db w') = tasks (task_update_state now i (termination_to_state r) (Some (reason_value r)) (Some n) (w_db w1))" by blast
  from task_get_cong [OF this, of i]
  have "get_task i w' = map_sum id (set_task_state now (termination_to_state r) (Some (reason_value r)) (Some n)) (task_get i (w_db w1))"
    by (simp add: get_task_def task_get_update split: sum.splits)
  moreover have "workspace_root (h_ctx h) = ws_dir" "task_id (h_ctx h) = i" by (simp_all add: b bare_harness_def)
  ultimately show ?thesis using h(2) by (auto simp: set_task_state_def)
qed

text \<open>
  C35: A client chooses nothing but the scenario.  An unknown name changes nothing; a known one gets a
  directory that did not exist, with a name the manager made in its own base: this directory is the
  workspace in the row of the task and in the records of the manager, and, when the manager runs its
  tasks at once, the workspace root of the harness whose run led to the final state.  The records of
  the other runs are kept.
\<close>

theorem start_run_whitelisted:
  assumes "start_run U sid s = (r, s')"
  shows "(r = Inl (unknown_scenario sid) \<and> s' = s \<and> sid \<notin> sc_id ` set list_scenarios) \<or>
     (sid \<in> sc_id ` set list_scenarios \<and> (\<forall>rid. r = Inr rid \<longrightarrow>
        (\<exists>k q ws_dir row. let name = path_join (du_base U) (''aegis_demorun_'' @ du_names U k) in
           ds_names s \<le> k \<and> ds_names s' = Suc k \<and>
           resolve_create (os_fs (ds_world (sweep_orphaned_runs s))) (os_cwd (ds_world s)) (rstrip_chars ''/'' name) = Some q \<and>
           lstat (os_fs (ds_world (sweep_orphaned_runs s))) q = None \<and>
           ws_dir = abspath (os_cwd (ds_world s)) name \<and>
           map_of (ds_meta s') = (map_of (ds_meta s))(rid \<mapsto> (sid, ws_dir)) \<and>
           map_of (ds_scenarios s') ws_dir = Some sid \<and>
           get_task rid (ds_world s') = Inr row \<and> tk_workspace_path row = ws_dir \<and>
           (du_sync U \<longrightarrow> (\<exists>h w. workspace_root (h_ctx h) = ws_dir \<and> task_id (h_ctx h) = rid \<and>
              run_harness (du_env U) h rid sid w = (Inr (), ds_world s'))))))"
proof (cases "get_scenario sid")
  case (Inl e)
  then have "sid \<notin> sc_id ` set list_scenarios" using get_scenario_iff [of sid] by auto
  with Inl assms show ?thesis by (auto simp: start_run_def get_scenario_def split: option.splits)
next
  case (Inr sc)
  then have known: "sid \<in> sc_id ` set list_scenarios" using get_scenario_iff [of sid sc] by (auto intro: rev_image_eqI)
  show ?thesis
  proof (intro disjI2 conjI known allI impI)
    fix rid assume "r = Inr rid"
    with assms obtain sc ws_dir s1 s2 w where s: "mkdtemp TMP_MAX U (sweep_orphaned_runs s) = (Inr ws_dir, s1)"
      "on_world (materialize_fixture (e_os (du_env U)) (sc_fixture sc) ws_dir) s1 = (Inr (), s2)"
      "create_task_with (du_env U) (du_base U) (run_demo U (register_run sid sc ws_dir s2) ws_dir sid) ws_dir sid (ds_world s2) = (Inr rid, w)"
      "s' = (register_run sid sc ws_dir s2)\<lparr>ds_world := w, ds_meta := dset rid (sid, ws_dir) (ds_meta s2)\<rparr>"
      by (auto elim: start_run_steps)
    from mkdtemp_effect [OF s(1)] obtain k q where k: "ds_names s \<le> k" "ds_names s1 = Suc k"
      "ws_dir = abspath (os_cwd (ds_world s)) (path_join (du_base U) (''aegis_demorun_'' @ du_names U k))"
      "resolve_create (os_fs (ds_world (sweep_orphaned_runs s))) (os_cwd (ds_world s))
          (rstrip_chars ''/'' (path_join (du_base U) (''aegis_demorun_'' @ du_names U k))) = Some q"
      "lstat (os_fs (ds_world (sweep_orphaned_runs s))) q = None" "ds_meta s1 = ds_meta s" by auto
    from create_task_with_Inr [OF s(3)] obtain w1 where w1:
      "task_insert rid (e_now (du_env U) (w_ticks (ds_world s2))) ws_dir (workspace_hash (e_hash (du_env U)) ws_dir) sid (w_db (ds_world s2)) = (Inr rid, w_db w1)"
      "run_demo U (register_run sid sc ws_dir s2) ws_dir sid rid w1 = (Inr (), w)" by blast
    from task_insert_get(2) [OF w1(1)] obtain row0 where row0: "get_task rid w1 = Inr row0" "tk_workspace_path row0 = ws_dir"
      by (auto simp: get_task_def)
    have reg: "map_of (ds_scenarios (register_run sid sc ws_dir s2)) ws_dir = Some sid" by (simp add: register_run_def update_conv')
    from demo_run_row [OF w1(2) reg row0(1)] row0(2) obtain row where row: "get_task rid w = Inr row" "tk_workspace_path row = ws_dir"
      and run: "du_sync U \<longrightarrow> (\<exists>h w. workspace_root (h_ctx h) = ws_dir \<and> task_id (h_ctx h) = rid \<and> run_harness (du_env U) h rid sid w = (Inr (), ds_world s'))"
      using s(4) by auto
    have "ds_names s' = Suc k" "map_of (ds_meta s') = (map_of (ds_meta s))(rid \<mapsto> (sid, ws_dir))"
      "map_of (ds_scenarios s') ws_dir = Some sid" "ds_world s' = w"
      using k(2,6) on_world_frame [OF s(2)] s(4) reg by (auto simp: update_conv')
    with k(1,3,4,5) row run show "\<exists>k q ws_dir row. let name = path_join (du_base U) (''aegis_demorun_'' @ du_names U k) in
           ds_names s \<le> k \<and> ds_names s' = Suc k \<and>
           resolve_create (os_fs (ds_world (sweep_orphaned_runs s))) (os_cwd (ds_world s)) (rstrip_chars ''/'' name) = Some q \<and>
           lstat (os_fs (ds_world (sweep_orphaned_runs s))) q = None \<and>
           ws_dir = abspath (os_cwd (ds_world s)) name \<and>
           map_of (ds_meta s') = (map_of (ds_meta s))(rid \<mapsto> (sid, ws_dir)) \<and>
           map_of (ds_scenarios s') ws_dir = Some sid \<and>
           get_task rid (ds_world s') = Inr row \<and> tk_workspace_path row = ws_dir \<and>
           (du_sync U \<longrightarrow> (\<exists>h w. workspace_root (h_ctx h) = ws_dir \<and> task_id (h_ctx h) = rid \<and>
              run_harness (du_env U) h rid sid w = (Inr (), ds_world s')))"
      by (intro exI [of _ k] exI [of _ q] exI [of _ ws_dir] exI [of _ row]) (simp add: Let_def)
  qed
qed
section \<open>The scenario of the denied command\<close>

text \<open>A text that no secret pattern can match\<close>

lemma redact_plain:
  assumes "CHR ''='' \<notin> set t" and "\<not> str_in ''sk-'' t" and "\<not> str_in ''AKIA'' t"
  shows "redact t None = t"
proof -
  have "match_openai (drop i t) = None" "match_aws (drop i t) = None" for i
    using in_drop [of i t "''sk-''"] in_drop [of i t "''AKIA''"] assms(2,3)
    by (auto simp: match_openai_def match_aws_def Let_def)
  moreover have "match_generic (drop i t) = None" for i
  proof -
    have "match_assign u = None" if "CHR ''='' \<notin> set u" for u
    proof -
      have "\<not> startswith (drop (spaces u) u) ''=''"
        using that set_drop_subset [of "spaces u" u] by (cases "drop (spaces u) u") (auto simp: startswith_def)
      then show ?thesis by (simp add: match_assign_def Let_def)
    qed
    moreover have "CHR ''='' \<notin> set (drop j (drop i t))" for j using assms(1) by (auto dest: in_set_dropD)
    ultimately show ?thesis by (simp add: match_generic_def split: option.splits)
  qed
  ultimately show ?thesis
    by (simp add: redact_def redact_secrets_def KEY_PATTERNS_def gsub_id)
qed

lemma decoded_payload:
  assumes "CHR ''='' \<notin> set (dumps True (JObj p))" and "\<not> str_in ''sk-'' (dumps True (JObj p))"
    and "\<not> str_in ''AKIA'' (dumps True (JObj p))" and "jwf (JObj p)" and "canon (JObj p) = JObj q"
  shows "decoded (JStr (redact (dumps True (JObj p)) None)) = q"
proof -
  have "redact (dumps True (JObj p)) None = dumps True (JObj p)" using assms(1-3) by (rule redact_plain)
  moreover have "dumps True (JObj p) \<noteq> []" by (simp add: Let_def)
  ultimately show ?thesis
    using loads_dumps_sorted [OF assms(4)] assms(5) by (simp add: decoded_def del: dumps.simps)
qed

definition rm_action :: action where
  "rm_action = \<lparr>tool_name = ''run_command'', arguments = [(''command'', JStr ''rm -rf /'')], thought = None, expectation = None\<rparr>"

text \<open>The two ways the command is denied: by the fence, or, with the root directory as workspace, by the allow-list\<close>

definition denials :: "(string \<times> string) list" where
  "denials = [(''CMD_PATH_FENCE'', ''path escapes workspace (traversal/symlink)''), (''CMD_ALLOWLIST'', ''rm not in allowlist'')]"

lemma parse_rm: "parse_action diag (tool_call ''run_command'' [(''command'', JStr ''rm -rf /'')]) = Inr rm_action"
  by code_simp

lemma lex_rm: "lex_command (JStr ''rm -rf /'') = Inr \<lparr>lex_ok = True, lex_argv = [''rm'', ''-rf'', ''/''], lex_reason = ''ok'', has_metastructure = False\<rparr>"
  by code_simp

lemma rm_option_plain: "\<not> list_ex (fnmatch (basename (candidate ''-rf''))) (sensitive_file_patterns default_governance) \<and>
    \<not> looks_like_path (candidate ''-rf'') \<and> \<not> file_consuming ''rm'' \<and> candidate ''/'' = ''/'' \<and> looks_like_path ''/''"
  by code_simp

lemma judge_rm: "judge_command (JStr ''rm -rf /'') (command_allowlist default_governance) (command_rules default_governance) =
    Inr (mk_verdict DENY ''CMD_ALLOWLIST'' ''rm not in allowlist'')"
  by code_simp

lemma root_not_sensitive: "pv_allowed (fence_sensitive ''/'' ''/'' (sensitive_file_patterns default_governance))"
  by code_simp

lemma escape_reason: "is_escape ''path escapes workspace (traversal/symlink)''"
  by code_simp

lemma root_realpath: "realpath_segs fs cwd ''/'' = []" "resolve fs cwd ''/'' = Some []"
  by (simp_all add: realpath_segs_def resolve_def start_def segs_def isabs_def startswith_def walk.simps)

lemma root_checked:
  assumes "NUL \<notin> set ws_dir"
  shows "check_path fs cwd (JStr ''/'') ws_dir pats =
     Inr (if realpath fs cwd ws_dir = ''/'' then fence_sensitive ''/'' ''/'' pats
          else pv_denied ''path escapes workspace (traversal/symlink)'')"
proof -
  have root: "realpath fs cwd ''/'' = ''/''" by (simp add: realpath_def root_realpath abs_str_def)
  have common: "commonpath2 ''/'' (realpath fs cwd ws_dir) = Inr ''/''"
    by (simp add: commonpath2_def realpath_def isabs_abs_str) (simp add: isabs_def startswith_def plain_segs_def segs_def)
  have "fence_real fs cwd (realpath fs cwd ws_dir) ''/'' = Inr (Inr ''/'')"
    using root by (simp add: fence_real_def os_present_def path_exists_def root_realpath os_realpath_def)
  then show ?thesis
    using assms root common
    by (auto simp: check_path_def check_path_str_def os_realpath_def isabs_def startswith_def Let_def)
qed

lemma rm_fenced:
  assumes "NUL \<notin> set (effective_root d c)" and "sensitive_patterns (pc d) = sensitive_file_patterns default_governance"
  shows "run_command_fence d rm_action c w =
     Inr (if realpath (os_fs w) (os_cwd w) (effective_root d c) = ''/'' then None else Some ''path escapes workspace (traversal/symlink)'')"
  using rm_option_plain root_not_sensitive escape_reason root_checked [OF assms(1)] assms(2)
  by (simp add: run_command_fence_def rm_action_def get_or_def fence_command_def lex_rm pv_denied_def Let_def)

lemma rm_denied:
  fixes w :: "'s os_state_scheme"
  assumes "registry_get (registry d) ''run_command'' = Some tool" and "engine d = build_engine config"
    and "governance config = default_governance" and "sensitive_patterns (pc d) = sensitive_file_patterns default_governance"
    and "NUL \<notin> set (effective_root d c)"
  shows "\<exists>(rule, reason) \<in> set denials.
     dispatch d rm_action c w = (Inr (mk_verdict DENY rule reason, Some (denied_result rm_action reason)), w)"
proof -
  have reg: "registry_get (registry d) (tool_name rm_action) = Some tool" using assms(1) by (simp add: rm_action_def)
  have fenced: "file_fence d rm_action c w = Inr None" by (simp add: file_fence_def rm_action_def FILE_TOOLS_def)
  have ev: "evaluate (engine d) rm_action = Inr (mk_verdict DENY ''CMD_ALLOWLIST'' ''rm not in allowlist'')"
    using judge_rm assms(2,3) by (simp add: build_default_fn_def default_tier_def rm_action_def get_or_def)
  show ?thesis
  proof (cases "realpath (os_fs w) (os_cwd w) (effective_root d c) = ''/''")
    case True
    then have "run_command_fence d rm_action c w = Inr None" using rm_fenced [OF assms(5,4), of w] by simp
    then have "dispatch d rm_action c w =
        (Inr (mk_verdict DENY ''CMD_ALLOWLIST'' ''rm not in allowlist'', Some (denied_result rm_action ''rm not in allowlist'')), w)"
      unfolding dispatch_def reg fenced ev by (simp add: mk_verdict_def)
    then show ?thesis by (simp add: denials_def)
  next
    case False
    then have "run_command_fence d rm_action c w = Inr (Some ''path escapes workspace (traversal/symlink)'')"
      using rm_fenced [OF assms(5,4), of w] by simp
    then have "dispatch d rm_action c w = (Inr (mk_verdict DENY ''CMD_PATH_FENCE'' ''path escapes workspace (traversal/symlink)'',
        Some (denied_result rm_action ''path escapes workspace (traversal/symlink)'')), w)"
      unfolding dispatch_def reg fenced ev by simp
    then show ?thesis by (simp add: denials_def)
  qed
qed

text \<open>What a program adds to the events of a task, while files, processes and tasks stay as they are\<close>

definition added :: "string \<Rightarrow> world \<Rightarrow> (event_type \<times> args) list \<Rightarrow> world \<Rightarrow> bool" where
  "added i w es w' \<longleftrightarrow> os_fs w' = os_fs w \<and> os_procs w' = os_procs w \<and> tasks (w_db w') = tasks (w_db w) \<and>
     (ids_ok (w_db w) \<longrightarrow> ids_ok (w_db w') \<and>
       (\<exists>rs. task_events i (w_db w') = task_events i (w_db w) @ rs \<and> (\<forall>r \<in> set rs. 0 < ev_id r) \<and>
         map row_view rs = map event_view es))"

lemma added_same: "os_fs w' = os_fs w \<Longrightarrow> os_procs w' = os_procs w \<Longrightarrow> w_db w' = w_db w \<Longrightarrow> added i w [] w'"
  by (simp add: added_def)

lemma added_audit:
  assumes "added i w es w1" and "task_id (h_ctx h) = i"
  shows "added i w (es @ [(et, p)]) (audit E h st et p w1)"
proof -
  let ?row = "appended_row (e_hash E) (e_now E (w_ticks w1)) i st et p (w_db w1)"
  have db: "w_db (audit E h st et p w1) = snd (audit_append (e_hash E) (e_now E (w_ticks w1)) i st et p (w_db w1))"
    by (simp add: audit_def read_now_def assms(2))
  have "task_events i (w_db (audit E h st et p w1)) = task_events i (w_db w1) @ [?row]" if "ids_ok (w_db w1)"
    unfolding db by (simp add: task_events_append [OF that])
  moreover have "ids_ok (w_db (audit E h st et p w1))" if "ids_ok (w_db w1)" unfolding db using that by (rule ids_ok_append)
  moreover have "row_view ?row = event_view (et, p)" "0 < ev_id ?row"
    by (simp_all add: row_view_def event_view_def appended_row_def Let_def)
  moreover have "tasks (w_db (audit E h st et p w1)) = tasks (w_db w1)" unfolding db by (simp add: audit_append_snd)
  ultimately show ?thesis
    using assms(1) by (auto simp: added_def audit_def read_now_def)
qed

text \<open>The run of a model that proposes one action which is denied, with a limit of one step\<close>

lemma denied_run:
  assumes h: "h_prompt h = None" "h_project h = None" "h_limits h = default_limits\<lparr>max_steps := 1, max_consecutive_failures := 5\<rparr>"
    "h_cancel h = Some f" "\<And>n. \<not> f n"
    and llm: "\<And>msgs. h_llm h (w_llm w) msgs = Inr raw" "parse_action (e_diag E) raw = Inr a"
    and disp: "\<And>u. \<exists>(rule, reason) \<in> set ds. dispatch (h_dispatcher h) a (h_ctx h) u =
        (Inr (mk_verdict DENY rule reason, Some (denied_result a reason)), u)"
    and clock: "\<And>m n. e_mono E m - e_mono E n < 300000"
  shows "\<exists>(rule, reason) \<in> set ds. \<exists>w'. run E h d w = (Inr MAX_STEPS, w') \<and>
     added (task_id (h_ctx h)) w
       [(ACTION_PROPOSED, [(''tool'', JStr (tool_name a)), (''arguments'', JObj (arguments a))]),
        (GOVERNANCE_DECISION, decision_payload a (mk_verdict DENY rule reason)),
        (FEEDBACK, feedback_payload ''POLICY_DENIED'' (''POLICY_DENIED: '' @ reason)), term_event MAX_STEPS] w'"
proof -
  let ?i = "task_id (h_ctx h)"
  define ls where "ls = \<lparr>ls_c = \<lparr>step = 0, consecutive_failures = 0, invalid_actions = 0, no_progress_hits = 0\<rparr>,
     ls_feedback = [], ls_steps = [], ls_tracker = \<lparr>window = 3, recent = []\<rparr>\<rparr>"
  define w0 where "w0 = w\<lparr>w_ticks := Suc (w_ticks w)\<rparr>"
  define w1 where "w1 = w0\<lparr>w_ticks := Suc (w_ticks w0), w_polls := Suc (w_polls w0), w_llm := Suc (w_llm w0)\<rparr>"
  define w2 where "w2 = audit E h 0 ACTION_PROPOSED [(''tool'', JStr (tool_name a)), (''arguments'', JObj (arguments a))] w1"
  from disp [of w2] obtain rule reason where rr: "(rule, reason) \<in> set ds"
    "dispatch (h_dispatcher h) a (h_ctx h) w2 = (Inr (mk_verdict DENY rule reason, Some (denied_result a reason)), w2)" by blast
  define w3 where "w3 = audit E h 0 FEEDBACK (feedback_payload ''POLICY_DENIED'' (''POLICY_DENIED: '' @ reason))
     (audit E h 0 GOVERNANCE_DECISION (decision_payload a (mk_verdict DENY rule reason)) w2)"
  define t0 where "t0 = e_mono E (w_ticks w)"
  have act: "\<exists>ls1. action_turn E h a ls w1 = (Inr (Next ls1), w3) \<and> ls_c ls1 = failed_step (ls_c ls)"
    using rr(2) unfolding w2_def w3_def
    by (simp add: action_turn_def andThen_def governed_turn_def denied_turn_def format_feedback_def denied_result_def ls_def Let_def)
  have limits: "h_limits h = default_limits\<lparr>max_steps := 1, max_consecutive_failures := 5\<rparr>" by (rule h(3))
  have body: "turn_body E h d ls (w0\<lparr>w_ticks := Suc (w_ticks w0), w_polls := Suc (w_polls w0)\<rparr>) = action_turn E h a ls w1"
  proof -
    have "\<exists>msgs. build E h d ls u = (msgs, u)" for u
      by (simp add: build_def retrieve_memories_def h(1,2) Let_def)
    then obtain msgs where b: "build E h d ls (w0\<lparr>w_ticks := Suc (w_ticks w0), w_polls := Suc (w_polls w0)\<rparr>) =
        (msgs, w0\<lparr>w_ticks := Suc (w_ticks w0), w_polls := Suc (w_polls w0)\<rparr>)" by blast
    have c: "complete_with_retry h msgs (w0\<lparr>w_ticks := Suc (w_ticks w0), w_polls := Suc (w_polls w0)\<rparr>) = (Inr raw, w1)"
      using llm(1) by (simp add: complete_with_retry_def limits default_limits_def numeral_3_eq_3 call_llm_def w0_def w1_def)
    show ?thesis by (simp only: turn_body_def b c llm(2) Let_def prod.case sum.case)
  qed
  from act obtain ls1 where ls1: "action_turn E h a ls w1 = (Inr (Next ls1), w3)" "ls_c ls1 = failed_step (ls_c ls)" by blast
  have c0: "decide_termination (ls_c ls) (h_limits h) (e_mono E (w_ticks w0) - t0) = None"
    using clock [of "w_ticks w0" "w_ticks w"] by (simp add: decide_None limits default_limits_def ls_def t0_def)
  have turn1: "turn E h d t0 ls w0 = (Next ls1, w3)"
    using c0 body ls1(1) h(4,5) by (simp add: turn_def read_mono_def poll_cancel_def Let_def w0_def)
  let ?w4 = "w3\<lparr>w_ticks := Suc (w_ticks w3)\<rparr>"
  have c1: "decide_termination (ls_c ls1) (h_limits h) (e_mono E (w_ticks w3) - t0) = Some MAX_STEPS"
    using clock [of "w_ticks w3" "w_ticks w"] ls1(2) by (simp add: decide_termination_def limits default_limits_def ls_def t0_def failed_step_def)
  have turn2: "turn E h d t0 ls1 w3 = (Done MAX_STEPS, audit_term E h (ls_c ls1) MAX_STEPS ?w4)"
    using c1 by (simp add: turn_def read_mono_def stop_with_def)
  have "run E h d w = (Inr MAX_STEPS, audit_term E h (ls_c ls1) MAX_STEPS ?w4)"
    using turn1 turn2 by (simp add: run_def new_tracker_def limits default_limits_def read_mono_def ls_def w0_def t0_def
        loop.simps [of E h d "e_mono E (w_ticks w)" "\<lparr>ls_c = _, ls_feedback = _, ls_steps = _, ls_tracker = _\<rparr>"]
        loop.simps [of E h d "e_mono E (w_ticks w)" ls1])
  moreover have "added ?i w [(ACTION_PROPOSED, [(''tool'', JStr (tool_name a)), (''arguments'', JObj (arguments a))]),
        (GOVERNANCE_DECISION, decision_payload a (mk_verdict DENY rule reason)),
        (FEEDBACK, feedback_payload ''POLICY_DENIED'' (''POLICY_DENIED: '' @ reason)), term_event MAX_STEPS]
      (audit_term E h (ls_c ls1) MAX_STEPS ?w4)"
  proof -
    have "added ?i w [] w1" by (rule added_same) (simp_all add: w1_def w0_def)
    have "added ?i w ([] @ [(ACTION_PROPOSED, [(''tool'', JStr (tool_name a)), (''arguments'', JObj (arguments a))])] @
        [(GOVERNANCE_DECISION, decision_payload a (mk_verdict DENY rule reason))] @
        [(FEEDBACK, feedback_payload ''POLICY_DENIED'' (''POLICY_DENIED: '' @ reason))]) w3"
      unfolding w3_def w2_def append_assoc [symmetric] by (intro added_audit \<open>added ?i w [] w1\<close> refl)
    then have "added ?i w [(ACTION_PROPOSED, [(''tool'', JStr (tool_name a)), (''arguments'', JObj (arguments a))]),
        (GOVERNANCE_DECISION, decision_payload a (mk_verdict DENY rule reason)),
        (FEEDBACK, feedback_payload ''POLICY_DENIED'' (''POLICY_DENIED: '' @ reason))] ?w4"
      by (simp add: added_def)
    from added_audit [OF this refl, of TERMINATION "[(''reason'', JStr (reason_value MAX_STEPS))]" E "step (ls_c ls1)"]
    show ?thesis by (simp add: audit_term_def term_event_def)
  qed
  ultimately show ?thesis using rr(1) by blast
qed

text \<open>The payloads as the outcome reads them\<close>

definition printable :: "string \<Rightarrow> bool" where
  "printable s \<longleftrightarrow> list_all (\<lambda>c. 32 \<le> (of_char c :: nat) \<and> (of_char c :: nat) < 127 \<and> c \<noteq> DQ \<and> c \<noteq> BSL) s"

lemma esc_printable:
  assumes "32 \<le> (of_char c :: nat)" "(of_char c :: nat) < 127" "c \<noteq> DQ" "c \<noteq> BSL"
  shows "esc_cp (of_char c) = [c]"
proof -
  have "(of_char c :: nat) \<noteq> of_char DQ" "(of_char c :: nat) \<noteq> of_char BSL" using assms(3,4) by (simp_all only: of_char_eq_iff not_False_eq_True)
  then have "(of_char c :: nat) \<noteq> 34" "(of_char c :: nat) \<noteq> 92" by simp_all
  with assms(1,2) show ?thesis by (simp add: esc_cp_def)
qed

lemma concat_esc: "list_all (\<lambda>c. esc_cp (of_char c) = [c]) s \<Longrightarrow> concat (map esc_cp (map of_char s)) = s"
  by (induction s) simp_all

lemma jstr_printable:
  assumes "printable s"
  shows "jstr s = DQ # s @ [DQ]"
proof -
  have "list_all (\<lambda>c. esc_cp (of_char c) = [c]) s"
    using assms unfolding printable_def by (rule list.pred_mono_strong) (blast intro: esc_printable)
  moreover have "ascii s"
    using assms unfolding printable_def ascii_def by (rule list.pred_mono_strong) linarith
  ultimately show ?thesis by (simp only: jstr_def cps_ascii concat_esc)
qed

definition no_secret :: "args \<Rightarrow> bool" where
  "no_secret p \<longleftrightarrow> (let t = dumps True (JObj p) in CHR ''='' \<notin> set t \<and> \<not> str_in ''sk-'' t \<and> \<not> str_in ''AKIA'' t)"

lemma denial_canon:
  "canon (JObj (decision_payload rm_action (mk_verdict DENY rule reason))) =
      JObj [(''decision'', JStr ''DENY''), (''reason'', JStr reason), (''rule'', JStr rule), (''tool'', JStr ''run_command'')]"
  unfolding decision_payload_def rm_action_def mk_verdict_def action.select_convs verdict.select_convs decision_value.simps by code_simp

lemma feedback_canon:
  "canon (JObj (feedback_payload cat detail)) = JObj [(''category'', JStr cat), (''detail'', JStr detail)]"
  unfolding feedback_payload_def by code_simp

lemma denial_no_secret:
  "list_all (\<lambda>(rule, reason). no_secret (decision_payload rm_action (mk_verdict DENY rule reason)) \<and>
      no_secret (feedback_payload ''POLICY_DENIED'' (''POLICY_DENIED: '' @ reason))) denials"
  unfolding denials_def no_secret_def dumps_sorted_canon denial_canon feedback_canon Let_def
  by (simp add: jstr_printable printable_def startswith_def)

lemma denial_jwf:
  assumes "str_ok rule" and "str_ok reason"
  shows "jwf (JObj (decision_payload rm_action (mk_verdict DENY rule reason)))"
    "jwf (JObj (feedback_payload ''POLICY_DENIED'' reason))"
  using assms by (simp_all add: decision_payload_def feedback_payload_def rm_action_def mk_verdict_def str_ok_ascii)

lemma denial_payloads:
  assumes "(rule, reason) \<in> set denials"
  shows "decoded (JStr (redact (dumps True (JObj (decision_payload rm_action (mk_verdict DENY rule reason)))) None)) =
      [(''decision'', JStr ''DENY''), (''reason'', JStr reason), (''rule'', JStr rule), (''tool'', JStr ''run_command'')]"
    "decoded (JStr (redact (dumps True (JObj (feedback_payload ''POLICY_DENIED'' (''POLICY_DENIED: '' @ reason)))) None)) =
      [(''category'', JStr ''POLICY_DENIED''), (''detail'', JStr (''POLICY_DENIED: '' @ reason))]"
    "rule \<noteq> []"
proof -
  have str: "str_ok rule" "str_ok reason" "str_ok (''POLICY_DENIED: '' @ reason)" "rule \<noteq> []"
    using assms by (auto simp: denials_def str_ok_ascii)
  have ok: "no_secret (decision_payload rm_action (mk_verdict DENY rule reason))"
    "no_secret (feedback_payload ''POLICY_DENIED'' (''POLICY_DENIED: '' @ reason))"
    using denial_no_secret assms by (auto simp: list_all_iff)
  show "decoded (JStr (redact (dumps True (JObj (decision_payload rm_action (mk_verdict DENY rule reason)))) None)) =
      [(''decision'', JStr ''DENY''), (''reason'', JStr reason), (''rule'', JStr rule), (''tool'', JStr ''run_command'')]"
    using ok(1) denial_jwf(1) [OF str(1,2)] denial_canon unfolding no_secret_def Let_def by (intro decoded_payload) blast+
  show "decoded (JStr (redact (dumps True (JObj (feedback_payload ''POLICY_DENIED'' (''POLICY_DENIED: '' @ reason)))) None)) =
      [(''category'', JStr ''POLICY_DENIED''), (''detail'', JStr (''POLICY_DENIED: '' @ reason))]"
    using ok(2) denial_jwf(2) [OF str(1,3)] feedback_canon unfolding no_secret_def Let_def by (intro decoded_payload) blast+
  show "rule \<noteq> []" by (rule str(4))
qed

text \<open>What the conditions of the scenario look at\<close>

lemma denial_accepted:
  assumes rs: "map row_view rs = map event_view
       [(ACTION_PROPOSED, p1), (GOVERNANCE_DECISION, decision_payload rm_action (mk_verdict DENY rule reason)),
        (FEEDBACK, feedback_payload ''POLICY_DENIED'' (''POLICY_DENIED: '' @ reason)), term_event r]"
    and d: "(rule, reason) \<in> set denials"
  shows "(\<forall>(k, l, passed) \<in> set (rv_acceptance (run_view_of dangerous_action_denial st rs)). passed) \<and>
     map fst (rv_acceptance (run_view_of dangerous_action_denial st rs)) = [''denied'', ''no_exec'', ''rule_id'', ''feedback'']"
proof -
  obtain r1 r2 r3 r4 where r: "rs = [r1, r2, r3, r4]"
    using rs by (auto simp: Cons_eq_map_conv)
  have ty: "normalize_event_type (ev_type r1) = ''ACTION_PROPOSED''" "normalize_event_type (ev_type r2) = ''GOVERNANCE_DECISION''"
    "normalize_event_type (ev_type r3) = ''FEEDBACK''" "normalize_event_type (ev_type r4) = ''TERMINATION''"
    using rs by (simp_all add: r row_view_def event_view_def term_event_def)
  have pl: "decoded (JStr (ev_payload_json r2)) = [(''decision'', JStr ''DENY''), (''reason'', JStr reason), (''rule'', JStr rule), (''tool'', JStr ''run_command'')]"
    "decoded (JStr (ev_payload_json r3)) = [(''category'', JStr ''POLICY_DENIED''), (''detail'', JStr (''POLICY_DENIED: '' @ reason))]"
    using rs denial_payloads(1,2) [OF d] by (simp_all add: r row_view_def event_view_def term_event_def del: dumps.simps)
  define o1 where "o1 = build_run_outcome (sc_id dangerous_action_denial) st (normalize_events (map event_args rs))"
  have gov: "ro_governance_decisions o1 = [[(''decision'', JStr ''DENY''), (''reason'', JStr reason), (''rule'', JStr rule), (''tool'', JStr ''run_command'')]]"
    "ro_tool_executions o1 = 0"
    unfolding o1_def build_run_outcome_def fold_note_row by (simp_all add: r normalize_events_def ty pl typed_count_def)
  have fb: "event_of (JStr ''FEEDBACK'') [(''category'', JStr ''POLICY_DENIED''), (''detail'', JStr (''POLICY_DENIED: '' @ reason))] \<in> set (ro_events o1)"
    unfolding o1_def build_run_outcome_def fold_note_row by (simp add: r normalize_events_def ty pl)
  have "has_deny o1" "truthy (deny_rule_id o1)"
    using gov(1) denial_payloads(3) [OF d] by (simp_all add: has_deny_def deny_rule_id_def get_or_def)
  moreover have "JStr ''POLICY_DENIED'' \<in> set (feedback_categories o1)"
    using fb unfolding feedback_categories_def by (auto simp: event_of_def get_or_def intro!: rev_image_eqI)
  moreover have "rv_acceptance (run_view_of dangerous_action_denial st rs) = evaluate_scenario dangerous_action_denial o1"
    by (simp only: run_view_of_def o1_def Let_def run_view.select_convs)
  ultimately show ?thesis
    using gov(2) unfolding evaluate_scenario_def dangerous_action_denial_def demo_scenario.select_convs
    by (simp only: list.map prod.case sum.case fst_conv list.set ball_simps simp_thms)
qed


text \<open>The harness of the scenario, and what its run leaves\<close>

lemma denial_harness:
  fixes U :: demo_setup
  assumes "workspace_root c = ws_dir" and "ws_dir \<noteq> []" and "NUL \<notin> set ws_dir"
    and "config = scenario_config U dangerous_action_denial ws_dir"
    and "d = build_dispatcher config (build_registry (e_os (du_env U)) config)"
  shows "\<exists>(rule, reason) \<in> set denials.
     dispatch d rm_action c (w :: 's os_state_scheme) = (Inr (mk_verdict DENY rule reason, Some (denied_result rm_action reason)), w)"
proof -
  have "registry_get (registry d) ''run_command'' \<noteq> None"
    using assms(4,5) by (simp add: build_dispatcher_def build_registry_def all_tools_def scenario_config_def registry_get_def register_def
        write_file_tool_def read_file_tool_def list_files_tool_def search_text_tool_def finish_tool_def run_command_tool_def run_tests_tool_def)
  then obtain tool where "registry_get (registry d) ''run_command'' = Some tool" by blast
  moreover have "engine d = build_engine config" "governance config = default_governance"
    "sensitive_patterns (pc d) = sensitive_file_patterns default_governance"
    using assms(4,5) by (simp_all add: build_dispatcher_def build_path_config_def scenario_config_def default_config_def)
  moreover have "NUL \<notin> set (effective_root d c)" using assms(1,2,3) by (simp add: effective_root_def)
  ultimately show ?thesis by (rule rm_denied)
qed

lemma workspace_plain: "validate_workspace fs cwd ws_dir base = Inr () \<Longrightarrow> ws_dir \<noteq> [] \<and> NUL \<notin> set ws_dir"
  by (auto simp: validate_workspace_def os_realpath_def split: if_splits elim!: res_bind_InrE)

lemma create_task_with_fresh:
  assumes "validate_workspace (os_fs w) (os_cwd w) ws_dir base = Inr ()" and "e_uuid E (w_uuids w) \<notin> tk_id ` set (tasks (w_db w))"
  shows "\<exists>w1. w1 = w\<lparr>w_uuids := Suc (w_uuids w), w_ticks := Suc (w_ticks w), w_db := w_db w1\<rparr> \<and>
    task_insert (e_uuid E (w_uuids w)) (e_now E (w_ticks w)) ws_dir (workspace_hash (e_hash E) ws_dir) d (w_db w) =
       (Inr (e_uuid E (w_uuids w)), w_db w1) \<and>
    (\<forall>w2. go (e_uuid E (w_uuids w)) w1 = (Inr (), w2) \<longrightarrow>
       create_task_with E base go ws_dir d w = (Inr (e_uuid E (w_uuids w)), w2))"
proof -
  obtain db where ins: "task_insert (e_uuid E (w_uuids w)) (e_now E (w_ticks w)) ws_dir (workspace_hash (e_hash E) ws_dir) d (w_db w) =
      (Inr (e_uuid E (w_uuids w)), db)"
    using assms(2) by (simp add: task_insert_def)
  show ?thesis
    by (rule exI [of _ "w\<lparr>w_uuids := Suc (w_uuids w), w_ticks := Suc (w_ticks w), w_db := db\<rparr>"])
      (simp add: ins create_task_with_def assms(1) read_uuid_def read_now_def on_db_def andThen_def ret_def)
qed

text \<open>A log whose payloads are readable is projected without an error, to no step.\<close>

definition readable :: "args \<Rightarrow> bool" where
  "readable p \<longleftrightarrow> no_secret p \<and> jwf (JObj p)"

lemma readable_loads: "readable p \<Longrightarrow> \<exists>v. load_payload (redact (dumps True (JObj p)) None) = Inr v"
  using redact_plain [of "dumps True (JObj p)"] loads_dumps_sorted [of "JObj p"]
  by (simp add: readable_def no_secret_def load_payload_def Let_def del: dumps.simps)

lemma collect_readable:
  "map row_view rs = map event_view es \<Longrightarrow> \<forall>(et, p) \<in> set es. readable p \<Longrightarrow> collect_steps rs m = Inr m"
proof (induction rs arbitrary: es)
  case (Cons r rs)
  then obtain et p es1 where es: "es = (et, p) # es1" "row_view r = event_view (et, p)" "map row_view rs = map event_view es1"
    by (cases es) auto
  then obtain v where v: "load_payload (ev_payload_json r) = Inr v"
    using readable_loads [of p] Cons.prems(2) by (auto simp: row_view_def event_view_def)
  have ty: "ev_type r = event_str et" using es(2) by (simp add: row_view_def event_view_def)
  have "note_event r v m = m" by (simp only: note_event_def Let_def ty event_str_not_value if_False)
  with v Cons.IH [OF es(3)] Cons.prems(2) es(1) show ?case by simp
qed simp

lemma project_readable:
  assumes "added i w0 es w" and "ids_ok (w_db w0)" and "task_events i (w_db w0) = []" and "\<forall>(et, p) \<in> set es. readable p"
  shows "project_steps E i w = (Inr 0, w)"
proof -
  from assms(1,2,3) obtain rs where "task_events i (w_db w) = rs" "map row_view rs = map event_view es"
    by (auto simp: added_def)
  then show ?thesis using collect_readable [OF _ assms(4)] by (simp add: project_steps_def ret_def)
qed

definition denial_events :: "string \<Rightarrow> string \<Rightarrow> (event_type \<times> args) list" where
  "denial_events rule reason =
     [(ACTION_PROPOSED, [(''tool'', JStr (tool_name rm_action)), (''arguments'', JObj (arguments rm_action))]),
      (GOVERNANCE_DECISION, decision_payload rm_action (mk_verdict DENY rule reason)),
      (FEEDBACK, feedback_payload ''POLICY_DENIED'' (''POLICY_DENIED: '' @ reason)), term_event MAX_STEPS]"

lemma proposal_canon:
  "canon (JObj [(''tool'', JStr ''run_command''), (''arguments'', JObj [(''command'', JStr ''rm -rf /'')])]) =
     JObj [(''arguments'', JObj [(''command'', JStr ''rm -rf /'')]), (''tool'', JStr ''run_command'')]"
  by code_simp

lemma proposal_readable: "readable [(''tool'', JStr (tool_name rm_action)), (''arguments'', JObj (arguments rm_action))]"
  unfolding rm_action_def action.select_convs readable_def no_secret_def dumps_sorted_canon proposal_canon Let_def
  by (simp add: jstr_printable printable_def startswith_def str_ok_ascii)

lemma termination_readable: "readable [(''reason'', JStr (reason_value MAX_STEPS))]"
  unfolding readable_def no_secret_def Let_def
  by (simp add: jstr_printable printable_def startswith_def str_ok_ascii)

lemma denial_readable:
  assumes "(rule, reason) \<in> set denials"
  shows "\<forall>(et, p) \<in> set (denial_events rule reason). readable p"
proof -
  have str: "str_ok rule" "str_ok reason" "str_ok (''POLICY_DENIED: '' @ reason)"
    using assms by (auto simp: denials_def str_ok_ascii)
  have "no_secret (decision_payload rm_action (mk_verdict DENY rule reason))"
    "no_secret (feedback_payload ''POLICY_DENIED'' (''POLICY_DENIED: '' @ reason))"
    using denial_no_secret assms by (auto simp: list_all_iff)
  with denial_jwf(1) [OF str(1,2)] denial_jwf(2) [OF str(1,3)] proposal_readable termination_readable show ?thesis
    by (simp add: denial_events_def term_event_def readable_def)
qed

lemma denial_harness_run:
  assumes h: "config = scenario_config U dangerous_action_denial ws_dir"
    "h = bare_harness U config (mock_llm (w_llm w) (sc_mock_script dangerous_action_denial)) rid ws_dir verifier resolver (Some f)"
    and ws: "ws_dir \<noteq> [] \<and> NUL \<notin> set ws_dir"
    and db: "ids_ok (w_db w)" "task_events rid (w_db w) = []"
    and env: "\<And>n. \<not> f n" "\<And>m n. e_mono (du_env U) m - e_mono (du_env U) n < 300000"
  shows "\<exists>(rule, reason) \<in> set denials. \<exists>w3 now. added rid w (denial_events rule reason) w3 \<and>
     run_harness (du_env U) h rid d w = (Inr (), w3\<lparr>w_ticks := Suc (w_ticks w3),
       w_db := task_update_state now rid (termination_to_state MAX_STEPS) (Some (reason_value MAX_STEPS)) (Some 0) (w_db w3)\<rparr>)"
proof -
  have hs: "h_prompt h = None" "h_project h = None" "h_limits h = default_limits\<lparr>max_steps := 1, max_consecutive_failures := 5\<rparr>"
    "h_cancel h = Some f" "task_id (h_ctx h) = rid"
    by (simp_all add: h bare_harness_def scenario_config_def)
  have llm: "h_llm h (w_llm w) msgs = Inr (tool_call ''run_command'' [(''command'', JStr ''rm -rf /'')])" for msgs
    by (simp add: h(2) bare_harness_def mock_llm_def)
  have disp: "\<exists>(rule, reason) \<in> set denials. dispatch (h_dispatcher h) rm_action (h_ctx h) u =
      (Inr (mk_verdict DENY rule reason, Some (denied_result rm_action reason)), u)" for u
    using ws by (intro denial_harness [where ws_dir = ws_dir and config = config and U = U]) (simp_all add: h bare_harness_def)
  from denied_run [where ds = denials, OF hs(1,2,3,4) env(1) llm parse_rm disp env(2), of d]
  obtain rule reason w3 where dn: "(rule, reason) \<in> set denials" and rn: "run (du_env U) h d w = (Inr MAX_STEPS, w3)"
    and ad: "added rid w (denial_events rule reason) w3"
    unfolding hs(5) denial_events_def by blast
  have "project_steps (du_env U) rid w3 = (Inr 0, w3)" by (rule project_readable [OF ad db denial_readable [OF dn]])
  then have "\<exists>now. run_harness (du_env U) h rid d w = (Inr (), w3\<lparr>w_ticks := Suc (w_ticks w3),
       w_db := task_update_state now rid (termination_to_state MAX_STEPS) (Some (reason_value MAX_STEPS)) (Some 0) (w_db w3)\<rparr>)"
    by (auto simp: run_harness_def rn finish_task_def andThen_def read_now_def)
  with dn ad show ?thesis by blast
qed

text \<open>A manager with an empty base\<close>

definition demo_U :: "bool \<Rightarrow> demo_setup" where
  "demo_U b = \<lparr>du_env = demo_env\<lparr>e_mono := \<lambda>n. 0\<rparr>, du_base = ''/ws'', du_sync = b, du_decide = None, du_cancelled = \<lambda>i n. False,
     du_names = \<lambda>n. ''x'', du_python = ''python''\<rparr>"

definition demo_manager :: manager_state where
  "demo_manager = \<lparr>ds_world = demo_world, ds_scenarios = [], ds_meta = [], ds_llms = [], ds_names = 0\<rparr>"

definition demo_made :: manager_state where
  "demo_made = demo_manager\<lparr>ds_world := demo_world\<lparr>os_fs := [([''ws'', ''aegis_demorun_x''], Dir), ([''ws''], Dir)]\<rparr>, ds_names := 1\<rparr>"

lemma demo_mkdtemp: "mkdtemp TMP_MAX (demo_U b) (sweep_orphaned_runs demo_manager) = (Inr ''/ws/aegis_demorun_x'', demo_made)"
proof -
  have swept: "sweep_orphaned_runs demo_manager = demo_manager" by (simp add: sweep_orphaned_runs_def demo_manager_def)
  have tries: "TMP_MAX = Suc 9999" by (simp add: TMP_MAX_def)
  have made_first: "mkdtemp (Suc n) (demo_U b) demo_manager = (Inr ''/ws/aegis_demorun_x'', demo_made)" for n
  proof -
    have made: "path_join ''/ws'' ''aegis_demorun_x'' = ''/ws/aegis_demorun_x''" "abspath [''ws''] ''/ws/aegis_demorun_x'' = ''/ws/aegis_demorun_x''"
      "resolve_create [([''ws''], Dir)] [''ws''] (rstrip_chars ''/'' ''/ws/aegis_demorun_x'') = Some [''ws'', ''aegis_demorun_x'']"
      by code_simp+
    have "mkdir E ''/ws/aegis_demorun_x'' demo_world = (Inr (), demo_world\<lparr>os_fs := [([''ws'', ''aegis_demorun_x''], Dir), ([''ws''], Dir)]\<rparr>)" for E
    proof -
      have "lstat [([''ws''], Dir)] [''ws'', ''aegis_demorun_x''] = None" "NUL \<notin> set ''/ws/aegis_demorun_x''"
        "\<not> islink [([''ws''], Dir)] [''ws''] (rstrip_chars ''/'' ''/ws/aegis_demorun_x'')" by code_simp+
      then show ?thesis using made by (simp add: mkdir_def demo_sels)
    qed
    then show ?thesis using made
      by (simp add: demo_U_def demo_manager_def demo_made_def demo_sels Let_def)
  qed
  show ?thesis unfolding swept tries by (rule made_first)
qed

lemma demo_workspace:
  "validate_workspace (os_fs (ds_world demo_made)) (os_cwd (ds_world demo_made)) ''/ws/aegis_demorun_x'' (du_base (demo_U b)) = Inr ()"
proof -
  have "names_ok [''ws'']" "NUL \<notin> set ''/ws''" by (simp_all add: names_ok_def name_ok_def)
  moreover have "realpath_segs [([''ws'', ''aegis_demorun_x''], Dir), ([''ws''], Dir)] [''ws''] ''/ws'' = [''ws'']"
    "realpath_segs [([''ws'', ''aegis_demorun_x''], Dir), ([''ws''], Dir)] [''ws''] ''/ws/aegis_demorun_x'' = [''ws'', ''aegis_demorun_x'']"
    by code_simp+
  ultimately show ?thesis
    by (simp add: demo_made_def demo_manager_def demo_U_def demo_sels validate_workspace_exact)
qed

lemma launch_run_Inr:
  assumes "create_task_with (du_env U) (du_base U) (run_demo U s ws_dir sid) ws_dir sid (ds_world s) = (Inr i, w)"
  shows "launch_run U sid ws_dir s = (Inr i, s\<lparr>ds_world := w, ds_meta := dset i (sid, ws_dir) (ds_meta s)\<rparr>)"
  using assms by (simp add: launch_run_def andThen_def on_world_def)

lemma demo_started: "\<exists>i s'. start_run (demo_U False) ''dangerous-action-denial'' demo_manager = (Inr i, s')"
proof -
  let ?U = "demo_U False" and ?sid = "''dangerous-action-denial''"
  let ?go = "run_demo ?U (register_run ?sid dangerous_action_denial ''/ws/aegis_demorun_x'' demo_made) ''/ws/aegis_demorun_x'' ?sid"
  have uid: "e_uuid (du_env ?U) (w_uuids (ds_world demo_made)) \<notin> tk_id ` set (tasks (w_db (ds_world demo_made)))"
    by (simp add: demo_made_def demo_sels) (simp add: empty_db_def)
  have "?go i w = (Inr (), w)" for i w by (simp add: run_demo_def demo_U_def)
  with create_task_with_fresh [OF demo_workspace [of False] uid, where go = ?go and d = ?sid]
  obtain i w where "create_task_with (du_env ?U) (du_base ?U) ?go ''/ws/aegis_demorun_x'' ?sid (ds_world demo_made) = (Inr i, w)" by blast
  from launch_run_Inr [OF this [folded register_frame(3) [of ?sid dangerous_action_denial "''/ws/aegis_demorun_x''" demo_made]]]
  obtain s' where launched: "launch_run ?U ?sid ''/ws/aegis_demorun_x'' (register_run ?sid dangerous_action_denial ''/ws/aegis_demorun_x'' demo_made) = (Inr i, s')"
    by (rule that)
  have known: "get_scenario ?sid = Inr dangerous_action_denial" by (simp add: get_scenario_def REGISTRY_eq)
  have filled: "on_world (materialize_fixture (e_os (du_env ?U)) (sc_fixture dangerous_action_denial) ''/ws/aegis_demorun_x'') demo_made = (Inr (), demo_made)"
    by (simp add: on_world_def materialize_fixture_def ret_def)
  have "start_run ?U ?sid demo_manager = (Inr i, s')"
    by (simp only: start_run_def known andThen_def demo_mkdtemp filled launched sum.case prod.case)
  then show ?thesis by blast
qed

text \<open>
  C34: The scenario of the dangerous command passes from end to end: once the manager has made a
  workspace and the service has accepted it, the start answers with the new run, and asking for that
  run shows an ended task for which all four conditions hold (the command was denied, nothing was
  executed, the denial names its rule, the model was told), while no process was started.
\<close>

theorem denial_scenario_passes:
  assumes "mkdtemp TMP_MAX U (sweep_orphaned_runs s) = (Inr ws_dir, s1)"
    and "validate_workspace (os_fs (ds_world s1)) (os_cwd (ds_world s1)) ws_dir (du_base U) = Inr ()"
    and "rid = e_uuid (du_env U) (w_uuids (ds_world s1))" and "rid \<notin> tk_id ` set (tasks (w_db (ds_world s)))"
    and "\<forall>r \<in> set (audit_events (w_db (ds_world s))). ev_task_id r \<noteq> rid" and "ids_ok (w_db (ds_world s))"
    and "du_sync U" and "\<And>n. \<not> du_cancelled U rid n" and "\<And>m n. e_mono (du_env U) m - e_mono (du_env U) n < 300000"
  shows "\<exists>s' v. start_run U ''dangerous-action-denial'' s = (Inr rid, s') \<and>
     fst (get_run rid s') = Inr v \<and> rv_done v \<and> rv_state v = ''FAILED'' \<and>
     map fst (rv_acceptance v) = [''denied'', ''no_exec'', ''rule_id'', ''feedback''] \<and>
     (\<forall>(k, l, passed) \<in> set (rv_acceptance v). passed) \<and>
     os_procs (ds_world s') = os_procs (ds_world s)"
proof -
  let ?E = "du_env U" and ?sid = "''dangerous-action-denial''"
  let ?s2 = "register_run ?sid dangerous_action_denial ws_dir s1"
  note m = mkdtemp_effect [OF assms(1)]
  have sc: "get_scenario ?sid = Inr dangerous_action_denial" by (simp add: get_scenario_def REGISTRY_eq)
  have db: "w_db (ds_world s1) = w_db (ds_world s)" "os_procs (ds_world s1) = os_procs (ds_world s)" using m by simp_all
  have uid: "e_uuid ?E (w_uuids (ds_world s1)) \<notin> tk_id ` set (tasks (w_db (ds_world s1)))" using assms(3,4) db by simp
  obtain w1 where
    c: "w1 = (ds_world s1)\<lparr>w_uuids := Suc (w_uuids (ds_world s1)), w_ticks := Suc (w_ticks (ds_world s1)), w_db := w_db w1\<rparr>"
    "task_insert rid (e_now ?E (w_ticks (ds_world s1))) ws_dir (workspace_hash (e_hash ?E) ws_dir) ?sid (w_db (ds_world s1)) = (Inr rid, w_db w1)"
    "\<And>w2. run_demo U ?s2 ws_dir ?sid rid w1 = (Inr (), w2) \<Longrightarrow>
       create_task_with ?E (du_base U) (run_demo U ?s2 ws_dir ?sid) ws_dir ?sid (ds_world s1) = (Inr rid, w2)"
    using create_task_with_fresh [OF assms(2) uid, where d = ?sid and go = "run_demo U ?s2 ws_dir ?sid", folded assms(3)] by blast
  define h where "h = bare_harness U (scenario_config U dangerous_action_denial ws_dir)
     (mock_llm (w_llm w1) (sc_mock_script dangerous_action_denial)) rid ws_dir
     (scenario_verifier U dangerous_action_denial (scenario_config U dangerous_action_denial ws_dir) ws_dir)
     (Some (sync_resolver (manager_service U) rid)) (Some (du_cancelled U rid))"
  have "w_llm w1 = w_llm (ds_world s1)" by (subst c(1)) simp
  then have dh: "demo_harness U ?s2 rid ws_dir (Some (sync_resolver (manager_service U) rid)) (Some (du_cancelled U rid)) = Inr h"
    using sc by (simp add: demo_harness_def register_run_def h_def update_conv' Let_def)
  have ids: "ids_ok (w_db w1)" using assms(6) task_insert_frame [OF c(2)] by (simp add: db ids_ok_def)
  have fresh: "task_events rid (w_db w1) = []"
    using assms(5) task_insert_frame(1) [OF c(2)] by (simp add: db task_events_def filter_empty_conv)
  from denial_harness_run [OF refl h_def workspace_plain [OF assms(2)] ids fresh assms(8,9), of ?sid]
  obtain rule reason w3 now w where dn: "(rule, reason) \<in> set denials" and ad: "added rid w1 (denial_events rule reason) w3"
    and w: "run_harness ?E h rid ?sid w1 = (Inr (), w)"
    "w = w3\<lparr>w_ticks := Suc (w_ticks w3), w_db := task_update_state now rid (termination_to_state MAX_STEPS) (Some (reason_value MAX_STEPS)) (Some 0) (w_db w3)\<rparr>"
    by blast
  define s' where "s' = ?s2\<lparr>ds_world := w, ds_meta := dset rid (?sid, ws_dir) (ds_meta s1)\<rparr>"
  have "run_demo U ?s2 ws_dir ?sid rid w1 = (Inr (), w)" using assms(7) dh w(1) by (simp add: run_demo_def)
  then have start: "start_run U ?sid s = (Inr rid, s')"
    using c(3) [of w] sc assms(1)
    by (simp add: start_run_def launch_run_def andThen_def on_world_def materialize_fixture_def ret_def s'_def register_run_def)
  from ad ids fresh obtain rs where rs: "task_events rid (w_db w3) = rs" "\<forall>r \<in> set rs. 0 < ev_id r"
    "map row_view rs = map event_view (denial_events rule reason)"
    unfolding added_def by auto
  have ev: "get_events rid 0 (ds_world s') = rs"
    using rs(1,2) by (simp add: s'_def w(2) get_events_def list_since_def task_events_def filter_id_conv)
  from ad have "tasks (w_db w3) = tasks (w_db w1)" by (simp add: added_def)
  from task_get_cong [OF this, of rid] task_insert_get(2) [OF c(2)]
  obtain row where "get_task rid (ds_world s') = Inr row" "tk_state row = ''FAILED''"
    by (simp add: s'_def w(2) get_task_def task_get_update set_task_state_def termination_to_state_def)
  then have "fst (get_run rid s') = Inr (run_view_of dangerous_action_denial ''FAILED'' rs)"
    using ev sc by (simp add: get_run_def s'_def update_conv' Let_def)
  moreover have "rv_done (run_view_of dangerous_action_denial ''FAILED'' rs)" "rv_state (run_view_of dangerous_action_denial ''FAILED'' rs) = ''FAILED''"
    by (simp_all add: run_view_of_def TERMINAL_STATES_def Let_def)
  moreover have "os_procs (ds_world s') = os_procs (ds_world s)"
  proof -
    have "os_procs w = os_procs w1" using ad by (simp add: w(2) added_def)
    also have "\<dots> = os_procs (ds_world s1)" by (subst c(1)) simp
    finally show ?thesis using db(2) by (simp add: s'_def)
  qed
  ultimately show ?thesis using start denial_accepted [OF rs(3) [unfolded denial_events_def] dn] by blast
qed


theorem denial_scenario_passes_witness:
  "\<exists>s' v. start_run (demo_U True) ''dangerous-action-denial'' demo_manager = (Inr ''id'', s') \<and> fst (get_run ''id'' s') = Inr v \<and> rv_done v \<and>
     (\<forall>(k, l, passed) \<in> set (rv_acceptance v). passed)"
proof -
  have db: "w_db (ds_world demo_manager) = empty_db" by (simp add: demo_manager_def demo_sels)
  have 1: "''id'' = e_uuid (du_env (demo_U True)) (w_uuids (ds_world demo_made))" by (simp add: demo_U_def demo_env_def)
  have 2: "''id'' \<notin> tk_id ` set (tasks (w_db (ds_world demo_manager)))"
    "\<forall>r \<in> set (audit_events (w_db (ds_world demo_manager))). ev_task_id r \<noteq> ''id''" "ids_ok (w_db (ds_world demo_manager))"
    unfolding db by (simp_all add: ids_ok_def empty_db_def)
  have 3: "du_sync (demo_U True)" "\<not> du_cancelled (demo_U True) ''id'' n"
    "e_mono (du_env (demo_U True)) m - e_mono (du_env (demo_U True)) n < 300000" for m n
    by (simp_all add: demo_U_def demo_env_def)
  from denial_scenario_passes [OF demo_mkdtemp demo_workspace 1 2 3] show ?thesis by (elim exE conjE) (intro exI conjI)
qed

theorem start_run_whitelisted_witness:
  "\<exists>i s' row. start_run (demo_U False) ''dangerous-action-denial'' demo_manager = (Inr i, s') \<and>
     map_of (ds_meta s') i = Some (''dangerous-action-denial'', ''/ws/aegis_demorun_x'') \<and>
     get_task i (ds_world s') = Inr row \<and> tk_workspace_path row = ''/ws/aegis_demorun_x'' \<and>
   start_run (demo_U False) ''shell'' demo_manager = (Inl (unknown_scenario ''shell''), demo_manager)"
proof -
  have "get_scenario ''shell'' = Inl (unknown_scenario ''shell'')" by (simp add: get_scenario_def REGISTRY_eq)
  then have shell: "start_run (demo_U False) ''shell'' demo_manager = (Inl (unknown_scenario ''shell''), demo_manager)" by (simp add: start_run_def)
  obtain i s' where st: "start_run (demo_U False) ''dangerous-action-denial'' demo_manager = (Inr i, s')" using demo_started by blast
  have "abspath (os_cwd (ds_world demo_manager)) (path_join (du_base (demo_U False)) (''aegis_demorun_'' @ du_names (demo_U False) k)) = ''/ws/aegis_demorun_x''" for k
    unfolding demo_manager_def demo_U_def manager_state.select_convs demo_setup.select_convs demo_sels by code_simp
  with start_run_whitelisted [OF st] obtain row where "map_of (ds_meta s') i = Some (''dangerous-action-denial'', ''/ws/aegis_demorun_x'')"
    "get_task i (ds_world s') = Inr row" "tk_workspace_path row = ''/ws/aegis_demorun_x''"
    by (auto simp: Let_def)
  with st shell show ?thesis by blast
qed

end
