(* ===== verification/Cli.thy ===== *)
theory Cli
  imports Demo_Run Async_Run
begin

text \<open>
  The command line (src/aegiscode/cli.py) and the assembly of the service (service/assembly.py).
  The parser of arguments, the YAML parser, the validation of pydantic, the prompt for a key, the
  network clients, the web server and the demonstration modules are arguments.  What is printed is
  a list of lines for each stream.
\<close>

section \<open>State and arguments\<close>

text \<open>
  \<open>ce_parse\<close> splits the words of a command line into the subcommand and its arguments by name, a flag
  with any text; \<open>Inl\<close> is an exit code of \<open>argparse\<close>.
\<close>

datatype command =
    Init "string option" bool                           \<comment> \<open>path, force\<close>
  | Run string string bool "string option"               \<comment> \<open>workspace, task, watch, config\<close>
  | Serve string int "string option"                     \<comment> \<open>host, port, config\<close>
  | Config string
  | Key string
  | DemoCmd

datatype serve_app = Panel service | DemoPanel demo_setup manager_state

record 's cli_state =
  cl_world :: world
  cl_keys :: 's
  cl_out :: "string list"
  cl_err :: "string list"

record 's cli_env =
  ce_env :: Harness.env
  ce_environ :: "(string \<times> string) list"
  ce_home :: string
  ce_backend :: "backend_choice \<Rightarrow> 's backend"
  ce_keyring :: bool                                     \<comment> \<open>the keyring of the system works\<close>
  ce_yaml :: "string \<Rightarrow> string + json"
  ce_validate :: "json \<Rightarrow> string + aegis_config"
  ce_typed_key :: string                                 \<comment> \<open>what \<open>getpass\<close> returns\<close>
  ce_model :: "client \<Rightarrow> nat \<Rightarrow> message list \<Rightarrow> string res"
  ce_names :: "nat \<Rightarrow> string"
  ce_python :: string
  ce_demos :: "string + (string \<Rightarrow> (world, json) eff)"    \<comment> \<open>\<open>Inl\<close>: the package is missing\<close>
  ce_show :: "json \<Rightarrow> string"
  ce_parse :: "string list \<Rightarrow> int + string \<times> (string \<times> string) list"
  ce_uvicorn :: "serve_app \<Rightarrow> string \<Rightarrow> int \<Rightarrow> unit res"

definition say :: "string \<Rightarrow> 's cli_state \<Rightarrow> 's cli_state" where
  "say l st = st\<lparr>cl_out := cl_out st @ [l]\<rparr>"

definition say_err :: "string \<Rightarrow> 's cli_state \<Rightarrow> 's cli_state" where
  "say_err l st = st\<lparr>cl_err := cl_err st @ [l]\<rparr>"

definition in_world :: "(world, 'a) eff \<Rightarrow> ('s cli_state, 'a) eff" where
  "in_world f st = (case f (cl_world st) of (r, w) \<Rightarrow> (r, st\<lparr>cl_world := w\<rparr>))"

section \<open>Files and configurations\<close>

text \<open>\<open>str(Path(p))\<close>, and a text file read as UTF-8\<close>

definition pure_path :: "string \<Rightarrow> string" where
  "pure_path p =
     (let r = (if startswith p ''//'' \<and> \<not> startswith p ''///'' then ''//'' else if startswith p ''/'' then ''/'' else []) @
        join ''/'' (filter (\<lambda>c. c \<noteq> [] \<and> c \<noteq> ''.'') (split_on CHR ''/'' p))
      in if r = [] then ''.'' else r)"

definition read_text :: "os_env \<Rightarrow> string \<Rightarrow> (world, string) eff" where
  "read_text E path =
     andThen (read_bytes E path) (\<lambda>b.
       if decode_replace b = b then ret b else raise (exc ''UnicodeDecodeError'' ''invalid UTF-8''))"

definition DEFAULT_CONFIG_NAME :: string where
  "DEFAULT_CONFIG_NAME = ''aegis.yaml''"

definition INIT_TEMPLATE :: string where
  "INIT_TEMPLATE = concat (map (\<lambda>l. l @ [NL])
     [''# AegisCode configuration. All keys are optional '' @ utf8 8212 @ '' omitted values use secure'',
      ''# defaults baked into the code (governance rules, allowlists, limits).'',
      [],
      ''llm:'',
      ''  provider: openai      # openai | anthropic | mock'',
      ''  model: gpt-4o'',
      [],
      ''limits:'',
      ''  max_steps: 25'',
      ''  command_timeout_sec: 30'',
      [],
      ''workspace:'',
      ''  root: /workspace'',
      [],
      ''feedback:'',
      ''  test_command: pytest -q''])"

definition load_file :: "'s cli_env \<Rightarrow> string \<Rightarrow> (world, aegis_config) eff" where
  "load_file C path =
     andThen (read_text (e_os (ce_env C)) path) (\<lambda>t.
       lift_res (load_config (ce_yaml C) (ce_validate C) t (map_of (ce_environ C))))"

definition cli_config :: "'s cli_env \<Rightarrow> string option \<Rightarrow> (world, aegis_config) eff" where
  "cli_config C path w =
     (if path \<noteq> None \<and> path \<noteq> Some [] then load_file C (the path) w
      else (let default = path_str (abs_str (os_cwd w)) DEFAULT_CONFIG_NAME
            in if exists_py w default then load_file C default w
               else (load_defaults (ce_validate C) (map_of (ce_environ C)), w)))"

text \<open>\<open>Path.mkdir(parents=True, exist_ok=True)\<close>\<close>

definition data_dir :: "'s cli_env \<Rightarrow> (world, string) eff" where
  "data_dir C =
     (let base = (case map_of (ce_environ C) ''AEGIS_HOME'' of
                    Some (c # h) \<Rightarrow> pure_path (c # h)
                  | _ \<Rightarrow> path_str (ce_home C) ''.aegiscode'')
      in andThen (makedirs (Suc (length base)) (e_os (ce_env C)) base) (\<lambda>_. ret base))"

definition credential_store :: "'s cli_env \<Rightarrow> 's backend \<times> layers" where
  "credential_store C =
     (case build_credential_store (ce_environ C) (ce_keyring C) (ce_home C) of (choice, L) \<Rightarrow> (ce_backend C choice, L))"

text \<open>The errors that the commands report\<close>

definition config_error :: "exn \<Rightarrow> bool" where
  "config_error e \<longleftrightarrow> exn_class e = ''ConfigError'' \<or> is_os_error e"

definition with_config :: "'s cli_env \<Rightarrow> (world, aegis_config) eff \<Rightarrow> (aegis_config \<Rightarrow> ('s cli_state, int) eff) \<Rightarrow> ('s cli_state, int) eff" where
  "with_config C load k st =
     (case in_world load st of
        (Inr cfg, st1) \<Rightarrow> k cfg st1
      | (Inl e, st1) \<Rightarrow> if config_error e then (Inr 2, say_err (''config error: '' @ exn_msg e) st1) else (Inl e, st1))"

section \<open>The assembly of a service\<close>

definition client_model :: "'s cli_env \<Rightarrow> nat \<Rightarrow> client \<Rightarrow> nat \<Rightarrow> message list \<Rightarrow> string res" where
  "client_model C base c = (case c of MockClient script \<Rightarrow> mock_llm base script | _ \<Rightarrow> ce_model C c)"

definition build_service :: "'s cli_env \<Rightarrow> aegis_config \<Rightarrow> (string \<Rightarrow> bool res) option \<Rightarrow> 's cli_state \<Rightarrow> service res" where
  "build_service C cfg decision_fn st =
     (case credential_store C of (b, L) \<Rightarrow>
        res_bind (build_llm (llm cfg) (get_key b L (cl_keys st))) (\<lambda>c.
          Inr \<lparr>s_env = ce_env C, s_config = cfg, s_model = client_model C (w_llm (cl_world st)) c, s_decide = decision_fn,
               s_cancelled = \<lambda>_ _. False\<rparr>))"

section \<open>The commands\<close>

definition init_target :: "string option \<Rightarrow> world \<Rightarrow> string" where
  "init_target path w = (case path of Some (c # p) \<Rightarrow> pure_path (c # p) | _ \<Rightarrow> path_str (abs_str (os_cwd w)) DEFAULT_CONFIG_NAME)"

definition cmd_init :: "'s cli_env \<Rightarrow> string option \<Rightarrow> bool \<Rightarrow> ('s cli_state, int) eff" where
  "cmd_init C path force st =
     (let target = init_target path (cl_world st)
      in if exists_py (cl_world st) target \<and> \<not> force
         then (Inr 1, say_err (''refusing to overwrite existing '' @ target @ '' (use --force)'') st)
         else andThen (in_world (write_text (e_os (ce_env C)) target INIT_TEMPLATE)) (\<lambda>_.
              andThen (in_world (load_file C target)) (\<lambda>_ st1. (Inr 0, say (''wrote '' @ target) st1))) st)"

definition cmd_config :: "'s cli_env \<Rightarrow> string \<Rightarrow> ('s cli_state, int) eff" where
  "cmd_config C path =
     with_config C (load_file C path) (\<lambda>cfg st.
       (Inr 0, fold say
          [''config OK'', ''  provider: '' @ llm_provider (llm cfg), ''  model: '' @ llm_model (llm cfg),
           ''  max_steps: '' @ str_of_int (max_steps (limits_of cfg)), ''  workspace.root: '' @ ws_root (workspace cfg),
           ''  tools.enabled: '' @ join '', '' (enabled (tools cfg))] st))"

definition cmd_key :: "'s cli_env \<Rightarrow> string \<Rightarrow> ('s cli_state, int) eff" where
  "cmd_key C key_action st =
     (case credential_store C of (b, L) \<Rightarrow>
        if key_action = ''set''
        then (if ce_typed_key C = [] then (Inr 1, say_err ''no key entered; nothing stored'' st)
              else (case set_key b (ce_typed_key C) (cl_keys st) of
                      (Inl e, ks) \<Rightarrow> (Inl e, st\<lparr>cl_keys := ks\<rparr>)
                    | (Inr _, ks) \<Rightarrow> (Inr 0, say ''API key stored'' (st\<lparr>cl_keys := ks\<rparr>))))
        else if key_action = ''status''
        then (case key_status b L (cl_keys st) of
                Inl e \<Rightarrow> (Inl e, st)
              | Inr (Some m) \<Rightarrow> (Inr 0, say (''configured: true  (masked: '' @ m @ '')'') st)
              | Inr None \<Rightarrow> (Inr 0, say ''configured: false  (not configured)'' st))
        else if key_action = ''clear''
        then (Inr 0, say ''API key cleared'' (st\<lparr>cl_keys := clear_key b (cl_keys st)\<rparr>))
        else (Inr 2, say_err (''unknown key action: '' @ key_action) st))"

definition watch_task :: "string \<Rightarrow> ('s cli_state, unit) eff" where
  "watch_task i st =
     (let st1 = fold (\<lambda>r. say (''  [step '' @ str_of_int (ev_step_index r) @ ''] '' @ ev_type r)) (get_events i 0 (cl_world st)) st
      in case get_task i (cl_world st1) of
           Inl e \<Rightarrow> (Inl e, st1)
         | Inr row \<Rightarrow> (Inr (), say (''state: '' @ tk_state row) st1))"

definition run_base :: "aegis_config \<Rightarrow> string \<Rightarrow> aegis_config" where
  "run_base cfg ws_dir =
     (if allowed_base (workspace cfg) = None then cfg\<lparr>workspace := (workspace cfg)\<lparr>allowed_base := Some ws_dir\<rparr>\<rparr> else cfg)"

definition cmd_run :: "'s cli_env \<Rightarrow> string \<Rightarrow> string \<Rightarrow> bool \<Rightarrow> string option \<Rightarrow> ('s cli_state, int) eff" where
  "cmd_run C ws_dir task watch path =
     with_config C (cli_config C path) (\<lambda>cfg.
       andThen (in_world (data_dir C)) (\<lambda>_ st.
         case build_service C (run_base cfg ws_dir) None st of
           Inl e \<Rightarrow> if exn_class e = ''NoKeyError'' then (Inr 1, say_err (''cannot run: '' @ exn_msg e) st) else (Inl e, st)
         | Inr S \<Rightarrow>
             andThen (in_world (create_task S ws_dir task False)) (\<lambda>i st1.
               (if watch then andThen (watch_task i) (\<lambda>_. ret 0) else ret 0) (say (''task '' @ i) st1)) st))"

definition build_serve_app :: "'s cli_env \<Rightarrow> aegis_config \<Rightarrow> ('s cli_state, serve_app) eff" where
  "build_serve_app C cfg st =
     (if is_demo_mode (ce_environ C)
      then (let U = \<lparr>du_env = ce_env C, du_base = base_of cfg, du_sync = False, du_decide = None,
                     du_cancelled = \<lambda>_ _. False, du_names = ce_names C, du_python = ce_python C\<rparr>
            in case new_manager U (cl_world st) of
                 (Inl e, s) \<Rightarrow> (Inl e, st\<lparr>cl_world := ds_world s\<rparr>)
               | (Inr _, s) \<Rightarrow> (Inr (DemoPanel U s), st\<lparr>cl_world := ds_world s\<rparr>))
      else (res_bind (build_service C cfg None st) (\<lambda>S. Inr (Panel S)), st))"

definition serve_notice :: "string \<Rightarrow> int \<Rightarrow> string list" where
  "serve_notice host port =
     [replicate 60 CHR ''='', ''AegisCode local panel '' @ utf8 8212 @ '' SECURITY NOTICE'',
      ''This API has NO authentication and is for LOCALHOST ONLY.'',
      ''Do NOT expose it on a public or shared network interface.'',
      ''Serving on http://'' @ host @ '':'' @ str_of_int port @ ''  (localhost only)'', replicate 60 CHR ''='']"

definition cmd_serve :: "'s cli_env \<Rightarrow> string \<Rightarrow> int \<Rightarrow> string option \<Rightarrow> ('s cli_state, int) eff" where
  "cmd_serve C host port path =
     with_config C (cli_config C path) (\<lambda>cfg.
       andThen (in_world (data_dir C)) (\<lambda>_ st.
         case build_serve_app C cfg st of
           (Inl e, st1) \<Rightarrow> if exn_class e = ''NoKeyError'' then (Inr 1, say_err (''cannot serve: '' @ exn_msg e) st1) else (Inl e, st1)
         | (Inr app, st1) \<Rightarrow>
             (res_bind (ce_uvicorn C app host port) (\<lambda>_. Inr 0), fold say (serve_notice host port) st1)))"

text \<open>The contracts of the four demonstrations, on the dictionaries that their modules return\<close>

definition is_zero :: "json \<Rightarrow> bool" where
  "is_zero v \<longleftrightarrow> (case v of JInt n \<Rightarrow> n = 0 | JBool b \<Rightarrow> \<not> b | JFloat _ \<Rightarrow> \<not> truthy v | _ \<Rightarrow> False)"

definition DEMOS :: "(string \<times> string \<times> (json \<Rightarrow> bool res)) list" where
  "DEMOS =
     [(''demo'' @ utf8 9312, ''demo1_dangerous_denied'', \<lambda>r.
         res_bind (dict_get r ''executed'' JNull) (\<lambda>n. res_bind (dict_get r ''decision'' JNull) (\<lambda>d.
           Inr (is_zero n \<and> d = JStr ''DENY'')))),
      (''demo'' @ utf8 9313, ''demo2_feedback_loop'', \<lambda>r.
         res_bind (dict_get r ''completed'' JNull) (\<lambda>c. res_bind (dict_get r ''action_changed'' JNull) (\<lambda>a.
           Inr (truthy c \<and> truthy a)))),
      (''demo'' @ utf8 9314, ''demo3_symlink_escape'', \<lambda>r.
         res_bind (dict_get r ''decision'' JNull) (\<lambda>d. Inr (d = JStr ''DENY''))),
      (''demo'' @ utf8 9315, ''demo4_superseded'', \<lambda>r.
         res_bind (dict_get r ''superseded'' JNull) (\<lambda>s. Inr (s = JBool True)))]"

fun run_demos :: "'s cli_env \<Rightarrow> (string \<Rightarrow> (world, json) eff) \<Rightarrow> (string \<times> string \<times> (json \<Rightarrow> bool res)) list \<Rightarrow> bool \<Rightarrow>
    's cli_state \<Rightarrow> bool \<times> 's cli_state" where
  "run_demos C module [] all_ok st = (all_ok, st)"
| "run_demos C module ((label, name, contract) # ds) all_ok st =
     (case in_world (module name) st of
        (r, st1) \<Rightarrow>
          (case res_bind r (\<lambda>v. res_bind (contract v) (\<lambda>p. Inr (v, p))) of
             Inl e \<Rightarrow> run_demos C module ds False
               (say_err (label @ '': FAIL ('' @ exn_class e @ '': '' @ exn_msg e @ '')'') st1)
           | Inr (v, passed) \<Rightarrow>
               run_demos C module ds (all_ok \<and> passed)
                 (if passed then say (label @ '': PASS '' @ ce_show C v) st1
                  else say_err (label @ '': FAIL '' @ ce_show C v) st1)))"

definition cmd_demo :: "'s cli_env \<Rightarrow> ('s cli_state, int) eff" where
  "cmd_demo C st =
     (case ce_demos C of
        Inl m \<Rightarrow> (Inr 1, say_err (''cannot load demos package: '' @ m) st)
      | Inr module \<Rightarrow>
          (case run_demos C module DEMOS True st of (ok, st1) \<Rightarrow> (Inr (if ok then 0 else 1), st1)))"

section \<open>The entry point\<close>

text \<open>\<open>int(text)\<close>, for the digits of ASCII\<close>

definition py_int :: "string \<Rightarrow> int res" where
  "py_int t =
     (let s = strip t;
          neg = startswith s ''-'';
          ds = (if neg \<or> startswith s ''+'' then drop 1 s else s);
          groups = split_on CHR ''_'' ds
      in if list_all (\<lambda>g. g \<noteq> [] \<and> list_all is_digit g) groups
         then Inr ((if neg then - 1 else 1) * foldl (\<lambda>n c. 10 * n + (int (of_char c) - 48)) 0 (concat groups))
         else Inl (exc ''ValueError'' (''invalid literal for int() with base 10: '' @ py_repr t)))"

definition default_port :: "(string \<times> string) list \<Rightarrow> int res" where
  "default_port environ = py_int (case map_of environ ''PORT'' of None \<Rightarrow> ''8000'' | Some t \<Rightarrow> t)"

text \<open>The subcommands with their arguments; a usage error has the code 2.\<close>

definition build_command :: "int \<Rightarrow> string \<Rightarrow> (string \<times> string) list \<Rightarrow> int + command" where
  "build_command port name args =
     (let arg = map_of args; flag = (\<lambda>k. arg k \<noteq> None); default = (\<lambda>k d. case arg k of None \<Rightarrow> d | Some v \<Rightarrow> v)
      in if name = ''init'' then Inr (Init (arg ''path'') (flag ''force''))
         else if name = ''run''
         then (case (arg ''workspace'', arg ''task'') of
                 (Some ws_dir, Some task) \<Rightarrow> Inr (Run ws_dir task (flag ''watch'') (arg ''config''))
               | _ \<Rightarrow> Inl 2)
         else if name = ''serve''
         then (case (case arg ''port'' of None \<Rightarrow> Inr port | Some t \<Rightarrow> py_int t) of
                 Inl _ \<Rightarrow> Inl 2
               | Inr p \<Rightarrow> Inr (Serve (default ''host'' ''127.0.0.1'') p (arg ''config'')))
         else if name = ''config'' then Inr (Config (default ''path'' DEFAULT_CONFIG_NAME))
         else if name = ''key''
         then (case arg ''key_action'' of
                 None \<Rightarrow> Inl 2
               | Some a \<Rightarrow> if a \<in> {''set'', ''status'', ''clear''} then Inr (Key a) else Inl 2)
         else if name = ''demo'' then Inr DemoCmd
         else Inl 2)"

fun run_command :: "'s cli_env \<Rightarrow> command \<Rightarrow> ('s cli_state, int) eff" where
  "run_command C (Init path force) = cmd_init C path force"
| "run_command C (Run ws_dir task watch config) = cmd_run C ws_dir task watch config"
| "run_command C (Serve host port config) = cmd_serve C host port config"
| "run_command C (Config path) = cmd_config C path"
| "run_command C (Key key_action) = cmd_key C key_action"
| "run_command C DemoCmd = cmd_demo C"

text \<open>A refusal of the parser is a \<open>SystemExit\<close> with its code.\<close>

definition main :: "'s cli_env \<Rightarrow> string list \<Rightarrow> ('s cli_state, int) eff" where
  "main C argv =
     andThen (lift_res (default_port (ce_environ C))) (\<lambda>port.
       case (case ce_parse C argv of Inl code \<Rightarrow> Inl code | Inr (name, args) \<Rightarrow> build_command port name args) of
         Inl code \<Rightarrow> raise (exc ''SystemExit'' (str_of_int code))
       | Inr command \<Rightarrow> run_command C command)"

section \<open>Configurations and init\<close>

lemma in_world_sel [simp]:
  "fst (in_world f st) = fst (f (cl_world st))" "cl_world (snd (in_world f st)) = snd (f (cl_world st))"
  "cl_out (snd (in_world f st)) = cl_out st" "cl_err (snd (in_world f st)) = cl_err st" "cl_keys (snd (in_world f st)) = cl_keys st"
  by (simp_all add: in_world_def split: prod.split)

lemma say_sel [simp]: "cl_world (say l st) = cl_world st" "cl_out (say l st) = cl_out st @ [l]" "cl_keys (say l st) = cl_keys st"
  "cl_err (say l st) = cl_err st"
  by (simp_all add: say_def)

lemma say_err_sel [simp]: "cl_world (say_err l st) = cl_world st" "cl_out (say_err l st) = cl_out st" "cl_keys (say_err l st) = cl_keys st"
  "cl_err (say_err l st) = cl_err st @ [l]"
  by (simp_all add: say_err_def)

lemma say_all [simp]: "cl_world (fold say ls st) = cl_world st" "cl_out (fold say ls st) = cl_out st @ ls" "cl_keys (fold say ls st) = cl_keys st"
  "cl_err (fold say ls st) = cl_err st"
  by (induction ls arbitrary: st) simp_all

text \<open>Reading changes nothing.\<close>

lemma read_bytes_same: "snd (read_bytes E path w) = w"
  by (simp add: read_bytes_def split: option.splits node.splits)

lemma read_text_same: "snd (read_text E path w) = w"
  using read_bytes_same [of E path w]
  by (auto simp: read_text_def andThen_def ret_def raise_def split: prod.splits sum.splits)

lemma load_file_same: "snd (load_file C path w) = w"
  using read_text_same [of "e_os (ce_env C)" path w]
  by (auto simp: load_file_def andThen_def lift_res_def split: prod.splits sum.splits)


text \<open>
  C40: The scaffold is safe and usable: without \<open>--force\<close> an existing file is never touched, nothing
  but the target can change, and when \<open>init\<close> succeeds, \<open>config\<close> accepts the file it wrote.
\<close>

theorem init_contract:
  assumes "cmd_init C path force st = (r, st')" and "target = init_target path (cl_world st)"
  shows "(exists_py (cl_world st) target \<and> \<not> force \<longrightarrow> r = Inr 1 \<and> cl_world st' = cl_world st) \<and>
     (\<forall>p. lstat (os_fs (cl_world st')) p \<noteq> lstat (os_fs (cl_world st)) p \<longrightarrow>
        resolve_create (os_fs (cl_world st)) (os_cwd (cl_world st)) target = Some p \<and> lstat (os_fs (cl_world st')) p = Some (File INIT_TEMPLATE)) \<and>
     (r = Inr 0 \<longrightarrow> fst (cmd_config C target st') = Inr 0)"
proof (cases "exists_py (cl_world st) target \<and> \<not> force")
  case True
  with assms show ?thesis by (auto simp: cmd_init_def Let_def)
next
  case False
  obtain x w where x: "write_text (e_os (ce_env C)) target INIT_TEMPLATE (cl_world st) = (x, w)" by fastforce
  obtain y where y: "load_file C target w = (y, w)" using load_file_same [of C target w] by (metis prod.collapse)
  from assms False have run: "(case x of Inl e \<Rightarrow> (Inl e, st\<lparr>cl_world := w\<rparr>)
      | Inr _ \<Rightarrow> (case y of Inl e \<Rightarrow> (Inl e, st\<lparr>cl_world := w\<rparr>) | Inr _ \<Rightarrow> (Inr 0, say (''wrote '' @ target) (st\<lparr>cl_world := w\<rparr>)))) = (r, st')"
    using x y by (auto simp: cmd_init_def in_world_def andThen_def Let_def split: sum.splits if_splits)
  then have w': "cl_world st' = w" by (auto split: sum.splits)
  have "lstat (os_fs w) p \<noteq> lstat (os_fs (cl_world st)) p \<longrightarrow>
      resolve_create (os_fs (cl_world st)) (os_cwd (cl_world st)) target = Some p \<and> lstat (os_fs w) p = Some (File INIT_TEMPLATE)" for p
    using x by (cases rule: write_textE) (auto simp: lstat_def update_conv' split: if_splits)
  moreover have "fst (cmd_config C target st') = Inr 0" if "r = Inr 0"
    using run that y w' by (auto simp: cmd_config_def with_config_def in_world_def split: sum.splits)
  ultimately show ?thesis unfolding w' using False by blast
qed

section \<open>Keys\<close>

text \<open>
  C39: A key that \<open>key set\<close> stored in the key file is the key that a later run uses: the service that is
  assembled then, for whatever configuration and whatever happened to the world in between, has the
  client of its provider with exactly this key, both for \<open>openai\<close> and for \<open>anthropic\<close>; \<open>mock\<close> needs none and
  another provider is refused.  No line that was printed depends on the key.
\<close>

theorem key_reaches_client:
  assumes "credential_store C = (file_backend um, L)" and "file_ok (cl_keys st)" and "str_ok (ce_typed_key C)"
    and "cmd_key C ''set'' st = (Inr 0, st')" and "cl_keys st2 = cl_keys st'"
  shows "map_sum exn_class s_model (build_service C cfg f st2) =
      (let c = llm cfg; key = JStr (ce_typed_key C) in
       if llm_provider c = ''mock'' then Inr (mock_llm (w_llm (cl_world st2)) [])
       else if llm_provider c = ''openai'' then Inr (ce_model C (OpenAIClient (llm_model c) key (base_url c)))
       else if llm_provider c = ''anthropic'' then Inr (ce_model C (AnthropicClient (llm_model c) key (base_url c)))
       else Inl ''NoKeyError'') \<and>
     cl_out st' = cl_out st @ [''API key stored''] \<and> cl_err st' = cl_err st"
proof -
  have ne: "ce_typed_key C \<noteq> []" using assms(4) by (auto simp: cmd_key_def assms(1) split: if_splits)
  with assms(1,4) obtain ks where ks: "set_key (file_backend um) (ce_typed_key C) (cl_keys st) = (Inr (), ks)"
    "st' = say ''API key stored'' (st\<lparr>cl_keys := ks\<rparr>)"
    by (auto simp: cmd_key_def split: prod.splits sum.splits)
  from key_file.set_key_get [OF assms(2,3) ne ks(1)] have "get_key (file_backend um) L ks = JStr (ce_typed_key C)" by simp
  moreover have "truthy (JStr (ce_typed_key C))" using ne by simp
  moreover have "cl_keys st2 = ks" using assms(5) ks(2) by simp
  ultimately show ?thesis
    using assms(1) ks(2) by (simp add: build_service_def build_llm_def client_model_def no_key_error_def exc_def Let_def)
qed

section \<open>Running a task from the command line\<close>








section \<open>Where the command line fails\<close>

text \<open>A \<open>PORT\<close> that is no number stops every command, also those without a port.\<close>

lemma bad_port_stops_all:
  "map_of (ce_environ C) ''PORT'' = Some t \<Longrightarrow> py_int t = Inl e \<Longrightarrow> main C argv st = (Inl e, st)"
  by (simp add: main_def default_port_def andThen_def lift_res_def)

lemma some_bad_ports: "\<exists>e. py_int ''tcp://10.0.0.5:80'' = Inl e" "\<exists>e. py_int [] = Inl e" "py_int '' 8_000 '' = Inr 8000"
proof -
  have "(case py_int ''tcp://10.0.0.5:80'' of Inl _ \<Rightarrow> True | Inr _ \<Rightarrow> False)" "(case py_int [] of Inl _ \<Rightarrow> True | Inr _ \<Rightarrow> False)"
    by code_simp+
  then show "\<exists>e. py_int ''tcp://10.0.0.5:80'' = Inl e" "\<exists>e. py_int [] = Inl e" by (auto split: sum.splits)
  show "py_int '' 8_000 '' = Inr 8000" by code_simp
qed

text \<open>A configuration whose top level is a list is no configuration error: the command raises a TypeError.\<close>

lemma list_config_crashes:
  assumes "read_text (e_os (ce_env C)) path (cl_world st) = (Inr t, cl_world st)" and "ce_yaml C t = Inr (JList (v # vs))" and "ce_environ C = []"
  shows "\<exists>e. cmd_config C path st = (Inl e, st) \<and> exn_class e = ''TypeError''"
proof -
  have "load_config (ce_yaml C) (ce_validate C) t (map_of (ce_environ C)) = Inl (no_mapping (JList (v # vs)))"
    using assms(2,3) by (simp add: load_config_def apply_env_overrides_def ENV_MAP_def build_config_def)
  then show ?thesis
    using assms(1) by (simp add: cmd_config_def with_config_def in_world_def load_file_def andThen_def lift_res_def config_error_def
        no_mapping_def exc_def is_os_error_def OS_ERRORS_def)
qed

section \<open>Witnesses\<close>

definition idle_config :: aegis_config where
  "idle_config = default_config\<lparr>limits_of := default_limits\<lparr>max_steps := 0\<rparr>, llm := (llm default_config)\<lparr>llm_provider := ''mock''\<rparr>\<rparr>"

definition demo_cli :: "key_file cli_env" where
  "demo_cli = \<lparr>ce_env = demo_env, ce_environ = [(''AEGIS_HOME'', ''/ws'')], ce_home = ''/root'', ce_backend = \<lambda>_. file_backend 0x12,
     ce_keyring = False, ce_yaml = \<lambda>t. Inr (JObj []), ce_validate = \<lambda>v. Inr idle_config, ce_typed_key = ''sk-12345678'',
     ce_model = \<lambda>c n msgs. Inl exhausted_error, ce_names = \<lambda>n. ''x'', ce_python = ''python'', ce_demos = Inl ''demos'',
     ce_show = \<lambda>v. [], ce_parse = \<lambda>argv. Inl 2, ce_uvicorn = \<lambda>a h p. Inr ()\<rparr>"

definition demo_shell :: "world \<Rightarrow> key_file cli_state" where
  "demo_shell w = \<lparr>cl_world = w, cl_keys = demo_key_file, cl_out = [], cl_err = []\<rparr>"

theorem init_contract_witness:
  "fst (cmd_init demo_cli (Some ''a'') False (demo_shell (demo_world\<lparr>os_fs := [([''ws''], Dir), ([''ws'', ''a''], File ''x'')]\<rparr>))) = Inr 1"
proof -
  let ?st = "demo_shell (demo_world\<lparr>os_fs := [([''ws''], Dir), ([''ws'', ''a''], File ''x'')]\<rparr>)"
  have target: "init_target (Some ''a'') (cl_world ?st) = ''a''" by (simp add: init_target_def) code_simp
  have "path_exists [([''ws''], Dir), ([''ws'', ''a''], File ''x'')] [''ws''] ''a''" "NUL \<notin> set ''a''" by code_simp+
  then have ex: "exists_py (cl_world ?st) ''a''" by (simp add: exists_py_def demo_shell_def demo_sels)
  obtain r st' where run: "cmd_init demo_cli (Some ''a'') False ?st = (r, st')" by fastforce
  from init_contract [OF run target [symmetric]] ex run show ?thesis by simp
qed

lemma demo_store: "credential_store demo_cli = (file_backend 0x12, bare_layers)"
  by (simp add: credential_store_def demo_cli_def build_credential_store_def)

theorem key_reaches_client_witness:
  "\<exists>st'. cmd_key demo_cli ''set'' (demo_shell demo_world) = (Inr 0, st') \<and>
     map_sum exn_class s_model (build_service demo_cli (default_config\<lparr>llm := (llm default_config)\<lparr>llm_provider := ''anthropic''\<rparr>\<rparr>) None st') =
       Inr (ce_model demo_cli (AnthropicClient (llm_model (llm default_config)) (JStr ''sk-12345678'') (base_url (llm default_config))))"
proof -
  obtain ks where ks: "set_key (file_backend 0x12) ''sk-12345678'' demo_key_file = (Inr (), ks)" using demo_set_key(2) by blast
  have key: "ce_typed_key demo_cli = ''sk-12345678''" by (simp add: demo_cli_def)
  have st: "cmd_key demo_cli ''set'' (demo_shell demo_world) =
      (Inr 0, say ''API key stored'' ((demo_shell demo_world)\<lparr>cl_keys := ks\<rparr>))"
    using ks by (simp add: cmd_key_def demo_store key) (simp add: demo_shell_def)
  have 1: "file_ok (cl_keys (demo_shell demo_world))" "str_ok (ce_typed_key demo_cli)"
    by (simp_all add: demo_shell_def demo_set_key(1) key str_ok_ascii)
  from key_reaches_client [OF demo_store 1 st refl, of "default_config\<lparr>llm := (llm default_config)\<lparr>llm_provider := ''anthropic''\<rparr>\<rparr>" None] st
  show ?thesis by (simp add: key Let_def)
qed




end
