(* ===== verification/Spec2Isabelle.thy ===== *)
theory Spec2Isabelle
  imports Cli
begin

text \<open>
  AegisCode (src/aegiscode) is a coding agent that lets a language model act on a workspace only
  through tools whose calls are parsed, governed, executed and audited.  A service records a task,
  runs the loop on it and records the outcome; an HTTP layer and an approval panel sit on top.
  This development models that program, one theory per component, in the order of the calls.

  Language and library.  Prelude: errors as values (\<open>'a res = exn + 'a\<close>), programs that change a
  state (\<open>('s, 'a) eff\<close>, with \<open>andThen\<close>, \<open>catch\<close>), text functions.  Unicode: UTF-8, code points; a
  text of Python is the list of its UTF-8 bytes.  Json: values, \<open>json.dumps\<close> and \<open>json.loads\<close> with
  the round trip \<open>loads_dumps\<close>.  Posix_Path: a file system as an association list from paths to
  files, directories and links, \<open>os.path\<close> and \<open>realpath\<close> (fuel: the number of links followed is
  bounded by the size of the tree, after which the name is kept, as the library does).

  Configuration and governance.  Config_Schema: config/schema.py, config/loader.py, the records with
  their defaults.  Command_Policy: governance/command_lexer.py (\<open>shlex\<close>) and command_rules.py.
  Path_Fence: governance/path_fence.py.  Protocol: protocol/parser.py and action.py.  Policy_Engine:
  governance/engine.py and factory.py.  Approval: governance/approval.py (fingerprint, resume
  check).  Tools: the tools package over an operating system record \<open>os_state\<close>.  Dispatcher:
  governance/dispatcher.py, both fences, \<open>dispatch\<close> and \<open>execute_approved\<close>.  The lemmas show that a
  tool runs only behind an open gate, that what it touches lies below the real workspace root, that
  commands fail closed, and where these promises end (the theorems of kind error).

  Records.  Redactor: security/redactor.py, credentials/scanner.py, scripts/ci_secret_scan.py; the
  regular expressions are written out as matchers and the substitution is leftmost and without
  overlap.  Database: the tables of persistence/repositories.py, memory/store.py and the hash chain
  of audit/chain.py.  The lemmas: no secret pattern survives redaction, every append keeps every
  chain, a chain is bound to its last hash up to a collision.

  Loop.  Feedback: feedback/, loop/termination.py.  Context: memory/context_builder.py and
  prompt/builder.py.  Harness: loop/harness.py over \<open>world\<close>, the operating system with the database
  and the positions in the streams of clock readings, identifiers, polls and model calls.
  \<open>run\<close> is a total function: \<open>turn_Next\<close> shows that a turn advances the step or the count of invalid
  actions, both below their limits, and \<open>run_turns\<close> that the fuel
  \<open>Suc (max_steps * action_retry_limit)\<close> is enough for the loop with fuel \<open>turns\<close>.  Run_Contract:
  locale \<open>quiet_parts\<close>, what a run guarantees (audit trail as a word of a protocol, calls of the
  model, why it ended) when dispatcher, resolver and verifier leave the log alone; interpreted in
  Service on the harness that service/assembly.py builds.

  Service.  Service: service/app_service.py in its synchronous mode, assembly.py, llm/mock.py: from the
  workspace check to the recorded outcome.  Async_Approval: the approval protocol between resolver
  threads and \<open>decide\<close>, as step relations \<open>resolver_step\<close>, \<open>decide_step\<close>, \<open>async_step\<close> over shared
  memory, with the invariant of the reachable states.  Async_Run: the thread of a task, whose resolver,
  with calls of \<open>decide\<close> in each window between its statements, is shown to be an execution of that
  protocol, and which keeps the promises of an inline run.
  Credentials: credentials/store.py and
  backend.py; locale \<open>key_backend\<close>, interpreted on the key file.  Api: llm/openai_adapter.py,
  anthropic_adapter.py, service/api.py, demo_mode.py; locale \<open>task_service\<close>, interpreted on the
  asynchronous service that \<open>serve\<close> assembles and on the synchronous one.

  Demonstrations.  Demo_Scenarios: demo/scenarios.py, the whitelisted scenarios, the outcome of a run
  read from its audit rows and the conditions on it.  Demo: demo/service.py and its endpoints; the
  manager is a record of the world with its dictionaries, and \<open>TMP_MAX\<close> is the number of names that
  tempfile tries.  Demo_Contract: cleaning up, the stability of a result, what a result shows.
  Demo_Run: what a client can start and where it runs, and the scenario of the denied command composed
  through service, loop, dispatcher, fences, audit log and projection.

  Command line.  Cli: cli.py and the assembly of a service (service/assembly.py); a command maps
  its arguments to an exit code or an exception, the lines of both streams and the changed world.

  Parameters.  A started process (\<open>exec\<close>), the hash, the clock, fresh identifiers, the model, the
  answers of a human and the transport of HTTP are arguments; a witness instantiates each of them
  with a concrete function.  The model reads them from streams, so it is deterministic but holds for
  every behaviour.

  Not modelled: the YAML parser and the validation of pydantic (arguments of the loader), opening
  of the database file and the pragmas of sqlite, the framework that decodes a request, the web
  pages (files), the keyring of the operating system, argparse, a second connection to the database,
  files that the removal of a directory cannot remove, and the scripts under demos/ and scripts/ but
  the secret scan, which print a walk through these components or talk to a server.
\<close>

end
